(* ===== verification/Flux_Prelude.thy ===== *)
theory Flux_Prelude
  imports Main
    "HOL-Library.Code_Target_Numeral" "HOL-Library.Word"
    "HOL-Library.AList"
    "HOL-Library.Sublist"
    "HOL-Library.Char_ord"
    "HOL-Library.List_Lexorder"
begin

unbundle bit_operations_syntax

text \<open>
  Shared vocabulary of the FluxDNS development: the result type of fallible Rust functions with
  its sequencing combinator, saturating and checked unsigned arithmetic, slices indexed with
  \<open>get\<close>, ordered sets as sorted lists, the byte-level string operations of the Rust standard
  library that the back end calls, and the generic index builder (a map filled from a list that
  refuses duplicate keys) that six components instantiate.
\<close>

section \<open>Results\<close>

text \<open>
  \<open>Result<T, E>\<close> is \<open>'e + 'a\<close> with the error on the left; the \<open>?\<close> operator and
  \<open>Result::and_then\<close> are \<open>and_then\<close>, \<open>Option::ok_or\<close> is \<open>ok_or\<close>.
\<close>

definition and_then :: "'e + 'a \<Rightarrow> ('a \<Rightarrow> 'e + 'b) \<Rightarrow> 'e + 'b" where
  "and_then r f = (case r of Inl e \<Rightarrow> Inl e | Inr x \<Rightarrow> f x)"

definition ok_or :: "'e \<Rightarrow> 'a option \<Rightarrow> 'e + 'a" where
  "ok_or e x = (case x of None \<Rightarrow> Inl e | Some v \<Rightarrow> Inr v)"

definition map_err :: "('e \<Rightarrow> 'f) \<Rightarrow> 'e + 'a \<Rightarrow> 'f + 'a" where
  "map_err g r = (case r of Inl e \<Rightarrow> Inl (g e) | Inr x \<Rightarrow> Inr x)"

named_theorems result_simps \<open>evaluation of the result combinators\<close>

lemma and_then_simps [simp, result_simps]:
  "and_then (Inl e) f = Inl e"
  "and_then (Inr x) f = f x"
  by (simp_all add: and_then_def)

lemma and_then_Inr_iff [simp]:
  "and_then r f = Inr y \<longleftrightarrow> (\<exists>x. r = Inr x \<and> f x = Inr y)"
  by (cases r) auto

lemma and_then_Inl_iff:
  "and_then r f = Inl e \<longleftrightarrow> r = Inl e \<or> (\<exists>x. r = Inr x \<and> f x = Inl e)"
  by (cases r) auto

lemma and_then_cong [fundef_cong]:
  "r = r' \<Longrightarrow> (\<And>x. r' = Inr x \<Longrightarrow> f x = g x) \<Longrightarrow> and_then r f = and_then r' g"
  by (cases r') auto

lemma ok_or_simps [simp, result_simps]:
  "ok_or e None = Inl e"
  "ok_or e (Some x) = Inr x"
  by (simp_all add: ok_or_def)

lemma ok_or_iff [simp]:
  "ok_or e x = Inr v \<longleftrightarrow> x = Some v"
  "ok_or e x = Inl e' \<longleftrightarrow> x = None \<and> e' = e"
  by (auto simp: ok_or_def split: option.splits)

lemma map_err_simps [simp, result_simps]:
  "map_err g (Inl e) = Inl (g e)"
  "map_err g (Inr x) = Inr x"
  by (simp_all add: map_err_def)

lemma map_err_iff [simp]:
  "map_err g r = Inr x \<longleftrightarrow> r = Inr x"
  "map_err g r = Inl e \<longleftrightarrow> (\<exists>e'. r = Inl e' \<and> e = g e')"
  by (auto simp: map_err_def split: sum.splits)

section \<open>Unsigned arithmetic and slices\<close>

type_synonym byte = "8 word"

definition u64_max :: nat where
  "u64_max = 18446744073709551615"

definition u32_max :: nat where
  "u32_max = 4294967295"

text \<open>\<open>u64::saturating_add\<close>, \<open>usize::checked_add\<close> (64-bit targets).\<close>

definition saturating_add :: "nat \<Rightarrow> nat \<Rightarrow> nat" where
  "saturating_add a b = min u64_max (a + b)"

definition checked_add :: "nat \<Rightarrow> nat \<Rightarrow> nat option" where
  "checked_add a b = (if a + b \<le> u64_max then Some (a + b) else None)"

lemma saturating_add_exact [simp]: "a + b \<le> u64_max \<Longrightarrow> saturating_add a b = a + b"
  by (simp add: saturating_add_def)

lemma saturating_add_le: "saturating_add a b \<le> u64_max"
  by (simp add: saturating_add_def)

lemma checked_add_iff [simp]: "checked_add a b = Some c \<longleftrightarrow> c = a + b \<and> a + b \<le> u64_max"
  by (auto simp: checked_add_def)

text \<open>\<open>slice::get\<close>.\<close>

definition nth_opt :: "'a list \<Rightarrow> nat \<Rightarrow> 'a option" where
  "nth_opt xs i = (if i < length xs then Some (xs ! i) else None)"

lemma nth_opt_iff [simp]:
  "nth_opt xs i = Some x \<longleftrightarrow> i < length xs \<and> x = xs ! i"
  "nth_opt xs i = None \<longleftrightarrow> length xs \<le> i"
  by (auto simp: nth_opt_def)

lemma nth_opt_append_Cons [simp]: "nth_opt (xs @ y # ys) (length xs) = Some y"
  by simp

section \<open>Ordered sets\<close>

text \<open>
  \<open>BTreeSet<T>\<close> is a strictly increasing list: \<open>insert\<close> reports whether the value was
  new, iteration is the list itself and \<open>len\<close> is its length.
\<close>

definition bset_insert :: "'a::linorder \<Rightarrow> 'a list \<Rightarrow> bool \<times> 'a list" where
  "bset_insert x xs = (if x \<in> set xs then (False, xs) else (True, insort x xs))"

definition bset_ok :: "'a::linorder list \<Rightarrow> bool" where
  "bset_ok xs \<longleftrightarrow> sorted xs \<and> distinct xs"

lemma bset_ok_Nil [simp]: "bset_ok []"
  by (simp add: bset_ok_def)

lemma bset_insert_ok:
  "bset_insert x xs = (new, ys) \<Longrightarrow> bset_ok xs \<Longrightarrow> bset_ok ys"
  by (auto simp: bset_insert_def bset_ok_def sorted_insort distinct_insort split: if_splits)

lemma bset_insert_set:
  "bset_insert x xs = (new, ys) \<Longrightarrow> set ys = insert x (set xs)"
  by (auto simp: bset_insert_def set_insort_key split: if_splits)

lemma bset_insert_length:
  "bset_insert x xs = (new, ys) \<Longrightarrow> length ys = length xs + (if new then 1 else 0)"
  by (auto simp: bset_insert_def split: if_splits)

section \<open>First match in a list\<close>

text \<open>The position of the first element satisfying a predicate (\<open>enumerate().find(..)\<close>).\<close>

fun find_index_from :: "nat \<Rightarrow> ('a \<Rightarrow> bool) \<Rightarrow> 'a list \<Rightarrow> nat option" where
  "find_index_from n p [] = None"
| "find_index_from n p (x # xs) = (if p x then Some n else find_index_from (Suc n) p xs)"

definition find_index :: "('a \<Rightarrow> bool) \<Rightarrow> 'a list \<Rightarrow> nat option" where
  "find_index p xs = find_index_from 0 p xs"

lemma find_index_from_Some:
  "find_index_from n p xs = Some i \<longleftrightarrow>
     n \<le> i \<and> i - n < length xs \<and> p (xs ! (i - n)) \<and> (\<forall>j < i - n. \<not> p (xs ! j))"
proof (induction xs arbitrary: n)
  case Nil
  then show ?case by simp
next
  case (Cons x xs)
  show ?case
  proof (cases "p x")
    case True
    then show ?thesis by (cases "i = n") (auto simp: nth_Cons split: nat.splits dest: Suc_diff_le)
  next
    case False
    have "(Suc n \<le> i \<and> i - Suc n < length xs \<and> p (xs ! (i - Suc n)) \<and>
             (\<forall>j < i - Suc n. \<not> p (xs ! j))) \<longleftrightarrow>
          (n \<le> i \<and> i - n < length (x # xs) \<and> p ((x # xs) ! (i - n)) \<and>
             (\<forall>j < i - n. \<not> p ((x # xs) ! j)))"
    proof (cases "Suc n \<le> i")
      case True
      then obtain k where "i = Suc (n + k)" by (auto simp: le_iff_add)
      with False show ?thesis by (auto simp: less_Suc_eq_0_disj)
    next
      case False
      with \<open>\<not> p x\<close> show ?thesis by (cases "i = n") auto
    qed
    with False Cons.IH show ?thesis by simp
  qed
qed

lemma find_index_Some:
  "find_index p xs = Some i \<longleftrightarrow> i < length xs \<and> p (xs ! i) \<and> (\<forall>j < i. \<not> p (xs ! j))"
  by (simp add: find_index_def find_index_from_Some)

lemma find_index_from_None: "find_index_from n p xs = None \<longleftrightarrow> (\<forall>x \<in> set xs. \<not> p x)"
  by (induction xs arbitrary: n) auto

lemma find_index_None: "find_index p xs = None \<longleftrightarrow> (\<forall>x \<in> set xs. \<not> p x)"
  by (simp add: find_index_def find_index_from_None)

text \<open>The declarative form of a search, for specifications.\<close>

lemma find_index_found:
  "(\<exists>i < length xs. p (xs ! i) \<and> q i \<and> (\<forall>j < i. \<not> p (xs ! j))) \<longleftrightarrow>
     (\<exists>i. find_index p xs = Some i \<and> q i)"
  "(\<exists>x \<in> set xs. p x) \<longleftrightarrow> find_index p xs \<noteq> None"
  by (auto simp: find_index_Some find_index_None)

lemma find_index_from_Suc: "find_index_from (Suc n) p xs = map_option Suc (find_index_from n p xs)"
  by (induction xs arbitrary: n) auto

lemma find_index_Cons: "find_index p (x # xs) = (if p x then Some 0 else map_option Suc (find_index p xs))"
  by (simp add: find_index_def find_index_from_Suc)

lemma find_index_Nil [simp]: "find_index p [] = None"
  by (simp add: find_index_def)

section \<open>Indexes built from a list, refusing duplicate keys\<close>

text \<open>
  Several components fill a map from a list: every element is checked and turned into a value
  (\<open>check\<close>, whose error ends the loop), a key that is already present ends the loop with the
  component's own duplicate error, and otherwise the value is stored. The locale states that
  contract; the components interpret it on their own loops.
\<close>

locale unique_index =
  fixes build :: "'a list \<Rightarrow> ('k \<rightharpoonup> 'v) \<Rightarrow> 'e + ('k \<rightharpoonup> 'v)"
    and key :: "'a \<Rightarrow> 'k"
    and check :: "'a \<Rightarrow> 'e + 'v"
    and dup :: "'a \<Rightarrow> 'e"
  assumes build_Nil: "build [] m = Inr m"
    and build_Cons: "build (x # xs) m =
      and_then (check x) (\<lambda>v. if m (key x) \<noteq> None then Inl (dup x) else build xs (m(key x \<mapsto> v)))"
begin

lemma build_Inr_gen:
  "build xs m = Inr m' \<Longrightarrow>
     (\<forall>x \<in> set xs. \<exists>v. check x = Inr v \<and> m' (key x) = Some v) \<and>
     distinct (map key xs) \<and> key ` set xs \<inter> dom m = {} \<and>
     (\<forall>k. k \<notin> key ` set xs \<longrightarrow> m' k = m k)"
proof (induction xs arbitrary: m)
  case Nil
  then show ?case by (simp add: build_Nil)
next
  case (Cons x xs)
  from Cons.prems obtain v where
    v: "check x = Inr v" "m (key x) = None" "build xs (m(key x \<mapsto> v)) = Inr m'"
    by (auto simp: build_Cons split: if_splits)
  from Cons.IH [OF v(3)]
  have IH: "\<forall>y \<in> set xs. \<exists>w. check y = Inr w \<and> m' (key y) = Some w"
    "distinct (map key xs)" "key ` set xs \<inter> dom (m(key x \<mapsto> v)) = {}"
    "\<forall>k. k \<notin> key ` set xs \<longrightarrow> m' k = (m(key x \<mapsto> v)) k"
    by auto
  from IH(3) have nx: "key x \<notin> key ` set xs" by auto
  with IH(4) have "m' (key x) = Some v" by simp
  with v IH nx show ?case by auto
qed

lemma build_values:
  "build xs Map.empty = Inr m \<Longrightarrow> x \<in> set xs \<Longrightarrow> \<exists>v. check x = Inr v \<and> m (key x) = Some v"
  by (drule build_Inr_gen) auto

lemma build_distinct:
  "build xs Map.empty = Inr m \<Longrightarrow> distinct (map key xs)"
  by (drule build_Inr_gen) auto

lemma build_dom:
  assumes "build xs Map.empty = Inr m"
  shows "dom m = key ` set xs"
proof -
  from build_Inr_gen [OF assms]
  have vals: "\<And>x. x \<in> set xs \<Longrightarrow> \<exists>v. m (key x) = Some v"
    and rest: "\<And>k. k \<notin> key ` set xs \<Longrightarrow> m k = None" by auto
  show ?thesis using vals rest by (auto simp: dom_def) fastforce+
qed

lemma build_lookup:
  assumes "build xs Map.empty = Inr m" and "m k = Some v"
  shows "\<exists>x \<in> set xs. key x = k \<and> check x = Inr v"
proof -
  from assms(2) have "k \<in> dom m" by blast
  with build_dom [OF assms(1)] obtain x where "x \<in> set xs" "key x = k" by auto
  with build_values [OF assms(1)] assms(2) show ?thesis by force
qed

lemma build_succeeds_gen:
  "(\<forall>x \<in> set xs. \<exists>v. check x = Inr v) \<Longrightarrow> distinct (map key xs) \<Longrightarrow>
     key ` set xs \<inter> dom m = {} \<Longrightarrow> \<exists>m'. build xs m = Inr m'"
proof (induction xs arbitrary: m)
  case Nil
  then show ?case by (simp add: build_Nil)
next
  case (Cons x xs)
  then obtain v where v: "check x = Inr v" by auto
  have "key ` set xs \<inter> dom (m(key x \<mapsto> v)) = {}" using Cons.prems by auto
  with Cons obtain m' where "build xs (m(key x \<mapsto> v)) = Inr m'" by fastforce
  moreover have "m (key x) = None" using Cons.prems(3) by (auto simp: domIff)
  ultimately show ?case using v by (auto simp: build_Cons)
qed

lemma build_succeeds_iff:
  "(\<exists>m. build xs Map.empty = Inr m) \<longleftrightarrow>
     (\<forall>x \<in> set xs. \<exists>v. check x = Inr v) \<and> distinct (map key xs)"
  using build_succeeds_gen [of xs Map.empty] build_values build_distinct by (auto, blast)

lemma build_error:
  "build xs m = Inl e \<Longrightarrow> \<exists>x \<in> set xs. check x = Inl e \<or> e = dup x"
proof (induction xs arbitrary: m)
  case Nil
  then show ?case by (simp add: build_Nil)
next
  case (Cons x xs)
  then show ?case
    by (fastforce simp: build_Cons and_then_Inl_iff split: if_splits)
qed

end

section \<open>Association lists\<close>

text \<open>Maps whose size or iteration the code reads are association lists; these lemmas track the
  size, the entries and a measure of the values over an update.\<close>

lemma alist_update_length:
  "length (AList.update k v m) = (if map_of m k = None then Suc (length m) else length m)"
  by (induction m) auto

lemma alist_update_entry:
  "(k', v') \<in> set (AList.update k v m) \<Longrightarrow> (k' = k \<and> v' = v) \<or> (k', v') \<in> set m"
  by (induction m) (auto split: if_splits)

lemma alist_update_sum:
  fixes f :: "'v \<Rightarrow> nat"
  shows "sum_list (map (\<lambda>(_, v). f v) (AList.update k v m)) + (case map_of m k of None \<Rightarrow> 0 | Some u \<Rightarrow> f u) =
    sum_list (map (\<lambda>(_, v). f v) m) + f v"
  by (induction m) auto

lemma alist_update_distinct:
  "distinct (map fst m) \<Longrightarrow> distinct (map fst (AList.update k v m))"
  by (rule distinct_update)

lemmas alist_update_simps = alist_update_length alist_update_distinct update_conv'

section \<open>Counting in lists\<close>

lemma count_list_update:
  "i < length xs \<Longrightarrow> count_list (xs[i := y]) x + (if xs ! i = x then 1 else 0) = count_list xs x + (if y = x then 1 else 0)"
proof (induction xs arbitrary: i)
  case (Cons z zs)
  show ?case
  proof (cases i)
    case (Suc j)
    then show ?thesis using Cons.IH [of j] Cons.prems by (cases "y = x"; cases "zs ! j = x") simp_all
  qed simp
qed simp

end
