(* ===== verification/Net_Address.thy ===== *)
theory Net_Address
  imports Rust_Strings
begin

text \<open>
  \<open>std::net::IpAddr\<close> as the sources use it: the two address families and the textual parser
  behind \<open>str::parse::<IpAddr>()\<close> (hosts files, hosts JSON, DoH client addresses). An atomic
  parser operation is a function from the remaining text to an optional result with the rest;
  \<open>None\<close> leaves the text where it was.
\<close>

datatype ip_addr = V4 "32 word" | V6 "128 word"

definition is_ipv4 :: "ip_addr \<Rightarrow> bool" where
  "is_ipv4 a \<longleftrightarrow> (case a of V4 _ \<Rightarrow> True | V6 _ \<Rightarrow> False)"

definition is_ipv6 :: "ip_addr \<Rightarrow> bool" where
  "is_ipv6 a \<longleftrightarrow> (case a of V4 _ \<Rightarrow> False | V6 _ \<Rightarrow> True)"

definition of_digits :: "nat \<Rightarrow> nat list \<Rightarrow> nat" where
  "of_digits base ds = foldl (\<lambda>a d. a * base + d) 0 ds"

definition to_digit :: "nat \<Rightarrow> char \<Rightarrow> nat option" where
  "to_digit radix c =
     (let n = code c;
          d = (if 48 \<le> n \<and> n \<le> 57 then n - 48
               else if 97 \<le> n \<and> n \<le> 122 then n - 87
               else if 65 \<le> n \<and> n \<le> 90 then n - 55 else radix)
      in if d < radix then Some d else None)"

type_synonym 'a reader = "string \<Rightarrow> ('a \<times> string) option"

definition read_given_char :: "char \<Rightarrow> unit reader" where
  "read_given_char target s = (case s of [] \<Rightarrow> None | c # cs \<Rightarrow> if c = target then Some ((), cs) else None)"

definition read_separator :: "char \<Rightarrow> nat \<Rightarrow> 'a reader \<Rightarrow> 'a reader" where
  "read_separator sep index inner s =
     (if 0 < index
      then (case read_given_char sep s of None \<Rightarrow> None | Some (_, s') \<Rightarrow> inner s')
      else inner s)"

fun read_digits :: "nat \<Rightarrow> nat \<Rightarrow> nat \<Rightarrow> nat \<Rightarrow> string \<Rightarrow> (nat \<times> nat \<times> string) option" where
  "read_digits radix max_digits result count [] = Some (result, count, [])"
| "read_digits radix max_digits result count (c # cs) =
     (case to_digit radix c of
        None \<Rightarrow> Some (result, count, c # cs)
      | Some d \<Rightarrow> if max_digits < count + 1 then None
                  else read_digits radix max_digits (result * radix + d) (count + 1) cs)"

definition read_number :: "nat \<Rightarrow> nat \<Rightarrow> bool \<Rightarrow> nat \<Rightarrow> nat reader" where
  "read_number radix max_digits allow_zero_prefix max_value s =
     (case read_digits radix max_digits 0 0 s of
        None \<Rightarrow> None
      | Some (result, count, rest) \<Rightarrow>
          if count = 0 then None
          else if \<not> allow_zero_prefix \<and> s \<noteq> [] \<and> hd s = CHR ''0'' \<and> 1 < count then None
          else if result \<le> max_value then Some (result, rest) else None)"

fun read_octets :: "nat \<Rightarrow> nat \<Rightarrow> nat list reader" where
  "read_octets 0 index s = Some ([], s)"
| "read_octets (Suc n) index s =
     (case read_separator (CHR ''.'') index (read_number 10 3 False 255) s of
        None \<Rightarrow> None
      | Some (d, s') \<Rightarrow> (case read_octets n (index + 1) s' of
          None \<Rightarrow> None
        | Some (ds, s'') \<Rightarrow> Some (d # ds, s'')))"

definition read_ipv4_addr :: "nat list reader" where
  "read_ipv4_addr = read_octets 4 0"

text \<open>\<open>read_groups\<close>: the groups read, whether an embedded IPv4 address ended them, the rest.\<close>

fun read_groups :: "nat \<Rightarrow> nat \<Rightarrow> string \<Rightarrow> nat list \<times> bool \<times> string" where
  "read_groups 0 index s = ([], False, s)"
| "read_groups (Suc n) index s =
     (case (if 0 < n then read_separator (CHR '':'') index read_ipv4_addr s else None) of
        Some (octets, s') \<Rightarrow>
          ([of_digits 256 (take 2 octets), of_digits 256 (drop 2 octets)], True, s')
      | None \<Rightarrow>
          (case read_separator (CHR '':'') index (read_number 16 4 True 65535) s of
             None \<Rightarrow> ([], False, s)
           | Some (g, s') \<Rightarrow>
               (case read_groups n (index + 1) s' of (gs, v4, s'') \<Rightarrow> (g # gs, v4, s''))))"

definition read_ipv6_addr :: "nat list reader" where
  "read_ipv6_addr s =
     (case read_groups 8 0 s of (head, head_ipv4, s1) \<Rightarrow>
        if length head = 8 then Some (head, s1)
        else if head_ipv4 then None
        else (case read_given_char (CHR '':'') s1 of None \<Rightarrow> None | Some (_, s2) \<Rightarrow>
          (case read_given_char (CHR '':'') s2 of None \<Rightarrow> None | Some (_, s3) \<Rightarrow>
            (case read_groups (8 - (length head + 1)) 0 s3 of (tail, _, s4) \<Rightarrow>
               Some (head @ replicate (8 - length head - length tail) 0 @ tail, s4)))))"

definition parse_ip_addr :: "string \<Rightarrow> ip_addr option" where
  "parse_ip_addr s =
     (case read_ipv4_addr s of
        Some (octets, rest) \<Rightarrow> if rest = [] then Some (V4 (of_nat (of_digits 256 octets))) else None
      | None \<Rightarrow>
          (case read_ipv6_addr s of
             Some (groups, rest) \<Rightarrow>
               if rest = [] then Some (V6 (of_nat (of_digits 65536 groups))) else None
           | None \<Rightarrow> None))"

section \<open>Shape of the results\<close>

lemma read_number_le: "read_number radix md z mv s = Some (v, rest) \<Longrightarrow> v \<le> mv"
  by (auto simp: read_number_def split: option.splits if_splits)

lemma read_separator_Some:
  assumes "read_separator sep i inner s = Some (v, rest)"
  obtains s' where "inner s' = Some (v, rest)"
  using assms by (auto simp: read_separator_def split: if_splits option.splits)

lemma read_octets_wf:
  "read_octets n i s = Some (ds, rest) \<Longrightarrow> length ds = n \<and> list_all (\<lambda>d. d \<le> 255) ds"
proof (induction n i s arbitrary: ds rest rule: read_octets.induct)
  case (2 n index s)
  then obtain d s' ds' s'' where
    d: "read_separator (CHR ''.'') index (read_number 10 3 False 255) s = Some (d, s')"
    and ds: "read_octets n (index + 1) s' = Some (ds', s'')" "ds = d # ds'"
    by (auto split: option.splits)
  from d have "d \<le> 255" by (auto elim!: read_separator_Some dest: read_number_le)
  with "2.IH" [OF d refl ds(1)] ds(2) show ?case by simp
qed simp

lemma of_digits_less: "list_all (\<lambda>d. d < base) ds \<Longrightarrow> of_digits base ds < base ^ length ds"
proof (induction ds rule: rev_induct)
  case (snoc d ds)
  then have "of_digits base ds < base ^ length ds" "d < base" by simp_all
  then have "of_digits base ds * base + d < base ^ length ds * base"
    by (metis add.commute less_eq_Suc_le mult_less_le_imp_less mult_Suc add_less_le_mono
        mult_le_mono1 order_less_le_trans nat_add_left_cancel_less)
  then show ?case by (simp add: of_digits_def mult.commute)
qed (simp add: of_digits_def)

end
