(* ===== verification/Rule_Regex.thy ===== *)
theory Rule_Regex
  imports Rust_Strings
begin

text \<open>
  The restricted regular expressions of \<open>backend/src/resource/rules.rs\<close>: the compiler
  (\<open>CompiledRegex::compile\<close> with \<open>parse_class\<close> and \<open>is_escaped\<close>) and the memoising
  backtracking matcher (\<open>is_match\<close>, \<open>match_here\<close>, \<open>atom_matches\<close>). Characters are
  Unicode scalar values (\<open>nat\<close>), patterns and texts lists of them, positions indices into
  the pattern. The reference semantics is the language of a token sequence; the matcher is
  proved to decide it, and the compiler to produce only well-formed programs within the bound.
\<close>

section \<open>Programs\<close>

datatype regex_atom =
    Literal nat
  | Any
  | Class (ranges: "(nat \<times> nat) list") (negated: bool)

record regex_token =
  atom :: regex_atom
  tok_min :: nat
  tok_max :: "nat option"

record compiled_regex =
  anchored_start :: bool
  anchored_end :: bool
  tokens :: "regex_token list"

datatype regex_compile_error = RegexInvalid | RegexUnsupported | RegexTooLarge

section \<open>Compilation\<close>

text \<open>\<open>is_escaped\<close>: an odd number of backslashes stands right before the position.\<close>

fun slash_count :: "nat list \<Rightarrow> nat \<Rightarrow> nat" where
  "slash_count cs 0 = 0"
| "slash_count cs (Suc cursor) =
     (if cs ! cursor = code (CHR 0x5C) then Suc (slash_count cs cursor) else 0)"

definition is_escaped :: "nat list \<Rightarrow> nat \<Rightarrow> bool" where
  "is_escaped cs position \<longleftrightarrow> slash_count cs position mod 2 = 1"

text \<open>The first character of a class item, with its escape; the position after it.\<close>

definition parse_class_first :: "nat list \<Rightarrow> nat \<Rightarrow> regex_compile_error + nat \<times> nat" where
  "parse_class_first cs position =
     (if cs ! position = code (CHR 0x5C)
      then and_then (ok_or RegexInvalid (nth_opt cs (position + 1)))
             (\<lambda>escaped. Inr (escaped, position + 2))
      else Inr (cs ! position, position + 1))"

lemma parse_class_first_progress:
  "parse_class_first cs position = Inr (c, position') \<Longrightarrow> position < position'"
  by (auto simp: parse_class_first_def split: if_splits)

function parse_class_loop ::
  "nat list \<Rightarrow> nat \<Rightarrow> nat \<Rightarrow> (nat \<times> nat) list \<Rightarrow> regex_compile_error + (nat \<times> nat) list \<times> nat" where
  "parse_class_loop cs stop position rs =
     (if position < stop \<and> cs ! position \<noteq> code (CHR '']'') then
        and_then (parse_class_first cs position) (\<lambda>(first, position1).
          if nth_opt cs position1 = Some (code (CHR ''-'')) \<and>
             nth_opt cs (position1 + 1) \<noteq> Some (code (CHR '']''))
          then and_then (ok_or RegexInvalid (nth_opt cs (position1 + 1))) (\<lambda>last.
                 if last < first then Inl RegexInvalid
                 else parse_class_loop cs stop (position1 + 2) (rs @ [(first, last)]))
          else parse_class_loop cs stop position1 (rs @ [(first, first)]))
      else Inr (rs, position))"
  by pat_completeness auto
termination
  by (relation "measure (\<lambda>(cs, stop, position, rs). stop - position)")
    (auto dest!: parse_class_first_progress)

declare parse_class_loop.simps [simp del]

definition parse_class :: "nat list \<Rightarrow> nat \<Rightarrow> nat \<Rightarrow> regex_compile_error + regex_atom \<times> nat" where
  "parse_class cs start stop =
     (let neg = (nth_opt cs (start + 1) = Some (code (CHR ''^'')));
          position = (if neg then start + 2 else start + 1)
      in and_then (parse_class_loop cs stop position []) (\<lambda>(rs, position').
           if rs = [] \<or> stop \<le> position' \<or> cs ! position' \<noteq> code (CHR '']'')
           then Inl RegexInvalid
           else Inr (Class rs neg, position' + 1)))"

text \<open>One atom at \<open>position\<close> (the first \<open>match\<close> of the compile loop).\<close>

definition escape_atom :: "nat \<Rightarrow> regex_atom" where
  "escape_atom escaped =
     (if escaped = code (CHR ''d'') then Class [(code (CHR ''0''), code (CHR ''9''))] False
      else if escaped = code (CHR ''w'') then
        Class [(code (CHR ''0''), code (CHR ''9'')), (code (CHR ''A''), code (CHR ''Z'')),
               (code (CHR ''_''), code (CHR ''_'')), (code (CHR ''a''), code (CHR ''z''))] False
      else if escaped = code (CHR ''s'') then Class [(9, 9), (code (CHR '' ''), code (CHR '' ''))] False
      else Literal escaped)"

definition parse_atom :: "nat list \<Rightarrow> nat \<Rightarrow> nat \<Rightarrow> regex_compile_error + regex_atom \<times> nat" where
  "parse_atom cs position stop =
     (let c = cs ! position in
      if c \<in> {code (CHR ''^''), code (CHR ''$''), code (CHR ''(''), code (CHR '')''), code (CHR ''|'')}
      then Inl RegexUnsupported
      else if c = code (CHR ''.'') then Inr (Any, position + 1)
      else if c = code (CHR ''['') then parse_class cs position stop
      else if c = code (CHR 0x5C) then
        and_then (ok_or RegexInvalid (nth_opt cs (position + 1)))
          (\<lambda>escaped. Inr (escape_atom escaped, position + 2))
      else Inr (Literal c, position + 1))"

text \<open>The optional quantifier after an atom (the second \<open>match\<close>): bounds and next position.\<close>

definition parse_quantifier :: "nat list \<Rightarrow> nat \<Rightarrow> regex_compile_error + nat \<times> nat option \<times> nat" where
  "parse_quantifier cs position =
     (if nth_opt cs position = Some (code (CHR ''*'')) then Inr (0, None, position + 1)
      else if nth_opt cs position = Some (code (CHR ''+'')) then Inr (1, None, position + 1)
      else if nth_opt cs position = Some (code (CHR ''?'')) then Inr (0, Some 1, position + 1)
      else if nth_opt cs position = Some (code (CHR ''{'')) then Inl RegexUnsupported
      else Inr (1, Some 1, position))"

text \<open>One successful round of the class loop, and the induction over the rounds.\<close>

lemma parse_class_loop_round:
  assumes "parse_class_loop cs stop position rs = Inr res"
  shows "res = (rs, position) \<and> \<not> (position < stop \<and> cs ! position \<noteq> code (CHR '']'')) \<or>
    (\<exists>lo hi position'. position < stop \<and> position < position' \<and> lo \<le> hi \<and>
       parse_class_loop cs stop position' (rs @ [(lo, hi)]) = Inr res)"
proof (cases "position < stop \<and> cs ! position \<noteq> code (CHR '']'')")
  case True
  with assms obtain first position1 where
    f: "parse_class_first cs position = Inr (first, position1)"
    by (subst (asm) parse_class_loop.simps) auto
  from f have lt: "position < position1" by (rule parse_class_first_progress)
  show ?thesis
  proof (cases "nth_opt cs position1 = Some (code (CHR ''-'')) \<and>
      nth_opt cs (position1 + 1) \<noteq> Some (code (CHR '']''))")
    case range: True
    with True f assms obtain last where "nth_opt cs (position1 + 1) = Some last" "\<not> last < first"
      "parse_class_loop cs stop (position1 + 2) (rs @ [(first, last)]) = Inr res"
      by (subst (asm) parse_class_loop.simps) (auto split: if_splits)
    with True lt show ?thesis
      by (intro disjI2 exI [of _ first] exI [of _ last] exI [of _ "position1 + 2"]) auto
  next
    case False
    with True f assms have "parse_class_loop cs stop position1 (rs @ [(first, first)]) = Inr res"
      by (subst (asm) parse_class_loop.simps) auto
    with True lt show ?thesis by blast
  qed
next
  case False
  with assms have "res = (rs, position)" by (subst (asm) parse_class_loop.simps) auto
  with False show ?thesis by blast
qed

lemma parse_class_loop_invariant:
  assumes "parse_class_loop cs stop position rs = Inr (rs', position')"
    and "P rs" and "\<And>xs lo hi. P xs \<Longrightarrow> lo \<le> hi \<Longrightarrow> P (xs @ [(lo, hi)])"
  shows "P rs' \<and> position \<le> position'"
  using assms(1,2)
proof (induction "stop - position" arbitrary: position rs rule: less_induct)
  case less
  from parse_class_loop_round [OF less.prems(1)] show ?case
  proof (elim disjE exE conjE)
    fix lo hi p
    assume r: "position < stop" "position < p" "lo \<le> hi"
      "parse_class_loop cs stop p (rs @ [(lo, hi)]) = Inr (rs', position')"
    have "stop - p < stop - position" using r by arith
    from less.hyps [OF this r(4)] assms(3) less.prems(2) r show ?thesis by force
  qed (use less.prems in auto)
qed

lemma parse_class_loop_le:
  "parse_class_loop cs stop position rs = Inr (rs', position') \<Longrightarrow> position \<le> position'"
  using parse_class_loop_invariant [where P = "\<lambda>_. True"] by blast

lemma parse_class_progress:
  "parse_class cs start stop = Inr (a, position) \<Longrightarrow> start < position"
  by (auto simp: parse_class_def Let_def split: if_splits dest!: parse_class_loop_le)

lemma parse_atom_progress:
  "parse_atom cs position stop = Inr (a, position') \<Longrightarrow> position < position'"
  by (auto simp: parse_atom_def Let_def split: if_splits dest!: parse_class_progress)

lemma parse_quantifier_le:
  "parse_quantifier cs position = Inr (mn, mx, position') \<Longrightarrow> position \<le> position'"
  by (auto simp: parse_quantifier_def split: if_splits)

function compile_loop ::
  "nat list \<Rightarrow> nat \<Rightarrow> nat \<Rightarrow> nat \<Rightarrow> regex_token list \<Rightarrow> regex_compile_error + regex_token list" where
  "compile_loop cs stop max_program position ts =
     (if position < stop then
        and_then (parse_atom cs position stop) (\<lambda>(a, position1).
          and_then (parse_quantifier cs position1) (\<lambda>(mn, mx, position2).
            let ts' = ts @ [\<lparr>atom = a, tok_min = mn, tok_max = mx\<rparr>] in
            if max_program < length ts' then Inl RegexTooLarge
            else compile_loop cs stop max_program position2 ts'))
      else Inr ts)"
  by pat_completeness auto
termination
  by (relation "measure (\<lambda>(cs, stop, mp, position, ts). stop - position)")
    (auto dest!: parse_atom_progress parse_quantifier_le)

declare compile_loop.simps [simp del]

text \<open>\<open>CompiledRegex::compile\<close>.\<close>

definition compile :: "nat list \<Rightarrow> nat \<Rightarrow> regex_compile_error + compiled_regex" where
  "compile cs max_program =
     (if cs = [] then Inl RegexInvalid
      else
        let start_anchor = (hd cs = code (CHR ''^''));
            position = (if start_anchor then 1 else 0);
            end_anchor = (last cs = code (CHR ''$'') \<and> \<not> is_escaped cs (length cs - 1));
            stop = (if end_anchor then length cs - 1 else length cs)
        in and_then (compile_loop cs stop max_program position []) (\<lambda>ts.
             if ts = [] then Inl RegexInvalid
             else Inr \<lparr>anchored_start = start_anchor, anchored_end = end_anchor, tokens = ts\<rparr>))"

section \<open>Matching\<close>

definition atom_matches :: "regex_atom \<Rightarrow> nat \<Rightarrow> bool" where
  "atom_matches a c =
     (case a of
        Literal expected \<Rightarrow> expected = c
      | Any \<Rightarrow> True
      | Class rs neg \<Rightarrow>
          (let matched = list_ex (\<lambda>(lo, hi). lo \<le> c \<and> c \<le> hi) rs in if neg then \<not> matched else matched))"

text \<open>The greedy scan of \<open>match_here\<close>: the positions reachable by repeating one token.\<close>

function extend_positions :: "regex_token \<Rightarrow> nat list \<Rightarrow> nat list \<Rightarrow> nat list" where
  "extend_positions tok txt positions =
     (if (case tok_max tok of None \<Rightarrow> True | Some mx \<Rightarrow> length positions - 1 < mx) \<and>
         positions \<noteq> [] \<and> last positions < length txt \<and> atom_matches (atom tok) (txt ! last positions)
      then extend_positions tok txt (positions @ [last positions + 1])
      else positions)"
  by pat_completeness auto
termination
  by (relation "measure (\<lambda>(tok, txt, positions). length txt - last positions)") auto

declare extend_positions.simps [simp del]

text \<open>A \<open>for\<close> loop whose body updates the memo table and whose first success returns.\<close>

fun first_success :: "('a \<Rightarrow> 's \<Rightarrow> bool \<times> 's) \<Rightarrow> 'a list \<Rightarrow> 's \<Rightarrow> bool \<times> 's" where
  "first_success f [] s = (False, s)"
| "first_success f (x # xs) s =
     (case f x s of (True, s') \<Rightarrow> (True, s') | (False, s') \<Rightarrow> first_success f xs s')"

text \<open>
  \<open>match_here\<close>: the slice \<open>tokens\<close> with its index is given as the remaining tokens together
  with the index, which keys the table of failed (token, character) pairs.
\<close>

primrec match_here ::
  "regex_token list \<Rightarrow> nat \<Rightarrow> nat \<Rightarrow> nat list \<Rightarrow> bool \<Rightarrow> (nat \<times> nat) set \<Rightarrow> bool \<times> (nat \<times> nat) set" where
  "match_here [] ti ci txt end_anchor failed = (\<not> end_anchor \<or> ci = length txt, failed)"
| "match_here (tok # ts) ti ci txt end_anchor failed =
     (if (ti, ci) \<in> failed then (False, failed)
      else
        let positions = extend_positions tok txt [ci];
            max_count = length positions - 1
        in case first_success (\<lambda>cnt failed'. match_here ts (Suc ti) (positions ! cnt) txt end_anchor failed')
                  (rev [tok_min tok ..< Suc max_count]) failed of
             (True, failed') \<Rightarrow> (True, failed')
           | (False, failed') \<Rightarrow> (False, insert (ti, ci) failed'))"

text \<open>\<open>CompiledRegex::is_match\<close>.\<close>

definition is_match :: "compiled_regex \<Rightarrow> nat list \<Rightarrow> bool" where
  "is_match re txt =
     list_ex (\<lambda>start. fst (match_here (tokens re) 0 start txt (anchored_end re) {}))
       (if anchored_start re then [0] else [0 ..< Suc (length txt)])"

section \<open>Reference semantics\<close>

text \<open>The strings one token may consume, and those a token sequence may consume.\<close>

definition token_lang :: "regex_token \<Rightarrow> nat list set" where
  "token_lang tok = {u. tok_min tok \<le> length u \<and>
     (\<forall>mx. tok_max tok = Some mx \<longrightarrow> length u \<le> mx) \<and> (\<forall>c \<in> set u. atom_matches (atom tok) c)}"

primrec regex_lang :: "regex_token list \<Rightarrow> nat list set" where
  "regex_lang [] = {[]}"
| "regex_lang (tok # ts) = {u @ v | u v. u \<in> token_lang tok \<and> v \<in> regex_lang ts}"

text \<open>A text is accepted when some factor of it, at the anchored ends if any, is in the language.\<close>

definition regex_accepts :: "compiled_regex \<Rightarrow> nat list \<Rightarrow> bool" where
  "regex_accepts re txt \<longleftrightarrow> (\<exists>pre mid post. txt = pre @ mid @ post \<and> mid \<in> regex_lang (tokens re) \<and>
     (anchored_start re \<longrightarrow> pre = []) \<and> (anchored_end re \<longrightarrow> post = []))"

definition suffix_ok :: "regex_token list \<Rightarrow> nat list \<Rightarrow> bool \<Rightarrow> nat \<Rightarrow> bool" where
  "suffix_ok ts txt end_anchor ci \<longleftrightarrow>
     (\<exists>u v. drop ci txt = u @ v \<and> u \<in> regex_lang ts \<and> (end_anchor \<longrightarrow> v = []))"

definition repeats :: "regex_token \<Rightarrow> nat list \<Rightarrow> nat \<Rightarrow> nat \<Rightarrow> bool" where
  "repeats tok txt ci n \<longleftrightarrow> ci + n \<le> length txt \<and>
     (\<forall>i < n. atom_matches (atom tok) (txt ! (ci + i))) \<and> (\<forall>mx. tok_max tok = Some mx \<longrightarrow> n \<le> mx)"

lemma repeats_mono: "repeats tok txt ci n \<Longrightarrow> m \<le> n \<Longrightarrow> repeats tok txt ci m"
  by (auto simp: repeats_def)

lemma repeats_Suc:
  "repeats tok txt ci (Suc n) \<longleftrightarrow> repeats tok txt ci n \<and> ci + n < length txt \<and>
     atom_matches (atom tok) (txt ! (ci + n)) \<and> (\<forall>mx. tok_max tok = Some mx \<longrightarrow> n < mx)"
  by (auto simp: repeats_def less_Suc_eq)

lemma extend_positions_interval:
  "repeats tok txt ci j \<Longrightarrow> \<exists>k \<ge> j. extend_positions tok txt [ci ..< Suc (ci + j)] = [ci ..< Suc (ci + k)] \<and>
     repeats tok txt ci k \<and> \<not> repeats tok txt ci (Suc k)"
proof (induction "length txt - (ci + j)" arbitrary: j rule: less_induct)
  case less
  have ls: "last [ci ..< Suc (ci + j)] = ci + j" by simp
  have guard: "(case tok_max tok of None \<Rightarrow> True | Some mx \<Rightarrow> length [ci ..< Suc (ci + j)] - 1 < mx) \<longleftrightarrow>
      (\<forall>mx. tok_max tok = Some mx \<longrightarrow> j < mx)" by (auto split: option.splits)
  show ?case
  proof (cases "repeats tok txt ci (Suc j)")
    case True
    then have lt: "length txt - (ci + Suc j) < length txt - (ci + j)" by (auto simp: repeats_Suc)
    have "extend_positions tok txt [ci ..< Suc (ci + j)] =
        extend_positions tok txt ([ci ..< Suc (ci + j)] @ [ci + j + 1])"
      using True by (subst extend_positions.simps) (simp only: ls guard, simp add: repeats_Suc)
    also have "[ci ..< Suc (ci + j)] @ [ci + j + 1] = [ci ..< Suc (ci + Suc j)]" by simp
    finally have "extend_positions tok txt [ci ..< Suc (ci + j)] =
        extend_positions tok txt [ci ..< Suc (ci + Suc j)]" .
    with less.hyps [OF lt True] show ?thesis by (metis Suc_leD)
  next
    case False
    with less.prems have "extend_positions tok txt [ci ..< Suc (ci + j)] = [ci ..< Suc (ci + j)]"
      by (subst extend_positions.simps) (simp only: ls guard, auto simp: repeats_Suc)
    with less.prems False show ?thesis by blast
  qed
qed

lemma extend_positions_counts:
  assumes "ci \<le> length txt"
  obtains k where "extend_positions tok txt [ci] = [ci ..< Suc (ci + k)]"
    and "\<And>n. n \<le> k \<longleftrightarrow> repeats tok txt ci n"
proof -
  have "repeats tok txt ci 0" using assms by (simp add: repeats_def)
  from extend_positions_interval [OF this] obtain k where
    k: "extend_positions tok txt [ci] = [ci ..< Suc (ci + k)]"
      "repeats tok txt ci k" "\<not> repeats tok txt ci (Suc k)" by auto
  have eq: "n \<le> k \<longleftrightarrow> repeats tok txt ci n" for n
  proof
    show "repeats tok txt ci n" if "n \<le> k" using repeats_mono k(2) that by blast
    show "n \<le> k" if "repeats tok txt ci n"
      using repeats_mono [where m = "Suc k", OF that] k(3) not_less_eq_eq by blast
  qed
  show ?thesis by (rule that [OF k(1) eq])
qed

lemma repeats_token_lang:
  assumes "ci \<le> length txt"
  shows "repeats tok txt ci n \<and> tok_min tok \<le> n \<longleftrightarrow>
    ci + n \<le> length txt \<and> take n (drop ci txt) \<in> token_lang tok"
proof -
  have "set (take n (drop ci txt)) = (\<lambda>i. txt ! (ci + i)) ` {..<n}" if "ci + n \<le> length txt"
    using that assms by (force simp: set_conv_nth image_iff)
  then show ?thesis by (auto simp: repeats_def token_lang_def)
qed

lemma suffix_ok_Cons:
  assumes "ci \<le> length txt"
  shows "suffix_ok (tok # ts) txt end_anchor ci \<longleftrightarrow>
    (\<exists>n. tok_min tok \<le> n \<and> repeats tok txt ci n \<and> suffix_ok ts txt end_anchor (ci + n))"
proof
  assume "suffix_ok (tok # ts) txt end_anchor ci"
  then obtain a b v where *: "drop ci txt = (a @ b) @ v" "a \<in> token_lang tok" "b \<in> regex_lang ts"
    "end_anchor \<longrightarrow> v = []" unfolding suffix_ok_def by force
  have "length (drop ci txt) = length a + length (b @ v)" using *(1) by simp
  then have len: "ci + length a \<le> length txt" using assms by simp
  have "take (length a) (drop ci txt) = a" using *(1) by simp
  with len *(2) assms have "repeats tok txt ci (length a) \<and> tok_min tok \<le> length a"
    by (simp add: repeats_token_lang)
  moreover have "drop (ci + length a) txt = b @ v"
    using *(1) by (metis add.commute append.assoc append_eq_conv_conj drop_drop)
  ultimately show "\<exists>n. tok_min tok \<le> n \<and> repeats tok txt ci n \<and> suffix_ok ts txt end_anchor (ci + n)"
    using *(3,4) by (auto simp: suffix_ok_def)
next
  assume "\<exists>n. tok_min tok \<le> n \<and> repeats tok txt ci n \<and> suffix_ok ts txt end_anchor (ci + n)"
  then obtain n b v where n: "repeats tok txt ci n \<and> tok_min tok \<le> n"
    and *: "drop (ci + n) txt = b @ v" "b \<in> regex_lang ts" "end_anchor \<longrightarrow> v = []"
    by (auto simp: suffix_ok_def)
  have "drop ci txt = take n (drop ci txt) @ b @ v"
    using *(1) by (metis add.commute append_take_drop_id drop_drop)
  moreover from n assms have "take n (drop ci txt) \<in> token_lang tok" by (simp add: repeats_token_lang)
  ultimately show "suffix_ok (tok # ts) txt end_anchor ci"
    using *(2,3) unfolding suffix_ok_def
    by (intro exI [of _ "take n (drop ci txt) @ b"] exI [of _ v]) auto
qed

section \<open>The matcher decides the reference semantics\<close>

text \<open>The loop over the counts, for any invariant of the memo table.\<close>

lemma first_success_correct:
  assumes "\<And>x s b s'. x \<in> set xs \<Longrightarrow> I s \<Longrightarrow> f x s = (b, s') \<Longrightarrow> (b \<longleftrightarrow> P x) \<and> I s'"
    and "I s" and "first_success f xs s = (b, s')"
  shows "(b \<longleftrightarrow> (\<exists>x \<in> set xs. P x)) \<and> I s'"
  using assms
proof (induction xs arbitrary: s)
  case Nil
  then show ?case by simp
next
  case (Cons x xs)
  obtain b1 s1 where fx: "f x s = (b1, s1)" by (cases "f x s")
  with Cons.prems(1) [of x s b1 s1] Cons.prems(2) have b1: "(b1 \<longleftrightarrow> P x) \<and> I s1" by simp
  show ?case
  proof (cases b1)
    case True
    with fx b1 Cons.prems(3) show ?thesis by auto
  next
    case False
    with fx Cons.prems(3) have "first_success f xs s1 = (b, s')" by simp
    moreover have "(b \<longleftrightarrow> P y) \<and> I s'" if "y \<in> set xs" "I s" "f y s = (b, s')" for y s b s'
      using Cons.prems(1) [of y s b s'] that by simp
    ultimately have "(b \<longleftrightarrow> (\<exists>x \<in> set xs. P x)) \<and> I s'" using Cons.IH b1 by blast
    with False b1 show ?thesis by auto
  qed
qed

text \<open>Every entry of the memo table is a position from which the rest really fails.\<close>

definition memo_ok :: "regex_token list \<Rightarrow> nat list \<Rightarrow> bool \<Rightarrow> (nat \<times> nat) set \<Rightarrow> bool" where
  "memo_ok all txt end_anchor failed \<longleftrightarrow>
     (\<forall>(i, c) \<in> failed. \<not> suffix_ok (drop i all) txt end_anchor c)"

lemma match_here_correct:
  assumes "memo_ok all txt end_anchor failed" and "drop ti all = ts" and "ci \<le> length txt"
    and "match_here ts ti ci txt end_anchor failed = (b, failed')"
  shows "(b \<longleftrightarrow> suffix_ok ts txt end_anchor ci) \<and> memo_ok all txt end_anchor failed'"
  using assms
proof (induction ts arbitrary: ti ci failed b failed')
  case Nil
  then show ?case by (auto simp: suffix_ok_def)
next
  case (Cons tok ts)
  note memo = Cons.prems(1) and rest = Cons.prems(2) and ci = Cons.prems(3)
  show ?case
  proof (cases "(ti, ci) \<in> failed")
    case True
    with memo rest have "\<not> suffix_ok (tok # ts) txt end_anchor ci" by (auto simp: memo_ok_def)
    with True Cons.prems(4) memo show ?thesis by simp
  next
    case False
    obtain k where pos: "extend_positions tok txt [ci] = [ci ..< Suc (ci + k)]"
      and k: "\<And>n. n \<le> k \<longleftrightarrow> repeats tok txt ci n"
      using extend_positions_counts [OF ci] by blast
    let ?f = "\<lambda>cnt failed'. match_here ts (Suc ti) ([ci ..< Suc (ci + k)] ! cnt) txt end_anchor failed'"
    let ?counts = "rev [tok_min tok ..< Suc k]"
    obtain b1 f1 where run: "first_success ?f ?counts failed = (b1, f1)"
      by (cases "first_success ?f ?counts failed")
    have tl: "drop (Suc ti) all = ts" using rest by (metis drop_Suc list.sel(3) tl_drop)
    have step: "(b \<longleftrightarrow> suffix_ok ts txt end_anchor (ci + n)) \<and> memo_ok all txt end_anchor fb"
      if "n \<in> set ?counts" "memo_ok all txt end_anchor fa" "?f n fa = (b, fb)" for n fa b fb
    proof -
      from that(1) have "n \<le> k" by auto
      with k have "ci + n \<le> length txt" by (simp add: repeats_def)
      moreover from \<open>n \<le> k\<close> have "[ci ..< Suc (ci + k)] ! n = ci + n" by (simp del: upt_Suc)
      ultimately show ?thesis using Cons.IH [OF that(2) tl] that(3) by simp
    qed
    have res: "(b1 \<longleftrightarrow> (\<exists>n \<in> set ?counts. suffix_ok ts txt end_anchor (ci + n))) \<and>
        memo_ok all txt end_anchor f1"
      by (rule first_success_correct [where f = ?f and I = "memo_ok all txt end_anchor"])
        (use step memo run in blast)+
    have "(\<exists>n \<in> set ?counts. suffix_ok ts txt end_anchor (ci + n)) \<longleftrightarrow>
        suffix_ok (tok # ts) txt end_anchor ci"
      by (subst suffix_ok_Cons [OF ci]) (auto simp: k [symmetric] less_Suc_eq_le simp del: upt_Suc)
    with res have eq: "b1 \<longleftrightarrow> suffix_ok (tok # ts) txt end_anchor ci" by simp
    from False run have "match_here (tok # ts) ti ci txt end_anchor failed =
        (if b1 then (True, f1) else (False, insert (ti, ci) f1))"
      by (simp add: pos Let_def del: upt_Suc split: bool.split)
    with Cons.prems(4) eq res rest show ?thesis
      by (auto simp: memo_ok_def split: if_splits)
  qed
qed

lemma match_here_suffix_ok:
  assumes "ci \<le> length txt"
  shows "fst (match_here ts 0 ci txt end_anchor {}) \<longleftrightarrow> suffix_ok ts txt end_anchor ci"
proof -
  have "memo_ok ts txt end_anchor {}" by (simp add: memo_ok_def)
  from match_here_correct [OF this _ assms] show ?thesis
    by (metis drop0 prod.collapse)
qed

lemma is_match_iff_accepts: "is_match re txt \<longleftrightarrow> regex_accepts re txt"
proof -
  have any: "(\<exists>ci \<le> length txt. suffix_ok ts txt ea ci) \<longleftrightarrow>
      (\<exists>pre mid post. txt = pre @ mid @ post \<and> mid \<in> regex_lang ts \<and> (ea \<longrightarrow> post = []))" for ts ea
  proof
    assume "\<exists>ci \<le> length txt. suffix_ok ts txt ea ci"
    then obtain ci u v where "drop ci txt = u @ v" "u \<in> regex_lang ts" "ea \<longrightarrow> v = []"
      by (auto simp: suffix_ok_def)
    then show "\<exists>pre mid post. txt = pre @ mid @ post \<and> mid \<in> regex_lang ts \<and> (ea \<longrightarrow> post = [])"
      by (metis append_take_drop_id)
  next
    assume "\<exists>pre mid post. txt = pre @ mid @ post \<and> mid \<in> regex_lang ts \<and> (ea \<longrightarrow> post = [])"
    then obtain pre mid post where *: "txt = pre @ mid @ post" "mid \<in> regex_lang ts" "ea \<longrightarrow> post = []"
      by blast
    then have "length pre \<le> length txt" "drop (length pre) txt = mid @ post" by auto
    with *(2,3) show "\<exists>ci \<le> length txt. suffix_ok ts txt ea ci" unfolding suffix_ok_def by blast
  qed
  have zero: "suffix_ok ts txt ea 0 \<longleftrightarrow>
      (\<exists>mid post. txt = mid @ post \<and> mid \<in> regex_lang ts \<and> (ea \<longrightarrow> post = []))" for ts ea
    by (auto simp: suffix_ok_def)
  show ?thesis
  proof (cases "anchored_start re")
    case True
    then show ?thesis
      by (simp add: is_match_def regex_accepts_def match_here_suffix_ok zero)
  next
    case False
    have "is_match re txt \<longleftrightarrow> (\<exists>ci \<le> length txt. suffix_ok (tokens re) txt (anchored_end re) ci)"
      using False
      by (auto simp: is_match_def list_ex_iff match_here_suffix_ok less_Suc_eq_le simp del: upt_Suc)
    with False show ?thesis by (simp add: any regex_accepts_def)
  qed
qed

section \<open>What the compiler produces\<close>

fun atom_ok :: "regex_atom \<Rightarrow> bool" where
  "atom_ok (Class rs neg) \<longleftrightarrow> rs \<noteq> [] \<and> list_all (\<lambda>(lo, hi). lo \<le> hi) rs"
| "atom_ok _ \<longleftrightarrow> True"

definition token_ok :: "regex_token \<Rightarrow> bool" where
  "token_ok tok \<longleftrightarrow> atom_ok (atom tok) \<and> tok_min tok \<le> 1 \<and> (tok_max tok = None \<or> tok_max tok = Some 1)"

definition regex_ok :: "nat \<Rightarrow> compiled_regex \<Rightarrow> bool" where
  "regex_ok max_program re \<longleftrightarrow>
     tokens re \<noteq> [] \<and> length (tokens re) \<le> max_program \<and> list_all token_ok (tokens re)"

lemma parse_class_ok: "parse_class cs start stop = Inr (a, position) \<Longrightarrow> atom_ok a"
  by (auto simp: parse_class_def Let_def split: if_splits
      dest!: parse_class_loop_invariant [where P = "list_all (\<lambda>(lo, hi). lo \<le> hi)"])

lemma parse_atom_ok: "parse_atom cs position stop = Inr (a, position') \<Longrightarrow> atom_ok a"
  by (auto simp: parse_atom_def escape_atom_def Let_def split: if_splits dest!: parse_class_ok)

lemma parse_quantifier_ok:
  "parse_quantifier cs position = Inr (mn, mx, position') \<Longrightarrow> mn \<le> 1 \<and> (mx = None \<or> mx = Some 1)"
  by (auto simp: parse_quantifier_def split: if_splits)

lemma compile_loop_ok:
  "compile_loop cs stop mp position ts = Inr ts' \<Longrightarrow> list_all token_ok ts \<Longrightarrow> length ts \<le> mp \<Longrightarrow>
     list_all token_ok ts' \<and> length ts' \<le> mp"
proof (induction "stop - position" arbitrary: position ts rule: less_induct)
  case less
  show ?case
  proof (cases "position < stop")
    case True
    with less.prems(1) obtain a p1 mn mx p2 where
      a: "parse_atom cs position stop = Inr (a, p1)"
      and q: "parse_quantifier cs p1 = Inr (mn, mx, p2)"
      and len: "\<not> mp < length (ts @ [\<lparr>atom = a, tok_min = mn, tok_max = mx\<rparr>])"
      and rec: "compile_loop cs stop mp p2 (ts @ [\<lparr>atom = a, tok_min = mn, tok_max = mx\<rparr>]) = Inr ts'"
      by (subst (asm) compile_loop.simps) (auto simp: Let_def split: if_splits)
    have "stop - p2 < stop - position"
      using True parse_atom_progress [OF a] parse_quantifier_le [OF q] by arith
    from less.hyps [OF this rec] len less.prems(2) parse_atom_ok [OF a] parse_quantifier_ok [OF q]
    show ?thesis by (simp add: token_ok_def)
  next
    case False
    with less.prems show ?thesis by (subst (asm) compile_loop.simps) simp
  qed
qed

lemma compile_ok: "compile cs max_program = Inr re \<Longrightarrow> regex_ok max_program re"
  by (auto simp: compile_def regex_ok_def Let_def split: if_splits dest!: compile_loop_ok)

section \<open>Quoted literals\<close>

text \<open>
  A literal is written as a pattern by escaping every character that is not an ASCII letter or
  digit, between optional anchors. The pattern compiles and finds exactly that literal.
\<close>

definition alnum :: "nat \<Rightarrow> bool" where
  "alnum c \<longleftrightarrow> (48 \<le> c \<and> c \<le> 57) \<or> (65 \<le> c \<and> c \<le> 90) \<or> (97 \<le> c \<and> c \<le> 122)"

definition quote_char :: "nat \<Rightarrow> nat list" where
  "quote_char c = (if alnum c then [c] else [code (CHR 0x5C), c])"

definition quote :: "nat list \<Rightarrow> nat list" where
  "quote s = concat (map quote_char s)"

definition quote_pattern :: "bool \<Rightarrow> nat list \<Rightarrow> bool \<Rightarrow> nat list" where
  "quote_pattern at_start s at_end =
     (if at_start then [code (CHR ''^'')] else []) @ quote s @ (if at_end then [code (CHR ''$'')] else [])"

definition lit_token :: "nat \<Rightarrow> regex_token" where
  "lit_token c = \<lparr>atom = Literal c, tok_min = 1, tok_max = Some 1\<rparr>"

lemma quote_simps [simp]:
  "quote [] = []" "quote (c # s) = quote_char c @ quote s" "quote (s @ t) = quote s @ quote t"
  by (simp_all add: quote_def)

lemma quote_char_nonempty [simp]: "quote_char c \<noteq> []"
  by (simp add: quote_char_def)

lemma quote_eq_Nil [simp]: "quote s = [] \<longleftrightarrow> s = []"
  by (cases s) auto

lemma hd_quote_char: "hd (quote_char c) = code (CHR 0x5C) \<or> alnum (hd (quote_char c))"
  by (simp add: quote_char_def)

lemma token_lang_lit: "token_lang (lit_token c) = {[c]}"
proof -
  have "u \<in> token_lang (lit_token c) \<longleftrightarrow> length u = Suc 0 \<and> (\<forall>d \<in> set u. c = d)" for u
    by (auto simp: token_lang_def lit_token_def atom_matches_def)
  then have "u \<in> token_lang (lit_token c) \<longleftrightarrow> u = [c]" for u
    by (auto simp: length_Suc_conv)
  then show ?thesis by blast
qed

lemma regex_lang_lits: "regex_lang (map lit_token s) = {s}"
  by (induction s) (auto simp: token_lang_lit)

lemma slash_count_quote:
  assumes "pre = [] \<or> last pre \<noteq> code (CHR 0x5C)"
  shows "even (slash_count (pre @ quote s @ rest) (length pre + length (quote s)))"
proof (induction s arbitrary: rest rule: rev_induct)
  case Nil
  then show ?case using assms by (cases pre rule: rev_cases) (auto simp: nth_append)
next
  case (snoc c s)
  show ?case
  proof (cases "c = code (CHR 0x5C)")
    case True
    then have q: "quote_char c = [code (CHR 0x5C), code (CHR 0x5C)]"
      by (simp add: quote_char_def alnum_def)
    let ?n = "length pre + length (quote s)"
    have "(pre @ quote s @ quote_char c @ rest) ! ?n = code (CHR 0x5C)"
      "(pre @ quote s @ quote_char c @ rest) ! Suc ?n = code (CHR 0x5C)"
      by (simp_all add: q nth_append)
    then have "slash_count (pre @ quote (s @ [c]) @ rest) (length pre + length (quote (s @ [c]))) =
        Suc (Suc (slash_count (pre @ quote s @ quote_char c @ rest) ?n))"
      by (simp add: q)
    then show ?thesis using snoc.IH [of "quote_char c @ rest"] by simp
  next
    case False
    let ?n = "length pre + length (quote s @ quote_char c)"
    have n: "?n = Suc (?n - 1)" by (simp add: quote_char_def)
    have "(pre @ (quote s @ quote_char c) @ rest) ! (?n - 1) = last (quote_char c)"
      by (simp add: nth_append last_conv_nth quote_char_def)
    also have "\<dots> \<noteq> code (CHR 0x5C)" using False by (simp add: quote_char_def)
    finally have "slash_count (pre @ quote (s @ [c]) @ rest) ?n = 0"
      by (subst n, subst slash_count.simps) simp
    then show ?thesis by simp
  qed
qed

lemma parse_quantifier_plain:
  assumes "r = [] \<or> hd r = code (CHR 0x5C) \<or> hd r = code (CHR ''$'') \<or> alnum (hd r)"
  shows "parse_quantifier (pre @ r) (length pre) = Inr (1, Some 1, length pre)"
  using assms by (cases r) (auto simp: parse_quantifier_def nth_opt_def alnum_def)

lemma parse_atom_quoted:
  "parse_atom (pre @ quote_char c @ r) (length pre) stop =
     Inr (Literal c, length pre + length (quote_char c))"
proof (cases "alnum c")
  case True
  then show ?thesis by (auto simp: quote_char_def parse_atom_def alnum_def nth_append)
next
  case False
  then have "escape_atom c = Literal c" by (auto simp: escape_atom_def alnum_def)
  with False show ?thesis by (simp add: quote_char_def parse_atom_def nth_append nth_opt_def)
qed

lemma hd_quote_append:
  assumes "tail = [] \<or> tail = [code (CHR ''$'')]"
  shows "quote s @ tail = [] \<or> hd (quote s @ tail) = code (CHR 0x5C) \<or>
    hd (quote s @ tail) = code (CHR ''$'') \<or> alnum (hd (quote s @ tail))"
  using assms hd_quote_char by (cases s) auto

lemma compile_loop_quote:
  assumes "tail = [] \<or> tail = [code (CHR ''$'')]"
  shows "length ts + length s \<le> mp \<Longrightarrow>
    compile_loop (pre @ quote s @ tail) (length pre + length (quote s)) mp (length pre) ts =
      Inr (ts @ map lit_token s)"
proof (induction s arbitrary: pre ts)
  case Nil
  then show ?case by (subst compile_loop.simps) simp
next
  case (Cons c s)
  let ?cs = "pre @ quote (c # s) @ tail"
  let ?stop = "length pre + length (quote (c # s))"
  have atm: "parse_atom ?cs (length pre) ?stop = Inr (Literal c, length pre + length (quote_char c))"
    using parse_atom_quoted [of pre c "quote s @ tail"] by simp
  have qnt: "parse_quantifier ?cs (length pre + length (quote_char c)) =
      Inr (1, Some 1, length pre + length (quote_char c))"
    using parse_quantifier_plain [OF hd_quote_append [OF assms], of "pre @ quote_char c" s] by simp
  have "compile_loop ?cs ?stop mp (length pre) ts =
      compile_loop ?cs ?stop mp (length pre + length (quote_char c)) (ts @ [lit_token c])"
    using Cons.prems by (subst compile_loop.simps) (simp add: atm [simplified] qnt [simplified] lit_token_def)
  also have "\<dots> = Inr (ts @ map lit_token (c # s))"
    using Cons.IH [of "ts @ [lit_token c]" "pre @ quote_char c"] Cons.prems by (simp add: add.assoc)
  finally show ?case .
qed

lemma compile_quote_pattern:
  assumes "s \<noteq> []" and "length s \<le> mp"
  shows "compile (quote_pattern at_start s at_end) mp =
    Inr \<lparr>anchored_start = at_start, anchored_end = at_end, tokens = map lit_token s\<rparr>"
proof -
  let ?pre = "if at_start then [code (CHR ''^'')] else []"
  let ?tail = "if at_end then [code (CHR ''$'')] else []"
  let ?cs = "quote_pattern at_start s at_end"
  have cs: "?cs = ?pre @ quote s @ ?tail" by (simp add: quote_pattern_def)
  have hd: "hd ?cs = code (CHR ''^'') \<longleftrightarrow> at_start"
  proof -
    obtain c0 s0 where "s = c0 # s0" using assms(1) by (cases s) auto
    moreover have "hd (quote_char c0) \<noteq> code (CHR ''^'')"
      using hd_quote_char [of c0] by (auto simp: alnum_def)
    ultimately show ?thesis by (simp add: quote_pattern_def)
  qed
  obtain s' c where s: "s = s' @ [c]" using assms(1) by (cases s rule: rev_cases) auto
  have pre_ok: "?pre = [] \<or> last ?pre \<noteq> code (CHR 0x5C)" by simp
  have fin: "last ?cs = code (CHR ''$'') \<and> \<not> is_escaped ?cs (length ?cs - 1) \<longleftrightarrow> at_end"
  proof (cases at_end)
    case True
    have "length ?cs - 1 = length ?pre + length (quote s)" by (simp add: quote_pattern_def True)
    with slash_count_quote [OF pre_ok, of s ?tail] have "\<not> is_escaped ?cs (length ?cs - 1)"
      by (simp add: is_escaped_def quote_pattern_def)
    with True show ?thesis by (simp add: quote_pattern_def)
  next
    case False
    have "is_escaped ?cs (length ?cs - 1)" if "last ?cs = code (CHR ''$'')"
    proof -
      from that False have c: "quote_char c = [code (CHR 0x5C), code (CHR ''$'')]"
        by (simp add: quote_pattern_def s quote_char_def split: if_splits) (simp add: alnum_def)
      let ?n = "length ?pre + length (quote s')"
      have len: "length ?cs - 1 = Suc ?n" by (simp add: quote_pattern_def s c False)
      have "?cs ! ?n = code (CHR 0x5C)" by (simp add: quote_pattern_def s c False nth_append)
      moreover from slash_count_quote [OF pre_ok, of s' "quote_char c"]
      have "even (slash_count ?cs ?n)" by (simp add: quote_pattern_def s False)
      ultimately have "odd (slash_count ?cs (Suc ?n))" by simp
      then show ?thesis unfolding is_escaped_def len by presburger
    qed
    with False show ?thesis by blast
  qed
  have tail: "?tail = [] \<or> ?tail = [code (CHR ''$'')]" by simp
  have loop: "compile_loop ?cs (length ?pre + length (quote s)) mp (length ?pre) [] = Inr (map lit_token s)"
    using compile_loop_quote [OF tail, of "[]" s mp ?pre] assms(2) by (simp only: cs) simp
  have ends: "(if at_end then length ?cs - 1 else length ?cs) = length ?pre + length (quote s)"
    "(if at_start then 1 else 0) = length ?pre" by (simp_all add: quote_pattern_def)
  have "?cs \<noteq> []" using assms(1) by (simp add: quote_pattern_def)
  with assms(1) show ?thesis unfolding compile_def Let_def hd fin ends loop by simp
qed

section \<open>Properties\<close>

text \<open>
  Property C2: the backtracking matcher with its failure memo decides the language of the
  compiled expression: it accepts a text exactly when the text splits into a prefix, a word of the
  token language and a suffix, the prefix or suffix being empty where the expression is anchored.
\<close>

theorem is_match_decides_language: "is_match re txt \<longleftrightarrow> regex_accepts re txt"
  by (rule is_match_iff_accepts)

text \<open>
  A pattern that compiles gives at least one and at most \<open>max_program\<close> tokens,
  each with a repetition range the quantifiers of the grammar can produce and class ranges that are
  not reversed.
\<close>

lemma compile_bounded: "compile cs mp = Inr re \<Longrightarrow> regex_ok mp re"
  by (rule compile_ok)

lemma compile_bounded_witness:
  "regex_ok 8 \<lparr>anchored_start = True, anchored_end = False, tokens = map lit_token [97, 98]\<rparr>"
  using compile_bounded [OF compile_quote_pattern [of "[97, 98]" 8 True False]] by simp

text \<open>
  A pattern that quotes a literal, with or without anchors, compiles, and matches
  exactly the texts that hold the literal, at the start or at the end where it is anchored.
\<close>

lemma quoted_literal_matches:
  assumes "s \<noteq> []" and "length s \<le> mp"
  shows "\<exists>re. compile (quote_pattern at_start s at_end) mp = Inr re \<and>
    (\<forall>txt. is_match re txt \<longleftrightarrow>
       (\<exists>before after. txt = before @ s @ after \<and> (at_start \<longrightarrow> before = []) \<and> (at_end \<longrightarrow> after = [])))"
  by (simp add: compile_quote_pattern [OF assms] is_match_iff_accepts regex_accepts_def regex_lang_lits)

lemma quoted_literal_matches_witness:
  "\<exists>re. compile (quote_pattern True [46, 97] False) 4 = Inr re \<and>
    (\<forall>txt. is_match re txt \<longleftrightarrow>
       (\<exists>before after. txt = before @ [46, 97] @ after \<and> (True \<longrightarrow> before = []) \<and> (False \<longrightarrow> after = [])))"
  by (rule quoted_literal_matches) simp_all

end
