(* ===== verification/Rule_Types.thy ===== *)
theory Rule_Types
  imports Rule_Regex
begin

text \<open>
  The limits and errors of the rule-set parsers (\<open>RuleLimits\<close>, \<open>RuleParseError\<close> of
  \<open>backend/src/resource/rules.rs\<close>) and the selector normalisation they share with the
  configuration (\<open>normalize_rule_set_selector\<close> of \<open>backend/src/config/model.rs\<close>).
\<close>

datatype rule_set_format = FormatJson | FormatClash | FormatDat

record rule_limits =
  max_input_bytes :: nat
  max_rules :: nat
  max_rule_bytes :: nat
  max_regex_bytes :: nat
  max_regex_program :: nat
  max_selectors :: nat
  max_selector_bytes :: nat

definition rule_limits_default :: rule_limits where
  "rule_limits_default = \<lparr>max_input_bytes = 16 * 1024 * 1024, max_rules = 131072,
     max_rule_bytes = 4 * 1024, max_regex_bytes = 2 * 1024, max_regex_program = 4096,
     max_selectors = 4096, max_selector_bytes = 128\<rparr>"

definition with_max_input_bytes :: "rule_limits \<Rightarrow> nat \<Rightarrow> rule_limits" where
  "with_max_input_bytes l n = l\<lparr>max_input_bytes := n\<rparr>"

definition with_max_rules :: "rule_limits \<Rightarrow> nat \<Rightarrow> rule_limits" where
  "with_max_rules l n = l\<lparr>max_rules := n\<rparr>"

datatype rule_parse_error =
    UnsupportedFormat
  | InputTooLarge
  | TooManyRules
  | RuleTooLong nat
  | InvalidJson
  | MissingRuleField
  | UnsupportedSingBoxVersion
  | EmptyRule nat
  | InvalidFieldCount nat
  | UnknownRuleType nat
  | InvalidDomain nat
  | InvalidKeyword
  | InvalidRegex nat
  | UnsupportedRegex nat
  | RegexProgramTooLarge nat
  | InvalidDat
  | TooManySelectors
  | InvalidDatSelector
  | DatSelectorTooLong
  | UnsupportedDatDomainType

text \<open>\<open>RegexCompileError::with_line\<close>.\<close>

fun with_line :: "regex_compile_error \<Rightarrow> nat \<Rightarrow> rule_parse_error" where
  "with_line RegexInvalid line = InvalidRegex line"
| "with_line RegexUnsupported line = UnsupportedRegex line"
| "with_line RegexTooLarge line = RegexProgramTooLarge line"

definition normalize_rule_set_selector :: "string \<Rightarrow> nat \<Rightarrow> string option" where
  "normalize_rule_set_selector value max_bytes =
     (if value = [] \<or> max_bytes < length value \<or> \<not> is_ascii value then None
      else if list_all (\<lambda>c. is_ascii_graphic c \<and> c \<noteq> CHR '':'' \<and> c \<noteq> CHR ''@'') value
      then Some (to_ascii_lowercase value)
      else None)"

definition normalize_dat_selector :: "string \<Rightarrow> rule_limits \<Rightarrow> rule_parse_error + string" where
  "normalize_dat_selector selector limits =
     (if selector = [] then Inl InvalidDatSelector
      else if max_selector_bytes limits < length selector then Inl DatSelectorTooLong
      else ok_or InvalidDatSelector (normalize_rule_set_selector selector (max_selector_bytes limits)))"

lemma code_ascii_lower_char:
  "code (ascii_lower_char c) = (if is_ascii_upper c then code c + 32 else code c)"
  by (simp add: ascii_lower_char_def is_ascii_upper_def)

lemma is_ascii_graphic_lower:
  "is_ascii_graphic c \<Longrightarrow> is_ascii_graphic (ascii_lower_char c)"
  unfolding is_ascii_graphic_def code_ascii_lower_char is_ascii_upper_def by simp

lemma ascii_lower_char_eq_nonalpha:
  assumes "\<not> is_ascii_lower d" and "ascii_lower_char c = d"
  shows "c = d"
proof -
  have "code d = (if is_ascii_upper c then code c + 32 else code c)"
    using assms(2) code_ascii_lower_char [of c] by simp
  with assms(1) have "\<not> is_ascii_upper c"
    by (simp add: is_ascii_upper_def is_ascii_lower_def split: if_splits)
  with assms(2) show ?thesis by (simp add: ascii_lower_char_def)
qed

text \<open>Normalised selectors are fixed points of the normalisation.\<close>

lemma normalize_rule_set_selector_idem:
  assumes "normalize_rule_set_selector v n = Some s"
  shows "normalize_rule_set_selector s n = Some s"
proof -
  from assms have v: "v \<noteq> []" "length v \<le> n" "s = to_ascii_lowercase v"
    "\<forall>c \<in> set v. is_ascii_graphic c \<and> c \<noteq> CHR '':'' \<and> c \<noteq> CHR ''@''"
    by (auto simp: normalize_rule_set_selector_def list_all_iff split: if_splits)
  have "is_ascii_graphic (ascii_lower_char c) \<and> ascii_lower_char c \<noteq> CHR '':'' \<and>
      ascii_lower_char c \<noteq> CHR ''@''" if "c \<in> set v" for c
    using v(4) that is_ascii_graphic_lower [of c]
      ascii_lower_char_eq_nonalpha [of "CHR '':''" c] ascii_lower_char_eq_nonalpha [of "CHR ''@''" c]
    by (force simp: is_ascii_lower_def)
  then have all: "list_all (\<lambda>c. is_ascii_graphic c \<and> c \<noteq> CHR '':'' \<and> c \<noteq> CHR ''@'') s"
    by (auto simp: v(3) to_ascii_lowercase_def list_all_iff)
  then have "is_ascii s"
    by (simp add: is_ascii_def list_all_iff is_ascii_graphic_def) fastforce
  moreover have "s \<noteq> []" "length s \<le> n" "to_ascii_lowercase s = s"
    using v(1-3) by (simp_all add: to_ascii_lowercase_def)
  ultimately show ?thesis using all by (simp add: normalize_rule_set_selector_def)
qed

end
