(* ===== verification/Config_Types.thy ===== *)
theory Config_Types
  imports Net_Address Rule_Types
begin

text \<open>
  The resolved configuration that the policy components read (\<open>backend/src/config/resolve.rs\<close>):
  identifiers, value sources, ECS, cache and TTL overrides, listeners, strategies, clients,
  upstreams, hosts resources and rule sets. IP networks are a type parameter \<open>'net\<close> (the \<open>ipnet\<close> crate); a \<open>Duration\<close> is its number
  of nanoseconds; a path and a URL are their text.
\<close>

type_synonym duration = nat

datatype config_id = ConfigId (id_str: string)

datatype config_id_error = IdLength | IdCharacter

definition id_char :: "char \<Rightarrow> bool" where
  "id_char c \<longleftrightarrow> is_ascii_alphanumeric c \<or> c = CHR ''-'' \<or> c = CHR ''_'' \<or> c = CHR ''.'' \<or> c = CHR ''!''"

definition config_id_new :: "string \<Rightarrow> config_id_error + config_id" where
  "config_id_new value =
     (if value = [] \<or> 128 < length value then Inl IdLength
      else if \<not> list_all id_char value then Inl IdCharacter
      else Inr (ConfigId value))"

datatype value_source = SourceDefault | SourceGlobal | SourceUpstream | SourceClient | SourceStrategy | SourceRule

datatype ecs_mode = EcsDisabled | EcsClient | EcsCustom

record 'net resolved_ecs =
  ecs_mode :: ecs_mode
  ecs_custom_ip :: "'net option"
  ecs_source :: value_source

record resolved_optimistic =
  opt_enabled :: bool
  opt_answer_ttl :: duration
  opt_max_age :: duration
  opt_negative_max_age :: duration

record resolved_global_cache =
  gc_enabled :: bool
  gc_memory_max_size_bytes :: nat
  gc_failure_ttl :: duration
  gc_negative_ttl_max :: duration
  gc_optimistic :: resolved_optimistic
  gc_persistence_enabled :: bool
  gc_persistence_path :: string
  gc_snapshot_interval :: duration

record resolved_cache_override =
  co_enabled :: bool
  co_optimistic :: "resolved_optimistic option"
  co_source :: value_source

record resolved_ttl_override =
  ttl_enabled :: bool
  ttl_min :: "duration option"
  ttl_max :: "duration option"
  ttl_source :: value_source

record 'net resolved_doh_route =
  dr_path :: string
  dr_strategy :: config_id
  dr_ecs :: "'net resolved_ecs option"

datatype tls_mode = TlsTerminate | TlsExternal

datatype client_ip_source = IpPeer | IpForwardedHeader | IpProxyProtocol

datatype forwarded_header = XForwardedFor | XRealIp | Forwarded

datatype forwarded_disposition = DispositionReject | DispositionUsePeer

record doh_binding_ref =
  bind_listener_id :: string
  bind_endpoint_id :: string

record 'net resolved_client_ip =
  cip_source :: client_ip_source
  cip_header :: "forwarded_header option"
  cip_trusted_proxies :: "'net list option"
  cip_on_missing :: "forwarded_disposition option"
  cip_on_invalid :: "forwarded_disposition option"

record 'net resolved_doh_endpoint =
  ep_id :: config_id
  ep_binding :: doh_binding_ref
  ep_addresses :: "ip_addr list"
  ep_port :: "16 word"
  ep_tls_mode :: tls_mode
  ep_certificate_file :: "string option"
  ep_private_key_file :: "string option"
  ep_client_ip :: "'net resolved_client_ip"

datatype 'net resolved_listener =
    ListenerUdp config_id "ip_addr list" "16 word" config_id "config_id option"
  | ListenerTcp config_id "ip_addr list" "16 word" config_id "config_id option"
  | ListenerDoh config_id "'net resolved_doh_route list" "'net resolved_doh_endpoint list"

record resolved_rule_set_ref =
  ref_resource :: config_id
  ref_selector :: "string option"

record 'net resolved_strategy_rule =
  sr_rule_set :: "resolved_rule_set_ref option"
  sr_hosts :: "config_id option"
  sr_upstream :: "config_id option"
  sr_ecs :: "'net resolved_ecs"

record 'net resolved_strategy =
  st_id :: config_id
  st_rules :: "'net resolved_strategy_rule list"
  st_default_upstream :: config_id
  st_cache :: "resolved_cache_override option"
  st_ttl_override :: resolved_ttl_override
  st_ecs :: "'net resolved_ecs"

record 'net resolved_client =
  cl_name :: config_id
  cl_client_ids :: "string list"
  cl_ips :: "'net list"
  cl_strategy :: "config_id option"
  cl_cache :: "resolved_cache_override option"
  cl_ttl_override :: resolved_ttl_override
  cl_ecs :: "'net resolved_ecs"

record resolved_upstream_member =
  member_name :: config_id
  member_weight :: "32 word"

datatype upstream_mode = ModeParallel | ModeRoundRobin | ModeLoadBalance | ModeFailover

datatype 'net resolved_upstream =
    UpstreamHosts config_id string string
  | UpstreamDoh config_id string "config_id option" "ip_addr option" "config_id option" "'net resolved_ecs option"
  | UpstreamGroup config_id "resolved_upstream_member list" upstream_mode duration
      "resolved_upstream_member list" "upstream_mode option" "duration option"

datatype hosts_format = HostsFormatJson | HostsFormatHosts

datatype resolved_hosts_resource =
    HostsConst config_id hosts_format string
  | HostsFile config_id hosts_format string bool "duration option"

datatype resolved_rule_set =
    RuleSetConst config_id rule_set_format string
  | RuleSetFile config_id rule_set_format string bool "duration option"
  | RuleSetRemote config_id rule_set_format string "config_id option" bool "duration option"

lemma config_id_new_Inr:
  "config_id_new s = Inr i \<longleftrightarrow> i = ConfigId s \<and> s \<noteq> [] \<and> length s \<le> 128 \<and> list_all id_char s"
  by (simp add: config_id_new_def not_less eq_commute [of i])

end
