(* ===== verification/Byte_Words.thy ===== *)
theory Byte_Words
  imports Flux_Prelude
begin

text \<open>
  Big-endian bytes of machine words: \<open>to_be_bytes\<close> and \<open>from_be_bytes\<close> of the integer types and the
  octets of addresses, with the round trips the codecs and the digests rest on.
\<close>

definition be_digits :: "nat \<Rightarrow> nat \<Rightarrow> byte list" where
  "be_digits k n = map (\<lambda>i. of_nat (n div 256 ^ i)) (rev [0..<k])"

definition be_value :: "byte list \<Rightarrow> nat" where
  "be_value bs = foldl (\<lambda>a b. a * 256 + unat b) 0 bs"

definition to_be_bytes :: "'a::len word \<Rightarrow> byte list" where
  "to_be_bytes w = be_digits (LENGTH('a) div 8) (unat w)"

definition from_be_bytes :: "byte list \<Rightarrow> 'a::len word" where
  "from_be_bytes bs = of_nat (be_value bs)"

lemma length_be_digits [simp]: "length (be_digits k n) = k"
  by (simp add: be_digits_def)

lemma length_to_be_bytes [simp]: "length (to_be_bytes (w :: 'a::len word)) = LENGTH('a) div 8"
  by (simp add: to_be_bytes_def)

lemma be_value_Nil [simp]: "be_value [] = 0"
  by (simp add: be_value_def)

lemma foldl_horner: "foldl (\<lambda>a b. a * 256 + unat b) a bs = a * 256 ^ length bs + be_value bs"
  for bs :: "byte list"
proof (induction bs arbitrary: a)
  case (Cons b bs)
  have "be_value (b # bs) = foldl (\<lambda>a b. a * 256 + unat b) (unat b) bs" by (simp add: be_value_def)
  with Cons.IH [of "a * 256 + unat b"] Cons.IH [of "unat b"] show ?case by (simp add: algebra_simps)
qed simp

lemma be_value_Cons [simp]: "be_value (b # bs) = unat b * 256 ^ length bs + be_value bs"
proof -
  have "be_value (b # bs) = foldl (\<lambda>a b. a * 256 + unat b) (unat b) bs" by (simp add: be_value_def)
  then show ?thesis by (simp only: foldl_horner)
qed

lemma be_value_less: "be_value bs < 256 ^ length bs"
proof (induction bs)
  case (Cons b bs)
  have "unat b < 256" using unsigned_less [where ?'a = nat and w = b] by simp
  then have "unat b * 256 ^ length bs \<le> 255 * 256 ^ length bs" by (intro mult_le_mono1) simp
  then have "unat b * 256 ^ length bs + be_value bs < 256 * 256 ^ length bs" using Cons.IH by linarith
  then show ?case by simp
qed simp

lemma be_digits_Suc: "be_digits (Suc k) n = of_nat (n div 256 ^ k) # be_digits k n"
  by (simp add: be_digits_def)

lemma be_value_digits: "be_value (be_digits k n) = n mod 256 ^ k"
proof (induction k)
  case 0
  then show ?case by (simp add: be_digits_def)
next
  case (Suc k)
  have "unat (of_nat (n div 256 ^ k) :: byte) = n div 256 ^ k mod 256"
    by (simp add: unat_of_nat)
  then have "be_value (be_digits (Suc k) n) = n div 256 ^ k mod 256 * 256 ^ k + n mod 256 ^ k"
    by (simp add: be_digits_Suc Suc.IH)
  also have "\<dots> = n mod 256 ^ Suc k"
    by (simp add: mod_mult2_eq mult.commute [of 256])
  finally show ?case .
qed

lemma be_digits_value: "be_digits (length bs) (be_value bs) = bs"
proof (induction bs)
  case Nil
  then show ?case by (simp add: be_digits_def)
next
  case (Cons b bs)
  have top: "(unat b * 256 ^ length bs + be_value bs) div 256 ^ length bs = unat b"
    using be_value_less [of bs] by simp
  have low: "be_digits k (c * 256 ^ k + n) = be_digits k n" for k c n :: nat
  proof -
    have "(of_nat ((c * 256 ^ k + n) div 256 ^ i) :: byte) = of_nat (n div 256 ^ i)" if "i < k" for i
    proof -
      from that obtain j where k: "k = i + Suc j" using less_iff_Suc_add [of i k] by auto
      have "(c * 256 ^ k + n) div 256 ^ i = ((c * 256 ^ j * 256) * 256 ^ i + n) div 256 ^ i"
        by (simp add: k power_add algebra_simps)
      also have "\<dots> = c * 256 ^ j * 256 + n div 256 ^ i"
        by (rule div_mult_self3) simp
      finally have "(of_nat ((c * 256 ^ k + n) div 256 ^ i) :: byte) = of_nat (c * 256 ^ j) * of_nat 256 + of_nat (n div 256 ^ i)"
        by (simp only: of_nat_add of_nat_mult)
      moreover have "(of_nat 256 :: byte) = 0" by simp
      ultimately show ?thesis by (simp only: mult_zero_right add_0_left)
    qed
    then show ?thesis unfolding be_digits_def by (intro map_cong) auto
  qed
  show ?case unfolding be_value_Cons list.size(4) add_Suc_right add_0_right be_digits_Suc top low Cons.IH by simp
qed

lemma from_to_be_bytes:
  fixes w :: "'a::len word"
  assumes "8 dvd LENGTH('a)"
  shows "from_be_bytes (to_be_bytes w) = w"
proof -
  have "(256::nat) ^ (LENGTH('a) div 8) = 2 ^ (8 * (LENGTH('a) div 8))"
    by (simp add: power_mult)
  also have "\<dots> = 2 ^ LENGTH('a)" using assms by simp
  finally have "be_value (to_be_bytes w) = unat w"
    using unsigned_less [where ?'a = nat and w = w] by (simp add: to_be_bytes_def be_value_digits)
  then show ?thesis by (simp add: from_be_bytes_def)
qed

lemma to_from_be_bytes:
  assumes "8 * length bs = LENGTH('a::len)"
  shows "to_be_bytes (from_be_bytes bs :: 'a word) = bs"
proof -
  have "(256::nat) ^ length bs = 2 ^ LENGTH('a)"
    unfolding assms [symmetric] by (simp add: power_mult)
  then have "unat (from_be_bytes bs :: 'a word) = be_value bs"
    using be_value_less [of bs] by (simp add: from_be_bytes_def unat_of_nat)
  moreover have "LENGTH('a) div 8 = length bs" using assms by simp
  ultimately show ?thesis by (simp add: to_be_bytes_def be_digits_value)
qed

lemma to_be_bytes_inject:
  fixes v w :: "'a::len word"
  assumes "8 dvd LENGTH('a)"
  shows "to_be_bytes v = to_be_bytes w \<longleftrightarrow> v = w"
  by (auto dest: arg_cong [where f = "from_be_bytes :: byte list \<Rightarrow> 'a word"] simp: from_to_be_bytes [OF assms])

end
