(* ===== verification/Client_Index.thy ===== *)
theory Client_Index
  imports Config_Types Byte_Words
begin

text \<open>
  The client index of \<open>backend/src/policy/client.rs\<close>: exact client ids, CIDR rules sorted by
  prefix length, the match of a request and the domain-separated digest of the matched identity.
  The network type of the \<open>ipnet\<close> crate is the parameter \<open>'net\<close>, with its \<open>contains\<close> and
  \<open>prefix_len\<close>; \<open>Sha256\<close> is a function on the bytes fed to the hasher. The lemmas show that a match
  is the exact id or the longest prefix, that the order of rules does not matter, and that distinct
  identities feed distinct bytes to the digest.
\<close>

record 'net net_lib =
  net_contains :: "'net \<Rightarrow> ip_addr \<Rightarrow> bool"
  net_prefix_len :: "'net \<Rightarrow> nat"

record 'net client_rule =
  cr_name :: config_id
  cr_client_ids :: "string list"
  cr_ips :: "'net list"

datatype client_rule_build_error = EmptyRule | DuplicateName | DuplicateClientId | DuplicateCidr

datatype client_match_kind = ExactId | Cidr nat

datatype 'net client_match = Matched "'net client_rule" client_match_kind | Unknown

datatype client_match_source = SourceId | SourceIp

record client_match_observation =
  obs_source :: client_match_source
  obs_matched_client_id :: string

record 'net cidr_entry =
  ce_network :: 'net
  ce_rule_index :: nat

record 'net client_index =
  ci_rules :: "'net client_rule list"
  ci_names :: "config_id \<rightharpoonup> nat"
  ci_exact_ids :: "string \<rightharpoonup> nat"
  ci_cidrs :: "'net cidr_entry list"

datatype client_cache_digest = ClientCacheDigest (digest_bytes: "byte list")

definition client_rule_from_resolved :: "'net resolved_client \<Rightarrow> 'net client_rule" where
  "client_rule_from_resolved client =
     \<lparr>cr_name = cl_name client, cr_client_ids = cl_client_ids client, cr_ips = cl_ips client\<rparr>"

section \<open>Building the index\<close>

fun add_client_ids :: "nat \<Rightarrow> string list \<Rightarrow> (string \<rightharpoonup> nat) \<Rightarrow> client_rule_build_error + (string \<rightharpoonup> nat)" where
  "add_client_ids rule_index [] m = Inr m"
| "add_client_ids rule_index (i # ids) m =
     (if m i \<noteq> None then Inl DuplicateClientId else add_client_ids rule_index ids (m(i \<mapsto> rule_index)))"

fun add_cidrs :: "nat \<Rightarrow> 'net list \<Rightarrow> 'net cidr_entry list \<Rightarrow> client_rule_build_error + 'net cidr_entry list" where
  "add_cidrs rule_index [] cidrs = Inr cidrs"
| "add_cidrs rule_index (n # ns) cidrs =
     (if list_ex (\<lambda>entry. ce_network entry = n) cidrs then Inl DuplicateCidr
      else add_cidrs rule_index ns (cidrs @ [\<lparr>ce_network = n, ce_rule_index = rule_index\<rparr>]))"

definition client_index_default :: "'net client_index" where
  "client_index_default = \<lparr>ci_rules = [], ci_names = Map.empty, ci_exact_ids = Map.empty, ci_cidrs = []\<rparr>"

definition add_client_rule :: "'net client_index \<Rightarrow> 'net client_rule \<Rightarrow> client_rule_build_error + 'net client_index" where
  "add_client_rule idx rule =
     (if cr_client_ids rule = [] \<and> cr_ips rule = [] then Inl EmptyRule
      else
        let rule_index = length (ci_rules idx) in
        if ci_names idx (cr_name rule) \<noteq> None then Inl DuplicateName
        else
          and_then (add_client_ids rule_index (cr_client_ids rule) (ci_exact_ids idx)) (\<lambda>exact_ids.
          and_then (add_cidrs rule_index (cr_ips rule) (ci_cidrs idx)) (\<lambda>cidrs.
            Inr \<lparr>ci_rules = ci_rules idx @ [rule], ci_names = (ci_names idx)(cr_name rule \<mapsto> rule_index),
                 ci_exact_ids = exact_ids, ci_cidrs = cidrs\<rparr>)))"

fun add_client_rules :: "'net client_rule list \<Rightarrow> 'net client_index \<Rightarrow> client_rule_build_error + 'net client_index" where
  "add_client_rules [] idx = Inr idx"
| "add_client_rules (rule # rules) idx = and_then (add_client_rule idx rule) (add_client_rules rules)"

definition sort_cidrs :: "'net net_lib \<Rightarrow> 'net cidr_entry list \<Rightarrow> 'net cidr_entry list" where
  "sort_cidrs lib cidrs = sort_key (\<lambda>entry. - int (net_prefix_len lib (ce_network entry))) cidrs"

definition client_index_build ::
  "'net net_lib \<Rightarrow> 'net client_rule list \<Rightarrow> client_rule_build_error + 'net client_index" where
  "client_index_build lib rules =
     and_then (add_client_rules rules client_index_default) (\<lambda>idx.
       Inr (idx\<lparr>ci_cidrs := sort_cidrs lib (ci_cidrs idx)\<rparr>))"

section \<open>Matching\<close>

definition to_ipv4_mapped :: "128 word \<Rightarrow> 32 word option" where
  "to_ipv4_mapped a = (if drop_bit 32 a = 0xffff then Some (ucast a) else None)"

definition normalize_client_addr :: "ip_addr \<Rightarrow> ip_addr" where
  "normalize_client_addr address =
     (case address of
        V6 a \<Rightarrow> (case to_ipv4_mapped a of None \<Rightarrow> V6 a | Some b \<Rightarrow> V4 b)
      | V4 _ \<Rightarrow> address)"

definition get_by_name :: "'net client_index \<Rightarrow> config_id \<Rightarrow> 'net client_rule option" where
  "get_by_name idx name = map_option (\<lambda>i. ci_rules idx ! i) (ci_names idx name)"

definition get_by_client_id :: "'net client_index \<Rightarrow> string \<Rightarrow> 'net client_rule option" where
  "get_by_client_id idx client_id = map_option (\<lambda>i. ci_rules idx ! i) (ci_exact_ids idx client_id)"

definition match_cidr :: "'net net_lib \<Rightarrow> 'net client_index \<Rightarrow> ip_addr \<Rightarrow> 'net client_match" where
  "match_cidr lib idx address =
     (case find (\<lambda>entry. net_contains lib (ce_network entry) address) (ci_cidrs idx) of
        None \<Rightarrow> Unknown
      | Some entry \<Rightarrow> Matched (ci_rules idx ! ce_rule_index entry) (Cidr (net_prefix_len lib (ce_network entry))))"

definition match_client ::
  "'net net_lib \<Rightarrow> 'net client_index \<Rightarrow> string option \<Rightarrow> ip_addr option \<Rightarrow> 'net client_match" where
  "match_client lib idx client_id client_addr =
     (case (case client_id of None \<Rightarrow> None | Some i \<Rightarrow> get_by_client_id idx i) of
        Some client \<Rightarrow> Matched client ExactId
      | None \<Rightarrow>
          (case client_addr of
             None \<Rightarrow> Unknown
           | Some address \<Rightarrow> match_cidr lib idx (normalize_client_addr address)))"

definition observation :: "'net client_match \<Rightarrow> string option \<Rightarrow> client_match_observation option" where
  "observation m client_id =
     (case m of
        Matched client ExactId \<Rightarrow>
          map_option (\<lambda>i. \<lparr>obs_source = SourceId, obs_matched_client_id = i\<rparr>) client_id
      | Matched client (Cidr _) \<Rightarrow>
          if length (cr_client_ids client) = 1
          then Some \<lparr>obs_source = SourceIp, obs_matched_client_id = cr_client_ids client ! 0\<rparr>
          else None
      | Unknown \<Rightarrow> None)"

text \<open>The bytes fed to the hasher, in the order of the \<open>update\<close> calls.\<close>

definition digest_input :: "'net client_match \<Rightarrow> string option \<Rightarrow> ip_addr option \<Rightarrow> byte list option" where
  "digest_input m client_id client_addr =
     map_option (\<lambda>tail. as_bytes (''fluxdns/client-cache/v1'' @ [CHR 0x00]) @ tail)
     (case (m, client_id, client_addr) of
        (Matched _ ExactId, Some i, _) \<Rightarrow> Some (as_bytes (''id'' @ [CHR 0x00]) @ as_bytes i)
      | (Matched _ (Cidr _), _, Some (V4 a)) \<Rightarrow> Some (as_bytes (''ipv4'' @ [CHR 0x00]) @ to_be_bytes a)
      | (Matched _ (Cidr _), _, Some (V6 a)) \<Rightarrow>
          (case to_ipv4_mapped a of
             Some b \<Rightarrow> Some (as_bytes (''ipv4'' @ [CHR 0x00]) @ to_be_bytes b)
           | None \<Rightarrow> Some (as_bytes (''ipv6'' @ [CHR 0x00]) @ to_be_bytes a))
      | _ \<Rightarrow> None)"

definition cache_digest ::
  "(byte list \<Rightarrow> byte list) \<Rightarrow> 'net client_match \<Rightarrow> string option \<Rightarrow> ip_addr option \<Rightarrow> client_cache_digest option" where
  "cache_digest sha256 m client_id client_addr =
     map_option (\<lambda>input. ClientCacheDigest (sha256 input)) (digest_input m client_id client_addr)"

section \<open>The index against its rules\<close>

text \<open>The ids of one rule are entered by the loop that refuses duplicate keys.\<close>

interpretation ids: unique_index "add_client_ids n" "\<lambda>i. i" "\<lambda>i. Inr n" "\<lambda>i. DuplicateClientId" for n
  by unfold_locales simp_all

lemma add_client_ids_Inr:
  assumes "add_client_ids n ids m = Inr m'"
  shows "m' i = Some k \<longleftrightarrow> (if i \<in> set ids then k = n else m i = Some k)"
    and "\<forall>i \<in> set ids. m i = None"
proof -
  note r = ids.build_Inr_gen [OF assms]
  show "m' i = Some k \<longleftrightarrow> (if i \<in> set ids then k = n else m i = Some k)"
    using r by (auto split: if_splits)
  show "\<forall>i \<in> set ids. m i = None" using r by auto
qed

lemma add_cidrs_Inr:
  assumes "add_cidrs n ns cidrs = Inr cidrs'"
  shows "cidrs' = cidrs @ map (\<lambda>net. \<lparr>ce_network = net, ce_rule_index = n\<rparr>) ns"
    and "distinct (map ce_network cidrs) \<Longrightarrow> distinct (map ce_network cidrs')"
  using assms
proof (induction n ns cidrs rule: add_cidrs.induct)
  case (2 n net ns cidrs)
  {
    case 1
    with 2 show ?case by (auto split: if_splits)
  next
    case 2
    then have "net \<notin> ce_network ` set cidrs" by (auto simp: list_ex_iff split: if_splits)
    with 2 "2.IH" show ?case by (auto split: if_splits)
  }
qed simp_all

definition client_index_ok :: "'net client_index \<Rightarrow> bool" where
  "client_index_ok idx \<longleftrightarrow>
     (\<forall>name i. ci_names idx name = Some i \<longleftrightarrow> i < length (ci_rules idx) \<and> cr_name (ci_rules idx ! i) = name) \<and>
     (\<forall>c i. ci_exact_ids idx c = Some i \<longleftrightarrow> i < length (ci_rules idx) \<and> c \<in> set (cr_client_ids (ci_rules idx ! i))) \<and>
     (\<forall>net i. \<lparr>ce_network = net, ce_rule_index = i\<rparr> \<in> set (ci_cidrs idx) \<longleftrightarrow>
        i < length (ci_rules idx) \<and> net \<in> set (cr_ips (ci_rules idx ! i))) \<and>
     distinct (map ce_network (ci_cidrs idx))"

lemma add_client_rule_ok:
  assumes "add_client_rule idx rule = Inr idx'" and "client_index_ok idx"
  shows "client_index_ok idx'" and "ci_rules idx' = ci_rules idx @ [rule]"
proof -
  let ?n = "length (ci_rules idx)"
  from assms(1) obtain ids cidrs where name: "ci_names idx (cr_name rule) = None"
    and ids: "add_client_ids ?n (cr_client_ids rule) (ci_exact_ids idx) = Inr ids"
    and cidrs: "add_cidrs ?n (cr_ips rule) (ci_cidrs idx) = Inr cidrs"
    and idx': "idx' = \<lparr>ci_rules = ci_rules idx @ [rule], ci_names = (ci_names idx)(cr_name rule \<mapsto> ?n),
                 ci_exact_ids = ids, ci_cidrs = cidrs\<rparr>"
    by (auto simp: add_client_rule_def Let_def split: if_splits)
  show rules: "ci_rules idx' = ci_rules idx @ [rule]" by (simp add: idx')
  have fresh: "cr_name (ci_rules idx ! i) \<noteq> cr_name rule" if "i < ?n" for i
  proof
    assume "cr_name (ci_rules idx ! i) = cr_name rule"
    with that assms(2) have "ci_names idx (cr_name rule) = Some i" by (simp add: client_index_ok_def)
    with name show False by simp
  qed
  have taken: "c \<notin> set (cr_client_ids rule)" if "i < ?n" "c \<in> set (cr_client_ids (ci_rules idx ! i))" for c i
  proof
    assume "c \<in> set (cr_client_ids rule)"
    with add_client_ids_Inr(2) [OF ids] have "ci_exact_ids idx c = None" by blast
    moreover from that assms(2) have "ci_exact_ids idx c = Some i" by (simp add: client_index_ok_def)
    ultimately show False by simp
  qed
  have "ci_names idx' name = Some i \<longleftrightarrow> i < length (ci_rules idx') \<and> cr_name (ci_rules idx' ! i) = name" for name i
    using assms(2) fresh by (auto simp: client_index_ok_def idx' nth_append)
  moreover have "ci_exact_ids idx' c = Some i \<longleftrightarrow> i < length (ci_rules idx') \<and> c \<in> set (cr_client_ids (ci_rules idx' ! i))" for c i
    using assms(2) add_client_ids_Inr(1) [OF ids] taken by (auto simp: client_index_ok_def idx' nth_append)
  moreover have "\<lparr>ce_network = net, ce_rule_index = i\<rparr> \<in> set (ci_cidrs idx') \<longleftrightarrow>
        i < length (ci_rules idx') \<and> net \<in> set (cr_ips (ci_rules idx' ! i))" for net i
    using assms(2) add_cidrs_Inr(1) [OF cidrs] by (auto simp: client_index_ok_def idx' nth_append)
  moreover have "distinct (map ce_network (ci_cidrs idx'))"
    using assms(2) add_cidrs_Inr(2) [OF cidrs] by (simp add: client_index_ok_def idx')
  ultimately show "client_index_ok idx'" unfolding client_index_ok_def by blast
qed

lemma add_client_rules_ok:
  "add_client_rules rules idx = Inr idx' \<Longrightarrow> client_index_ok idx \<Longrightarrow>
   client_index_ok idx' \<and> ci_rules idx' = ci_rules idx @ rules"
proof (induction rules arbitrary: idx)
  case (Cons rule rules)
  then obtain i where i: "add_client_rule idx rule = Inr i" "add_client_rules rules i = Inr idx'" by auto
  with add_client_rule_ok [OF i(1) Cons.prems(2)] Cons.IH [of i] show ?case by simp
qed simp

lemma client_index_build_ok:
  assumes "client_index_build lib rules = Inr idx"
  shows "client_index_ok idx" and "ci_rules idx = rules"
    and "sorted (map (\<lambda>e. - int (net_prefix_len lib (ce_network e))) (ci_cidrs idx))"
proof -
  from assms obtain i where i: "add_client_rules rules client_index_default = Inr i"
    "idx = i\<lparr>ci_cidrs := sort_cidrs lib (ci_cidrs i)\<rparr>" by (auto simp: client_index_build_def)
  have default: "client_index_ok client_index_default" "ci_rules client_index_default = []"
    by (simp_all add: client_index_ok_def client_index_default_def)
  have ok: "client_index_ok i" "ci_rules i = rules"
    using add_client_rules_ok [OF i(1) default(1)] default(2) by simp_all
  have "distinct (map ce_network (sort_cidrs lib (ci_cidrs i)))"
    using ok(1) by (simp add: client_index_ok_def sort_cidrs_def distinct_map)
  with ok show "client_index_ok idx" "ci_rules idx = rules"
    by (auto simp: i(2) client_index_ok_def sort_cidrs_def)
  show "sorted (map (\<lambda>e. - int (net_prefix_len lib (ce_network e))) (ci_cidrs idx))"
    by (simp add: i(2) sort_cidrs_def)
qed

section \<open>Longest prefix\<close>

lemma find_Some_sorted:
  fixes key :: "'a \<Rightarrow> int"
  assumes "sorted (map key xs)"
  shows "find p xs = Some x \<Longrightarrow> x \<in> set xs \<and> p x \<and> (\<forall>y \<in> set xs. p y \<longrightarrow> key x \<le> key y)"
  using assms by (induction xs) (auto split: if_splits)

text \<open>A network of some rule that contains an address.\<close>

definition candidate :: "'net net_lib \<Rightarrow> 'net client_rule list \<Rightarrow> ip_addr \<Rightarrow> 'net client_rule \<Rightarrow> 'net \<Rightarrow> bool" where
  "candidate lib rules address rule net \<longleftrightarrow> rule \<in> set rules \<and> net \<in> set (cr_ips rule) \<and> net_contains lib net address"

lemma cidr_entry_split: "e = \<lparr>ce_network = ce_network e, ce_rule_index = ce_rule_index e\<rparr>"
  by simp

lemma match_cidr_longest:
  assumes "client_index_build lib rules = Inr idx"
  shows "match_cidr lib idx address = Unknown \<longleftrightarrow> (\<forall>rule net. \<not> candidate lib rules address rule net)"
    and "match_cidr lib idx address = Matched rule kind \<Longrightarrow>
      \<exists>net. candidate lib rules address rule net \<and> kind = Cidr (net_prefix_len lib net) \<and>
        (\<forall>rule' net'. candidate lib rules address rule' net' \<longrightarrow> net_prefix_len lib net' \<le> net_prefix_len lib net)"
proof -
  note ok = client_index_build_ok [OF assms]
  let ?p = "\<lambda>e. net_contains lib (ce_network e) address"
  have entry: "e \<in> set (ci_cidrs idx) \<longleftrightarrow>
      ce_rule_index e < length rules \<and> ce_network e \<in> set (cr_ips (rules ! ce_rule_index e))" for e
    using ok(1,2) cidr_entry_split [of e] unfolding client_index_ok_def by metis
  have cand: "candidate lib rules address rule net \<longleftrightarrow>
      (\<exists>e \<in> set (ci_cidrs idx). ?p e \<and> rule = rules ! ce_rule_index e \<and> net = ce_network e)" for rule net
  proof
    assume c: "candidate lib rules address rule net"
    then obtain i where "i < length rules" "rule = rules ! i" by (auto simp: candidate_def in_set_conv_nth)
    with c show "\<exists>e \<in> set (ci_cidrs idx). ?p e \<and> rule = rules ! ce_rule_index e \<and> net = ce_network e"
      by (intro bexI [of _ "\<lparr>ce_network = net, ce_rule_index = i\<rparr>"]) (auto simp: candidate_def entry)
  qed (auto simp: candidate_def entry)
  show "match_cidr lib idx address = Unknown \<longleftrightarrow> (\<forall>rule net. \<not> candidate lib rules address rule net)"
    unfolding cand match_cidr_def by (auto simp: find_None_iff split: option.splits) (use find_Some_sorted [OF ok(3)] in blast)
  show "\<exists>net. candidate lib rules address rule net \<and> kind = Cidr (net_prefix_len lib net) \<and>
      (\<forall>rule' net'. candidate lib rules address rule' net' \<longrightarrow> net_prefix_len lib net' \<le> net_prefix_len lib net)"
    if m: "match_cidr lib idx address = Matched rule kind"
  proof -
    from m obtain e where e: "find ?p (ci_cidrs idx) = Some e"
      "rule = rules ! ce_rule_index e" "kind = Cidr (net_prefix_len lib (ce_network e))"
      by (auto simp: match_cidr_def ok(2) split: option.splits)
    from find_Some_sorted [OF ok(3) e(1)] e show ?thesis
      unfolding cand by (intro exI [of _ "ce_network e"]) auto
  qed
qed

lemma get_by_client_id_iff:
  assumes "client_index_build lib rules = Inr idx"
  shows "get_by_client_id idx c = Some rule \<longleftrightarrow> rule \<in> set rules \<and> c \<in> set (cr_client_ids rule)"
    and "get_by_client_id idx c = None \<longleftrightarrow> (\<forall>rule \<in> set rules. c \<notin> set (cr_client_ids rule))"
proof -
  note ok = client_index_build_ok [OF assms]
  have ids: "ci_exact_ids idx c = Some i \<longleftrightarrow> i < length rules \<and> c \<in> set (cr_client_ids (rules ! i))" for i
    using ok(1,2) by (simp add: client_index_ok_def)
  have unique: "i = j" if "i < length rules" "j < length rules"
    "c \<in> set (cr_client_ids (rules ! i))" "c \<in> set (cr_client_ids (rules ! j))" for i j
    using ids [of i] ids [of j] that by simp
  show "get_by_client_id idx c = Some rule \<longleftrightarrow> rule \<in> set rules \<and> c \<in> set (cr_client_ids rule)"
    using ids unique by (auto simp: get_by_client_id_def ok(2) in_set_conv_nth)
  show "get_by_client_id idx c = None \<longleftrightarrow> (\<forall>rule \<in> set rules. c \<notin> set (cr_client_ids rule))"
  proof (cases "ci_exact_ids idx c")
    case None
    have "c \<notin> set (cr_client_ids rule)" if "rule \<in> set rules" for rule
    proof -
      from that obtain i where "i < length rules" "rule = rules ! i" by (auto simp: in_set_conv_nth)
      with ids [of i] None show ?thesis by simp
    qed
    with None show ?thesis by (simp add: get_by_client_id_def)
  next
    case (Some i)
    with ids [of i] have "rules ! i \<in> set rules" "c \<in> set (cr_client_ids (rules ! i))" by simp_all
    with Some show ?thesis unfolding get_by_client_id_def by auto
  qed
qed

definition lists_id :: "string option \<Rightarrow> 'net client_rule \<Rightarrow> bool" where
  "lists_id client_id rule \<longleftrightarrow> (\<exists>c. client_id = Some c \<and> c \<in> set (cr_client_ids rule))"

section \<open>Properties\<close>

text \<open>
  Property C26: a request is matched to the rule that lists its client id; if no rule lists it, to a
  rule with a network that contains the (IPv4-unmapped) address, of the greatest prefix length among
  all networks of all rules that contain it; and to none only if no rule applies in either way.
\<close>

theorem match_client_exact_then_longest_prefix:
  assumes "client_index_build lib rules = Inr idx"
  shows "case match_client lib idx client_id client_addr of
      Matched rule ExactId \<Rightarrow> rule \<in> set rules \<and> lists_id client_id rule
    | Matched rule (Cidr len) \<Rightarrow>
        (\<forall>r \<in> set rules. \<not> lists_id client_id r) \<and>
        (\<exists>a net. client_addr = Some a \<and> candidate lib rules (normalize_client_addr a) rule net \<and>
           len = net_prefix_len lib net \<and>
           (\<forall>r n. candidate lib rules (normalize_client_addr a) r n \<longrightarrow> net_prefix_len lib n \<le> len))
    | Unknown \<Rightarrow>
        (\<forall>r \<in> set rules. \<not> lists_id client_id r) \<and>
        (\<forall>a. client_addr = Some a \<longrightarrow> (\<forall>r n. \<not> candidate lib rules (normalize_client_addr a) r n))"
proof (cases "\<exists>c rule. client_id = Some c \<and> get_by_client_id idx c = Some rule")
  case True
  then obtain c rule where c: "client_id = Some c" "get_by_client_id idx c = Some rule" by blast
  with get_by_client_id_iff(1) [OF assms(1)] have "rule \<in> set rules" "lists_id client_id rule"
    by (auto simp: lists_id_def)
  with c show ?thesis by (simp add: match_client_def)
next
  case False
  then have none: "\<forall>r \<in> set rules. \<not> lists_id client_id r"
    using get_by_client_id_iff(1) [OF assms(1)] unfolding lists_id_def by blast
  have run: "match_client lib idx client_id client_addr =
      (case client_addr of None \<Rightarrow> Unknown | Some a \<Rightarrow> match_cidr lib idx (normalize_client_addr a))"
    using False by (auto simp: match_client_def split: option.splits)
  show ?thesis
  proof (cases client_addr)
    case None
    with none run show ?thesis by simp
  next
    case (Some a)
    note longest = match_cidr_longest [OF assms(1), of "normalize_client_addr a"]
    show ?thesis
    proof (cases "match_cidr lib idx (normalize_client_addr a)")
      case (Matched rule kind)
      with longest(2) [OF Matched] none run Some show ?thesis by auto
    next
      case Unknown
      with longest(1) none run Some show ?thesis by simp
    qed
  qed
qed

theorem match_client_exact_then_longest_prefix_witness:
  "\<exists>a net. Some (V4 5) = Some a \<and>
     candidate \<lparr>net_contains = (\<lambda>n a. a = V4 5), net_prefix_len = (\<lambda>n::nat. n)\<rparr>
       [\<lparr>cr_name = ConfigId ''a'', cr_client_ids = [''x''], cr_ips = [8]\<rparr>,
        \<lparr>cr_name = ConfigId ''b'', cr_client_ids = [], cr_ips = [16]\<rparr>]
       (normalize_client_addr a) \<lparr>cr_name = ConfigId ''b'', cr_client_ids = [], cr_ips = [16]\<rparr> net \<and> net = 16"
proof -
  let ?lib = "\<lparr>net_contains = (\<lambda>n a. a = V4 5), net_prefix_len = (\<lambda>n::nat. n)\<rparr>"
  let ?a = "\<lparr>cr_name = ConfigId ''a'', cr_client_ids = [''x''], cr_ips = [8]\<rparr>"
  let ?b = "\<lparr>cr_name = ConfigId ''b'', cr_client_ids = [], cr_ips = [16]\<rparr>"
  let ?idx = "\<lparr>ci_rules = [?a, ?b], ci_names = [ConfigId ''a'' \<mapsto> 0, ConfigId ''b'' \<mapsto> 1],
    ci_exact_ids = [''x'' \<mapsto> 0],
    ci_cidrs = [\<lparr>ce_network = 16, ce_rule_index = 1\<rparr>, \<lparr>ce_network = 8, ce_rule_index = 0\<rparr>]\<rparr>"
  have build: "client_index_build ?lib [?a, ?b] = Inr ?idx"
    by (simp add: client_index_build_def client_index_default_def add_client_rule_def sort_cidrs_def)
  have "match_client ?lib ?idx (Some ''y'') (Some (V4 5)) = Matched ?b (Cidr 16)"
    by (simp add: match_client_def get_by_client_id_def match_cidr_def normalize_client_addr_def)
  with match_client_exact_then_longest_prefix [OF build, of "Some ''y''" "Some (V4 5)"] show ?thesis by simp
qed

text \<open>
  With networks that are determined by an address and a prefix length, the match does not
  depend on the order in which the rules are listed.
\<close>

lemma match_client_order_independent:
  assumes "client_index_build lib rules = Inr idx" "client_index_build lib rules' = Inr idx'"
    and "set rules = set rules'"
    and unique: "\<And>m n a. net_contains lib m a \<Longrightarrow> net_contains lib n a \<Longrightarrow>
      net_prefix_len lib m = net_prefix_len lib n \<Longrightarrow> m = n"
  shows "match_client lib idx client_id client_addr = match_client lib idx' client_id client_addr"
proof -
  have by_id: "get_by_client_id idx c = get_by_client_id idx' c" for c
  proof -
    have eq: "get_by_client_id idx c = Some r \<longleftrightarrow> get_by_client_id idx' c = Some r" for r
      using get_by_client_id_iff(1) [OF assms(1), of c] get_by_client_id_iff(1) [OF assms(2), of c] assms(3) by simp
    show ?thesis
    proof (cases "get_by_client_id idx' c")
      case None
      then have "\<forall>r. get_by_client_id idx c \<noteq> Some r" using eq by simp
      with None show ?thesis by (cases "get_by_client_id idx c") simp_all
    next
      case (Some r)
      with eq [of r] show ?thesis by simp
    qed
  qed
  have cand: "candidate lib rules a r n \<longleftrightarrow> candidate lib rules' a r n" for a r n
    using assms(3) by (simp add: candidate_def)
  have owner: "r = r'" if "candidate lib rules a r n" "candidate lib rules a r' n" for a r r' n
  proof -
    from that obtain i j where "i < length rules" "r = rules ! i" "j < length rules" "r' = rules ! j"
      and "n \<in> set (cr_ips (rules ! i))" "n \<in> set (cr_ips (rules ! j))"
      by (auto simp: candidate_def in_set_conv_nth)
    moreover from this client_index_build_ok(1,2) [OF assms(1)]
    have "\<lparr>ce_network = n, ce_rule_index = i\<rparr> \<in> set (ci_cidrs idx)"
      "\<lparr>ce_network = n, ce_rule_index = j\<rparr> \<in> set (ci_cidrs idx)" "distinct (map ce_network (ci_cidrs idx))"
      by (simp_all add: client_index_ok_def)
    then have "\<lparr>ce_network = n, ce_rule_index = i\<rparr> = \<lparr>ce_network = n, ce_rule_index = j\<rparr>"
      by (intro inj_onD [of ce_network "set (ci_cidrs idx)"]) (simp_all add: distinct_map)
    ultimately show ?thesis by simp
  qed
  have "match_cidr lib idx a = match_cidr lib idx' a" for a
  proof (cases "match_cidr lib idx a")
    case Unknown
    with match_cidr_longest(1) [OF assms(1), of a] match_cidr_longest(1) [OF assms(2), of a] cand
    show ?thesis by simp
  next
    case (Matched r k)
    then have "match_cidr lib idx' a \<noteq> Unknown"
      using match_cidr_longest(1) [OF assms(1), of a] match_cidr_longest(1) [OF assms(2), of a] cand by auto
    then obtain r' k' where m': "match_cidr lib idx' a = Matched r' k'" by (cases "match_cidr lib idx' a") auto
    from match_cidr_longest(2) [OF assms(1) Matched] obtain n where
      n: "candidate lib rules a r n" "k = Cidr (net_prefix_len lib n)"
      "\<And>r' n'. candidate lib rules a r' n' \<Longrightarrow> net_prefix_len lib n' \<le> net_prefix_len lib n" by blast
    from match_cidr_longest(2) [OF assms(2) m'] obtain n' where
      n': "candidate lib rules a r' n'" "k' = Cidr (net_prefix_len lib n')"
      "\<And>r n. candidate lib rules a r n \<Longrightarrow> net_prefix_len lib n \<le> net_prefix_len lib n'"
      unfolding cand by blast
    have "net_prefix_len lib n = net_prefix_len lib n'" using n(1,3) n'(1,3) by (meson le_antisym)
    then have "n = n'" using unique n(1) n'(1) by (auto simp: candidate_def)
    with n n' m' Matched owner show ?thesis by metis
  qed
  then have by_net: "match_cidr lib idx = match_cidr lib idx'" by (rule ext)
  show ?thesis unfolding match_client_def by_id by_net ..
qed

lemma match_client_order_independent_witness:
  "\<exists>idx idx'. client_index_build \<lparr>net_contains = (\<lambda>n a. a = V4 n), net_prefix_len = (\<lambda>n. 32)\<rparr>
       [\<lparr>cr_name = ConfigId ''a'', cr_client_ids = [], cr_ips = [8]\<rparr>,
        \<lparr>cr_name = ConfigId ''b'', cr_client_ids = [], cr_ips = [9]\<rparr>] = Inr idx \<and>
     client_index_build \<lparr>net_contains = (\<lambda>n a. a = V4 n), net_prefix_len = (\<lambda>n. 32)\<rparr>
       [\<lparr>cr_name = ConfigId ''b'', cr_client_ids = [], cr_ips = [9]\<rparr>,
        \<lparr>cr_name = ConfigId ''a'', cr_client_ids = [], cr_ips = [8]\<rparr>] = Inr idx' \<and>
     match_client \<lparr>net_contains = (\<lambda>n a. a = V4 n), net_prefix_len = (\<lambda>n. 32)\<rparr> idx None (Some (V4 8)) =
     match_client \<lparr>net_contains = (\<lambda>n a. a = V4 n), net_prefix_len = (\<lambda>n. 32)\<rparr> idx' None (Some (V4 8))"
proof -
  let ?lib = "\<lparr>net_contains = (\<lambda>n a. a = V4 n), net_prefix_len = (\<lambda>n. 32)\<rparr>"
  let ?a = "\<lparr>cr_name = ConfigId ''a'', cr_client_ids = [], cr_ips = [8]\<rparr>"
  let ?b = "\<lparr>cr_name = ConfigId ''b'', cr_client_ids = [], cr_ips = [9]\<rparr>"
  obtain idx idx' where build: "client_index_build ?lib [?a, ?b] = Inr idx" "client_index_build ?lib [?b, ?a] = Inr idx'"
    by (simp add: client_index_build_def client_index_default_def add_client_rule_def sort_cidrs_def)
  have "match_client ?lib idx None (Some (V4 8)) = match_client ?lib idx' None (Some (V4 8))"
    by (rule match_client_order_independent [OF build]) auto
  with build show ?thesis by blast
qed

lemma digest_input_cases:
  assumes "digest_input m client_id client_addr = Some bs"
  obtains r c where "m = Matched r ExactId" "client_id = Some c"
      "bs = as_bytes (''fluxdns/client-cache/v1'' @ [CHR 0x00]) @ as_bytes (''id'' @ [CHR 0x00]) @ as_bytes c"
  | r k a b where "m = Matched r (Cidr k)" "client_addr = Some a" "normalize_client_addr a = V4 b"
      "bs = as_bytes (''fluxdns/client-cache/v1'' @ [CHR 0x00]) @ as_bytes (''ipv4'' @ [CHR 0x00]) @ to_be_bytes b"
  | r k a b where "m = Matched r (Cidr k)" "client_addr = Some a" "normalize_client_addr a = V6 b"
      "bs = as_bytes (''fluxdns/client-cache/v1'' @ [CHR 0x00]) @ as_bytes (''ipv6'' @ [CHR 0x00]) @ to_be_bytes b"
proof (cases m)
  case Unknown
  with assms show thesis by (simp add: digest_input_def)
next
  case (Matched r kind)
  show thesis
  proof (cases kind)
    case ExactId
    with assms Matched that(1) show thesis by (cases client_id) (simp_all add: digest_input_def)
  next
    case (Cidr k)
    with assms Matched obtain a where a: "client_addr = Some a"
      by (cases client_addr) (simp_all add: digest_input_def)
    show thesis
    proof (cases a)
      case (V4 b)
      with assms Matched Cidr a that(2) show thesis
        by (simp add: digest_input_def normalize_client_addr_def)
    next
      case (V6 b)
      with assms Matched Cidr a that(2,3) show thesis
        by (cases "to_ipv4_mapped b") (simp_all add: digest_input_def normalize_client_addr_def)
    qed
  qed
qed

lemma digest_input_identity:
  assumes "digest_input m client_id client_addr = Some bs" "digest_input m' client_id' client_addr' = Some bs"
  shows "(\<exists>r r' c. m = Matched r ExactId \<and> m' = Matched r' ExactId \<and> client_id = Some c \<and> client_id' = Some c) \<or>
    (\<exists>r r' k k' a a'. m = Matched r (Cidr k) \<and> m' = Matched r' (Cidr k') \<and> client_addr = Some a \<and>
      client_addr' = Some a' \<and> normalize_client_addr a = normalize_client_addr a')"
proof -
  have tags: "as_bytes [CHR ''i'', CHR ''d'', CHR 0x00] = [0x69, 0x64, 0]"
    "as_bytes [CHR ''i'', CHR ''p'', CHR ''v'', CHR ''4'', CHR 0x00] = [0x69, 0x70, 0x76, 0x34, 0]"
    "as_bytes [CHR ''i'', CHR ''p'', CHR ''v'', CHR ''6'', CHR 0x00] = [0x69, 0x70, 0x76, 0x36, 0]"
    by code_simp+
  from assms(1) show ?thesis
  proof (cases rule: digest_input_cases)
    case 1
    from assms(2) 1 show ?thesis
      by (cases rule: digest_input_cases) (simp_all add: tags)
  next
    case 2
    from assms(2) 2 show ?thesis
      by (cases rule: digest_input_cases) (simp_all add: tags to_be_bytes_inject)
  next
    case 3
    from assms(2) 3 show ?thesis
      by (cases rule: digest_input_cases) (simp_all add: tags to_be_bytes_inject)
  qed
qed

text \<open>
  The bytes fed to the digest separate the identities: two matched requests with the same
  digest input were matched by the same client id, or both by address with the same (unmapped) address.
\<close>

lemma digest_input_separates_identities:
  assumes "digest_input m client_id client_addr = Some bs" "digest_input m' client_id' client_addr' = Some bs"
  shows "(\<exists>r r' c. m = Matched r ExactId \<and> m' = Matched r' ExactId \<and> client_id = Some c \<and> client_id' = Some c) \<or>
    (\<exists>r r' k k' a a'. m = Matched r (Cidr k) \<and> m' = Matched r' (Cidr k') \<and> client_addr = Some a \<and>
      client_addr' = Some a' \<and> normalize_client_addr a = normalize_client_addr a')"
  using assms by (rule digest_input_identity)

lemma digest_input_separates_identities_witness:
  "normalize_client_addr (V4 1) = normalize_client_addr (V6 0xffff00000001)"
proof -
  let ?m = "Matched \<lparr>cr_name = ConfigId ''a'', cr_client_ids = [], cr_ips = [0::nat]\<rparr> (Cidr 24)"
  have map: "to_ipv4_mapped 0xffff00000001 = Some 1" by code_simp
  have "digest_input ?m None (Some (V4 1)) =
    Some (as_bytes (''fluxdns/client-cache/v1'' @ [CHR 0x00]) @ as_bytes (''ipv4'' @ [CHR 0x00]) @ to_be_bytes (1 :: 32 word))"
    "digest_input ?m None (Some (V6 0xffff00000001)) =
    Some (as_bytes (''fluxdns/client-cache/v1'' @ [CHR 0x00]) @ as_bytes (''ipv4'' @ [CHR 0x00]) @ to_be_bytes (1 :: 32 word))"
    by (simp_all add: digest_input_def map)
  from digest_input_separates_identities [OF this] show ?thesis by auto
qed

end
