(* ===== verification/Cache_Namespace.thy ===== *)
theory Cache_Namespace
  imports Client_Index
begin

text \<open>
  The identifiers of the cache port (\<open>backend/src/ports/cache.rs\<close>): the pool a cached answer belongs
  to and the upstream it came from. Both are made from configuration identifiers, which the two
  constructors check again, each by its own rule.
\<close>

datatype cache_strategy_id = CacheStrategyId (strategy_id_str: string)

datatype cache_namespace_id_error = NamespaceEmpty | NamespaceTooShort | NamespaceTooLong | NamespaceInvalidCharacter

datatype cache_namespace =
    NamespaceGlobal
  | NamespaceStrategy cache_strategy_id
  | NamespaceClientStrategy client_cache_digest cache_strategy_id

datatype cache_upstream_id = CacheUpstreamId (upstream_id_str: string)

record cache_upstream_provenance =
  prov_target_id :: cache_upstream_id
  prov_used_id :: "cache_upstream_id option"

definition namespace_char :: "char \<Rightarrow> bool" where
  "namespace_char c \<longleftrightarrow> is_ascii_alphanumeric c \<or> c = CHR ''-'' \<or> c = CHR ''_'' \<or> c = CHR ''.''"

definition validate_namespace_id :: "string \<Rightarrow> nat \<Rightarrow> nat \<Rightarrow> cache_namespace_id_error + unit" where
  "validate_namespace_id value minimum_len maximum_len =
     (if value = [] then Inl NamespaceEmpty
      else if length value < minimum_len then Inl NamespaceTooShort
      else if maximum_len < length value then Inl NamespaceTooLong
      else if \<not> list_all namespace_char value then Inl NamespaceInvalidCharacter
      else Inr ())"

definition cache_strategy_id_from_config :: "string \<Rightarrow> cache_namespace_id_error + cache_strategy_id" where
  "cache_strategy_id_from_config value =
     and_then (validate_namespace_id value 1 64) (\<lambda>_. Inr (CacheStrategyId value))"

definition cache_upstream_id_from_config :: "string \<Rightarrow> unit + cache_upstream_id" where
  "cache_upstream_id_from_config value =
     (if value = [] \<or> 128 < length value then Inl ()
      else if \<not> list_all id_char value then Inl ()
      else Inr (CacheUpstreamId value))"

definition direct_provenance :: "string \<Rightarrow> unit + cache_upstream_provenance" where
  "direct_provenance value =
     and_then (cache_upstream_id_from_config value) (\<lambda>i. Inr \<lparr>prov_target_id = i, prov_used_id = Some i\<rparr>)"

lemma cache_strategy_id_Inr:
  "cache_strategy_id_from_config s = Inr i \<longleftrightarrow>
     i = CacheStrategyId s \<and> s \<noteq> [] \<and> length s \<le> 64 \<and> list_all namespace_char s"
  by (cases s) (auto simp: cache_strategy_id_from_config_def validate_namespace_id_def)

lemma cache_strategy_id_total:
  "(\<exists>e. cache_strategy_id_from_config s = Inl e) \<longleftrightarrow> \<not> (s \<noteq> [] \<and> length s \<le> 64 \<and> list_all namespace_char s)"
  using cache_strategy_id_Inr [of s] by (cases "cache_strategy_id_from_config s") auto

text \<open>Every configuration identifier is accepted as an upstream identifier.\<close>

lemma config_id_upstream:
  "config_id_new s = Inr i \<Longrightarrow> cache_upstream_id_from_config s = Inr (CacheUpstreamId s)"
  by (auto simp: config_id_new_Inr cache_upstream_id_from_config_def)

end
