(* ===== verification/Domain_Names.thy ===== *)
theory Domain_Names
  imports Rust_Strings Flux_Prelude
begin

text \<open>
  \<open>CanonicalDomain\<close> and the errors of \<open>backend/src/resource/hosts.rs\<close>, and the facts on label
  suffixes that the hosts index and the rule index share. The DNS name library is a parameter: a
  record of the three functions the code calls (\<open>Name::from_ascii\<close>, \<open>Name::set_fqdn\<close>,
  \<open>Name::to_ascii\<close>), with what the code relies on in \<open>name_lib_ok\<close>.
\<close>

datatype hosts_parse_error =
    HostsInputTooLarge
  | HostsTooManyRecords
  | HostsTooManyNames
  | HostsLineTooLong nat
  | HostsMissingAddress nat
  | HostsInvalidAddress nat
  | HostsMissingName nat
  | HostsInvalidNameAtLine nat
  | HostsInvalidName
  | HostsInvalidJson
  | HostsUnsupportedRecordType
  | HostsConflictingRecords
  | HostsConflictingCname

record 'n name_lib =
  name_from_ascii :: "string \<Rightarrow> 'n option"
  name_set_fqdn :: "'n \<Rightarrow> bool \<Rightarrow> 'n"
  name_to_ascii :: "'n \<Rightarrow> string"

datatype canonical_domain = CanonicalDomain (as_str: string)

definition strip_prefix :: "'a list \<Rightarrow> 'a list \<Rightarrow> 'a list option" where
  "strip_prefix p s = (if take (length p) s = p then Some (drop (length p) s) else None)"

definition starts_with :: "'a list \<Rightarrow> 'a list \<Rightarrow> bool" where
  "starts_with s p \<longleftrightarrow> take (length p) s = p"

section \<open>Canonical names\<close>

definition drop_root_dot :: "string \<Rightarrow> string" where
  "drop_root_dot text =
     (let normalized = to_ascii_lowercase text
      in if normalized \<noteq> ''.'' then butlast normalized else normalized)"

definition canonical_parse :: "'n name_lib \<Rightarrow> string \<Rightarrow> hosts_parse_error + canonical_domain" where
  "canonical_parse lib input =
     (let value = trim input;
          name = (case strip_prefix ''*.'' value of None \<Rightarrow> value | Some rest \<Rightarrow> rest)
      in if name = [] \<or> CHR ''*'' \<in> set name then Inl HostsInvalidName
      else and_then (ok_or HostsInvalidName (name_from_ascii lib value)) (\<lambda>parsed.
        let normalized = drop_root_dot (name_to_ascii lib (name_set_fqdn lib parsed True))
        in if normalized = [] \<or> normalized = ''*'' then Inl HostsInvalidName
        else Inr (CanonicalDomain normalized)))"

definition is_wildcard :: "canonical_domain \<Rightarrow> bool" where
  "is_wildcard d \<longleftrightarrow> starts_with (as_str d) ''*.''"

lemma to_ascii_lowercase_butlast: "to_ascii_lowercase (butlast s) = butlast (to_ascii_lowercase s)"
  by (simp add: to_ascii_lowercase_def map_butlast)

lemma drop_root_dot_lowercase: "to_ascii_lowercase (drop_root_dot t) = drop_root_dot t"
proof (cases "to_ascii_lowercase t = ''.''")
  case True
  then have "drop_root_dot t = to_ascii_lowercase t" by (simp add: drop_root_dot_def)
  then show ?thesis by (simp only: to_ascii_lowercase_idem)
next
  case False
  then show ?thesis by (simp add: drop_root_dot_def to_ascii_lowercase_butlast)
qed

lemma canonical_parse_lowercase:
  "canonical_parse lib s = Inr d \<Longrightarrow> to_ascii_lowercase (as_str d) = as_str d \<and> as_str d \<noteq> []"
  by (auto simp: canonical_parse_def Let_def drop_root_dot_lowercase split: if_splits)

text \<open>
  What the code relies on in the name library, for a set of names: a name written without the
  trailing dot parses, and prints in fully qualified form as the same text with the dot.
\<close>

definition name_lib_ok :: "'n name_lib \<Rightarrow> string set \<Rightarrow> bool" where
  "name_lib_ok lib names \<longleftrightarrow>
     (\<forall>s \<in> names. \<exists>n. name_from_ascii lib s = Some n \<and> name_to_ascii lib (name_set_fqdn lib n True) = s @ ''.'')"

text \<open>A name library on plain texts: a name is its text without the trailing dot.\<close>

definition text_name_lib :: "string name_lib" where
  "text_name_lib = \<lparr>
     name_from_ascii = (\<lambda>s. if s = [] then None
       else Some (case strip_suffix_char (CHR ''.'') s of None \<Rightarrow> s | Some t \<Rightarrow> t)),
     name_set_fqdn = (\<lambda>n _. n),
     name_to_ascii = (\<lambda>n. n @ ''.'')\<rparr>"

lemma text_name_lib_ok: "name_lib_ok text_name_lib {s. s \<noteq> [] \<and> last s \<noteq> CHR ''.''}"
  by (simp add: name_lib_ok_def text_name_lib_def strip_suffix_char_def)

text \<open>Names that are their own canonical form: graphic ASCII without capitals and wildcards, no
  empty label.\<close>

definition plain_name :: "string \<Rightarrow> bool" where
  "plain_name s \<longleftrightarrow>
     list_all (\<lambda>c. is_ascii_graphic c \<and> \<not> is_ascii_upper c \<and> c \<noteq> CHR ''*'') s \<and>
     [] \<notin> set (split_on (CHR ''.'') s)"

lemma trim_graphic:
  assumes "list_all is_ascii_graphic s"
  shows "trim s = s"
proof -
  have ascii: "is_ascii s" using assms by (auto simp: is_ascii_def is_ascii_graphic_def list_all_iff)
  have none: "\<not> is_whitespace n" if "n \<in> code ` set s" for n
    using assms that by (auto simp: list_all_iff is_ascii_graphic_def is_whitespace_def)
  have "dropWhile is_whitespace xs = xs" if "set xs \<subseteq> code ` set s" for xs
    using none that by (cases xs) auto
  then have "trim s = of_chars (map code s)"
    by (simp add: trim_def chars_ascii [OF ascii])
  also have "\<dots> = map char_of (map code s)"
    using ascii by (intro of_chars_ascii) (simp add: is_ascii_def list_all_iff)
  finally show ?thesis by (simp add: o_def)
qed

lemma canonical_parse_plain:
  assumes "name_lib_ok lib names" "s \<in> names" "plain_name s"
  shows "canonical_parse lib s = Inr (CanonicalDomain s)"
proof -
  have all: "\<forall>c \<in> set s. is_ascii_graphic c \<and> \<not> is_ascii_upper c \<and> c \<noteq> CHR ''*''"
    and ne: "[] \<notin> set (split_on (CHR ''.'') s)"
    using assms(3) by (simp_all add: plain_name_def list_all_iff)
  have graphic: "list_all is_ascii_graphic s" and star: "CHR ''*'' \<notin> set s"
    and lower: "\<forall>c \<in> set s. \<not> is_ascii_upper c"
    using all by (blast intro: list_all_iff [THEN iffD2])+
  have ne: "s \<noteq> []" using ne by force
  have s: "trim s = s" "to_ascii_lowercase s = s"
    using trim_graphic [OF graphic] lower
    by (simp_all add: to_ascii_lowercase_def ascii_lower_char_def map_idI)
  have "strip_prefix ''*.'' s = None" "s \<noteq> ''*''"
    using star by (cases s; auto simp: strip_prefix_def)+
  moreover have "to_ascii_lowercase (s @ ''.'') = s @ ''.''"
    using s(2) by (simp add: to_ascii_lowercase_def ascii_lower_char_def is_ascii_upper_def)
  moreover obtain n where "name_from_ascii lib s = Some n"
    "name_to_ascii lib (name_set_fqdn lib n True) = s @ ''.''"
    using assms(1,2) by (auto simp: name_lib_ok_def)
  ultimately show ?thesis using s star ne by (simp add: canonical_parse_def drop_root_dot_def Let_def)
qed

section \<open>Label suffixes\<close>

definition label_suffix :: "nat \<Rightarrow> string \<Rightarrow> string" where
  "label_suffix k s = join (CHR ''.'') (drop k (split_on (CHR ''.'') s))"

definition label_count :: "string \<Rightarrow> nat" where
  "label_count s = length (split_on (CHR ''.'') s)"

lemma label_count_pos [simp]: "0 < label_count s" "label_count s \<noteq> 0"
  by (simp_all add: label_count_def)

lemma label_suffix_0 [simp]: "label_suffix 0 s = s"
  by (simp add: label_suffix_def)

lemma join_append: "xs \<noteq> [] \<Longrightarrow> ys \<noteq> [] \<Longrightarrow> join c (xs @ ys) = join c xs @ c # join c ys"
proof (induction c xs rule: join.induct)
  case (2 c p)
  then show ?case by (cases ys) auto
qed auto

lemma split_on_append: "split_on c (p @ c # xs) = split_on c p @ split_on c xs"
  by (induction c p rule: split_on.induct) (auto split: list.splits)

lemma label_suffix_parent:
  assumes "0 < k" "k < label_count s"
  shows "\<exists>pre. s = pre @ CHR ''.'' # label_suffix k s"
proof -
  define ls where "ls = split_on (CHR ''.'') s"
  have "take k ls \<noteq> []" "drop k ls \<noteq> []" using assms by (simp_all add: label_count_def ls_def)
  then have "join (CHR ''.'') (take k ls @ drop k ls) =
      join (CHR ''.'') (take k ls) @ CHR ''.'' # join (CHR ''.'') (drop k ls)"
    by (rule join_append)
  moreover have "join (CHR ''.'') (take k ls @ drop k ls) = s"
    by (simp only: append_take_drop_id ls_def join_split_on)
  ultimately show ?thesis unfolding label_suffix_def ls_def [symmetric] by (intro exI) (rule trans [OF sym])
qed

text \<open>The proper label suffixes of a name are exactly the texts after one of its dots.\<close>

lemma label_suffix_iff:
  "(\<exists>k. 0 < k \<and> k < label_count s \<and> t = label_suffix k s) \<longleftrightarrow> (\<exists>pre. s = pre @ CHR ''.'' # t)"
  (is "?l \<longleftrightarrow> ?r")
proof
  assume ?l
  then obtain k where "0 < k" "k < label_count s" and t: "t = label_suffix k s" by (elim exE conjE)
  then show ?r unfolding t by (intro label_suffix_parent)
next
  assume ?r
  then obtain pre where s: "s = pre @ CHR ''.'' # t" by blast
  let ?k = "label_count pre"
  have split: "split_on (CHR ''.'') s = split_on (CHR ''.'') pre @ split_on (CHR ''.'') t"
    unfolding s by (rule split_on_append)
  then have "0 < ?k \<and> ?k < label_count s \<and> t = label_suffix ?k s"
    by (simp add: label_count_def label_suffix_def)
  then show ?l by (rule exI)
qed

lemma label_suffix_suffix:
  assumes "k < k'" "k' < label_count s"
  shows "\<exists>pre. label_suffix k s = pre @ CHR ''.'' # label_suffix k' s"
proof -
  let ?l = "split_on (CHR ''.'') s"
  have "drop k ?l = take (k' - k) (drop k ?l) @ drop k' ?l"
    using assms by (metis append_take_drop_id drop_drop le_add_diff_inverse2 less_imp_le)
  moreover have "join (CHR ''.'') (take (k' - k) (drop k ?l) @ drop k' ?l) =
      join (CHR ''.'') (take (k' - k) (drop k ?l)) @ CHR ''.'' # join (CHR ''.'') (drop k' ?l)"
    using assms by (intro join_append) (auto simp: label_count_def)
  ultimately have "label_suffix k s =
      join (CHR ''.'') (take (k' - k) (drop k ?l)) @ CHR ''.'' # label_suffix k' s"
    unfolding label_suffix_def by simp
  then show ?thesis by (rule exI)
qed

lemma label_suffix_shorter:
  "k < k' \<Longrightarrow> k' < label_count s \<Longrightarrow> length (label_suffix k' s) < length (label_suffix k s)"
  using label_suffix_suffix [of k k' s] by fastforce

lemma label_suffix_inject:
  "k < label_count s \<Longrightarrow> k' < label_count s \<Longrightarrow> label_suffix k s = label_suffix k' s \<Longrightarrow> k = k'"
  by (metis label_suffix_shorter less_irrefl linorder_neqE_nat)

lemma label_suffix_less_iff:
  "k < label_count s \<Longrightarrow> k' < label_count s \<Longrightarrow>
   length (label_suffix k' s) < length (label_suffix k s) \<longleftrightarrow> k < k'"
  by (metis label_suffix_shorter less_asym less_irrefl linorder_neqE_nat)

lemma label_count_suffix:
  assumes "k < label_count s"
  shows "label_count (label_suffix k s) = label_count s - k"
proof -
  have "split_on (CHR ''.'') (label_suffix k s) = drop k (split_on (CHR ''.'') s)"
    unfolding label_suffix_def using assms
    by (intro split_on_join) (auto simp: label_count_def dest: split_on_free in_set_dropD)
  then show ?thesis by (simp add: label_count_def)
qed

lemma plain_name_suffix: "plain_name s \<Longrightarrow> k < label_count s \<Longrightarrow> plain_name (label_suffix k s)"
proof -
  assume plain: "plain_name s" and k: "k < label_count s"
  have "split_on (CHR ''.'') (label_suffix k s) = drop k (split_on (CHR ''.'') s)"
    unfolding label_suffix_def using k
    by (intro split_on_join) (auto simp: label_count_def dest: split_on_free in_set_dropD)
  moreover have "set (label_suffix k s) \<subseteq> set s"
  proof (cases "k = 0")
    case False
    then obtain pre where "s = pre @ CHR ''.'' # label_suffix k s" using label_suffix_parent k by blast
    then have "set s = set (pre @ CHR ''.'' # label_suffix k s)" by (rule arg_cong)
    then show ?thesis by auto
  qed simp
  ultimately show ?thesis using plain by (auto simp: plain_name_def list_all_iff dest: in_set_dropD)
qed

text \<open>\<open>below n s\<close>: \<open>n\<close> is a name strictly below \<open>s\<close>; \<open>within n s\<close>: it is \<open>s\<close> or below it.\<close>

definition below :: "string \<Rightarrow> string \<Rightarrow> bool" where
  "below n s \<longleftrightarrow> (\<exists>pre. n = pre @ CHR ''.'' # s)"

definition within :: "string \<Rightarrow> string \<Rightarrow> bool" where
  "within n s \<longleftrightarrow> n = s \<or> below n s"

lemma below_label_suffix: "below n s \<longleftrightarrow> (\<exists>k. 1 \<le> k \<and> k < label_count n \<and> s = label_suffix k n)"
  unfolding below_def label_suffix_iff [symmetric] by (simp add: Suc_le_eq)

lemma within_label_suffix: "within n s \<longleftrightarrow> (\<exists>k. 0 \<le> k \<and> k < label_count n \<and> s = label_suffix k n)"
proof
  assume "within n s"
  then show "\<exists>k. 0 \<le> k \<and> k < label_count n \<and> s = label_suffix k n"
    unfolding within_def below_label_suffix
    by (auto intro: exI [of _ 0])
next
  assume "\<exists>k. 0 \<le> k \<and> k < label_count n \<and> s = label_suffix k n"
  then obtain k where k: "k < label_count n" "s = label_suffix k n" by blast
  show "within n s"
  proof (cases "k = 0")
    case True
    with k show ?thesis by (simp add: within_def)
  next
    case False
    with k show ?thesis unfolding within_def below_label_suffix by (intro disjI2 exI [of _ k]) simp
  qed
qed

text \<open>A search through the label suffixes in order finds the longest one.\<close>

lemma first_label_suffix_longest:
  assumes R: "\<And>s. R s \<longleftrightarrow> (\<exists>k. b \<le> k \<and> k < label_count n \<and> s = label_suffix k n)"
  shows "(\<exists>k. b \<le> k \<and> k < label_count n \<and> P (label_suffix k n) \<and>
      (\<forall>j. b \<le> j \<and> j < k \<longrightarrow> Q (label_suffix j n))) \<longleftrightarrow>
   (\<exists>s. R s \<and> P s \<and> (\<forall>t. R t \<and> length s < length t \<longrightarrow> Q t))" (is "?l \<longleftrightarrow> ?r")
proof
  assume ?l
  then obtain k where k: "b \<le> k" "k < label_count n" "P (label_suffix k n)"
    and first: "\<And>j. b \<le> j \<Longrightarrow> j < k \<Longrightarrow> Q (label_suffix j n)" by blast
  have "Q t" if t: "R t" "length (label_suffix k n) < length t" for t
  proof -
    obtain j where j: "b \<le> j" "j < label_count n" "t = label_suffix j n"
      using t(1) unfolding R by blast
    with t(2) k(2) have "j < k" by (simp add: label_suffix_less_iff)
    with first j show ?thesis by simp
  qed
  moreover have "R (label_suffix k n)" unfolding R using k(1,2) by blast
  ultimately show ?r using k(3) by blast
next
  assume ?r
  then obtain s where s: "R s" "P s"
    and longest: "\<And>t. R t \<Longrightarrow> length s < length t \<Longrightarrow> Q t" by blast
  obtain k where k: "b \<le> k" "k < label_count n" "s = label_suffix k n"
    using s(1) unfolding R by blast
  have "Q (label_suffix j n)" if "b \<le> j" "j < k" for j
  proof (rule longest)
    show "R (label_suffix j n)" unfolding R using that k(2) less_trans by blast
    show "length s < length (label_suffix j n)" unfolding k(3) using that(2) k(2) by (rule label_suffix_shorter)
  qed
  with k s(2) show ?l by blast
qed

lemmas first_below_longest = first_label_suffix_longest [OF below_label_suffix]
lemmas first_within_longest = first_label_suffix_longest [OF within_label_suffix]

lemma text_name_lib_within:
  assumes "n \<noteq> []" "last n \<noteq> CHR ''.''"
  shows "name_lib_ok text_name_lib {s. within n s}"
proof -
  have "s \<noteq> [] \<and> last s \<noteq> CHR ''.''" if "within n s" for s
    using assms that by (auto simp: within_def below_def split: if_splits)
  then show ?thesis using text_name_lib_ok by (simp add: name_lib_ok_def)
qed

end
