(* ===== verification/Doh_Route.thy ===== *)
theory Doh_Route
  imports Domain_Names
begin

text \<open>
  DoH path templates (\<open>backend/src/config/doh_route.rs\<close>): validation, matching with an optional
  \<open>{client_id}\<close> segment, and the overlap test that configuration validation uses to refuse ambiguous
  routes. The lemmas show what paths a template matches and that the overlap test is exact.
\<close>

definition CLIENT_ID_MARKER :: string where
  "CLIENT_ID_MARKER = ''{client_id}''"

datatype doh_path_pattern_error = InvalidPath | InvalidPlaceholder

record doh_path_pattern =
  dp_template :: string
  dp_placeholder :: "(nat \<times> nat) option"

datatype path_segment = Literal string | ClientIdSegment

text \<open>\<open>str::find\<close> of a text and \<open>str::ends_with\<close>.\<close>

definition str_find :: "string \<Rightarrow> string \<Rightarrow> nat option" where
  "str_find s needle = find (\<lambda>i. starts_with (drop i s) needle) [0..<Suc (length s)]"

definition ends_with :: "string \<Rightarrow> string \<Rightarrow> bool" where
  "ends_with s t \<longleftrightarrow> length t \<le> length s \<and> drop (length s - length t) s = t"

definition doh_path_new :: "string \<Rightarrow> doh_path_pattern_error + doh_path_pattern" where
  "doh_path_new template =
     (if template = [] \<or> \<not> starts_with template ''/'' \<or> CHR ''?'' \<in> set template \<or> CHR ''#'' \<in> set template \<or>
         list_ex (\<lambda>c. code c < (0x20::nat) \<or> code c = (0x7f::nat)) template
      then Inl InvalidPath
      else
        let first = str_find template CLIENT_ID_MARKER in
        if (case first of None \<Rightarrow> False
            | Some index \<Rightarrow> sublist CLIENT_ID_MARKER (drop (index + length CLIENT_ID_MARKER) template))
        then Inl InvalidPlaceholder
        else
          let placeholder = map_option (\<lambda>start. (start, start + length CLIENT_ID_MARKER)) first in
          if (case placeholder of None \<Rightarrow> False
              | Some (start, stop) \<Rightarrow>
                  let segment_start = (0 < start \<and> template ! (start - 1) = CHR ''/'');
                      segment_end = (stop = length template \<or> template ! stop = CHR ''/'')
                  in \<not> segment_start \<or> \<not> segment_end)
          then Inl InvalidPlaceholder
          else Inr \<lparr>dp_template = template, dp_placeholder = placeholder\<rparr>)"

definition bare_path :: "doh_path_pattern \<Rightarrow> string option" where
  "bare_path p =
     (case dp_placeholder p of
        None \<Rightarrow> None
      | Some (start, stop) \<Rightarrow>
          if stop \<noteq> length (dp_template p) then None
          else
            let prefix = take start (dp_template p) in
            if prefix = ''/'' then Some prefix else strip_suffix_char (CHR ''/'') prefix)"

definition match_value :: "doh_path_pattern \<Rightarrow> nat \<Rightarrow> nat \<Rightarrow> string \<Rightarrow> string option option" where
  "match_value p start stop path =
     (if \<not> starts_with path (take start (dp_template p)) \<or> \<not> ends_with path (drop stop (dp_template p)) then None
      else if length path < length (dp_template p) - stop then None
      else
        let value_end = length path - (length (dp_template p) - stop) in
        if value_end < start then None
        else
          let value = take (value_end - start) (drop start path) in
          if value = [] \<or> CHR ''/'' \<in> set value \<or> CHR ''?'' \<in> set value then None
          else Some (Some value))"

definition doh_matches :: "doh_path_pattern \<Rightarrow> string \<Rightarrow> string option option" where
  "doh_matches p path =
     (case dp_placeholder p of
        None \<Rightarrow> if path = dp_template p then Some None else None
      | Some (start, stop) \<Rightarrow>
          if stop = length (dp_template p) then
            (case bare_path p of
               None \<Rightarrow> None
             | Some bare \<Rightarrow> if path = bare then Some None else match_value p start stop path)
          else match_value p start stop path)"

definition path_segments :: "string \<Rightarrow> path_segment list" where
  "path_segments path =
     map (\<lambda>segment. if segment = CLIENT_ID_MARKER then ClientIdSegment else Literal segment)
       (drop 1 (split_on (CHR ''/'') path))"

definition path_variants :: "doh_path_pattern \<Rightarrow> path_segment list list" where
  "path_variants p =
     path_segments (dp_template p) #
     (case bare_path p of None \<Rightarrow> [] | Some bare \<Rightarrow> [path_segments bare])"

fun segment_overlap :: "path_segment \<Rightarrow> path_segment \<Rightarrow> bool" where
  "segment_overlap ClientIdSegment ClientIdSegment = True"
| "segment_overlap ClientIdSegment (Literal value) = (value \<noteq> [])"
| "segment_overlap (Literal value) ClientIdSegment = (value \<noteq> [])"
| "segment_overlap (Literal left) (Literal right) = (left = right)"

definition variants_overlap :: "path_segment list \<Rightarrow> path_segment list \<Rightarrow> bool" where
  "variants_overlap left right \<longleftrightarrow>
     length left = length right \<and> list_all (\<lambda>(l, r). segment_overlap l r) (zip left right)"

definition overlaps :: "doh_path_pattern \<Rightarrow> doh_path_pattern \<Rightarrow> bool" where
  "overlaps p q \<longleftrightarrow>
     list_ex (\<lambda>left. list_ex (\<lambda>right. variants_overlap left right) (path_variants q)) (path_variants p)"

section \<open>The shape of a valid template\<close>

lemma starts_with_iff: "starts_with s p \<longleftrightarrow> (\<exists>t. s = p @ t)"
  unfolding starts_with_def by (metis append_eq_conv_conj append_take_drop_id)

lemma sublist_starts_with: "sublist p s \<longleftrightarrow> (\<exists>i \<le> length s. starts_with (drop i s) p)"
proof
  assume "sublist p s"
  then obtain a b where "s = a @ p @ b" by (auto simp: sublist_def)
  then show "\<exists>i \<le> length s. starts_with (drop i s) p"
    by (intro exI [of _ "length a"]) (simp add: starts_with_def)
next
  assume "\<exists>i \<le> length s. starts_with (drop i s) p"
  then obtain i where "starts_with (drop i s) p" by blast
  then obtain t where "drop i s = p @ t" unfolding starts_with_iff by blast
  then have "s = take i s @ p @ t" by (metis append_take_drop_id)
  then show "sublist p s" by (auto simp: sublist_def)
qed

lemma str_find_None: "str_find s p = None \<longleftrightarrow> \<not> sublist p s"
  by (auto simp: str_find_def find_None_iff sublist_starts_with less_Suc_eq_le simp del: upt_Suc)

lemma str_find_Some:
  assumes "str_find s p = Some i"
  shows "s = take i s @ p @ drop (i + length p) s" and "i + length p \<le> length s"
    and "p \<noteq> [] \<Longrightarrow> \<not> sublist p (take i s)"
proof -
  from assms obtain n where n: "n < Suc (length s)" "starts_with (drop i s) p" "n = i"
    and first: "\<forall>j < i. \<not> starts_with (drop j s) p"
    by (auto simp: str_find_def find_Some_iff simp del: upt_Suc)
  then obtain t where t: "drop i s = p @ t" unfolding starts_with_iff by blast
  then have "length s - i = length p + length t" by (metis length_append length_drop)
  with n show "i + length p \<le> length s" by simp
  have "t = drop (i + length p) s" using t by (metis add.commute append_eq_conv_conj drop_drop)
  with t show "s = take i s @ p @ drop (i + length p) s" by (metis append_take_drop_id)
  show "\<not> sublist p (take i s)" if "p \<noteq> []"
  proof
    assume "sublist p (take i s)"
    then obtain a b where ab: "take i s = a @ p @ b" by (auto simp: sublist_def)
    then have "length a < i" using that by (metis add_gr_0 length_append length_greater_0_conv length_take
          less_add_same_cancel1 min_less_iff_conj less_le_trans min.cobounded2)
    moreover have "starts_with (drop (length a) s) p"
    proof -
      have "s = a @ p @ b @ drop i s" using ab by (metis append.assoc append_take_drop_id)
      then have "drop (length a) s = p @ b @ drop i s" by (metis append_eq_conv_conj)
      then show ?thesis by (auto simp: starts_with_iff)
    qed
    ultimately show False using first by blast
  qed
qed

text \<open>A template is accepted in one of two shapes: without the marker, or with it as one segment.\<close>

lemma doh_path_new_cases:
  assumes "doh_path_new t = Inr p"
  obtains (plain) rest where "dp_template p = t" "t = CHR ''/'' # rest" "CHR ''?'' \<notin> set t"
      "dp_placeholder p = None" "\<not> sublist CLIENT_ID_MARKER t"
  | (marked) pre post where "dp_template p = t" "CHR ''?'' \<notin> set t"
      "t = pre @ CHR ''/'' # CLIENT_ID_MARKER @ post" "pre = [] \<or> hd pre = CHR ''/''"
      "post = [] \<or> (\<exists>rest. post = CHR ''/'' # rest)"
      "dp_placeholder p = Some (length pre + 1, length pre + 1 + length CLIENT_ID_MARKER)"
      "\<not> sublist CLIENT_ID_MARKER (pre @ [CHR ''/''])" "\<not> sublist CLIENT_ID_MARKER post"
proof -
  let ?m = CLIENT_ID_MARKER
  from assms have t: "t \<noteq> []" "starts_with t ''/''" "CHR ''?'' \<notin> set t" and p: "dp_template p = t"
    and ph: "dp_placeholder p = map_option (\<lambda>start. (start, start + length ?m)) (str_find t ?m)"
    by (auto simp: doh_path_new_def Let_def split: if_splits)
  from t(2) obtain rest where rest: "t = CHR ''/'' # rest" by (auto simp: starts_with_iff)
  show thesis
  proof (cases "str_find t ?m")
    case None
    with t p ph rest plain show thesis by (auto simp: str_find_None)
  next
    case (Some i)
    note f = str_find_Some [OF Some]
    have once: "\<not> sublist ?m (drop (i + length ?m) t)"
      and seg: "0 < i" "t ! (i - 1) = CHR ''/''" "i + length ?m = length t \<or> t ! (i + length ?m) = CHR ''/''"
      using assms Some by (auto simp: doh_path_new_def Let_def split: if_splits)
    have "i \<le> length t" using f(2) by simp
    then have pre: "take i t = take (i - 1) t @ [CHR ''/'']"
      using seg(1,2) by (cases i) (simp_all add: take_Suc_conv_app_nth)
    let ?post = "drop (i + length ?m) t"
    have "t = take (i - 1) t @ CHR ''/'' # ?m @ ?post" using f(1) pre by simp
    moreover have "take (i - 1) t = [] \<or> hd (take (i - 1) t) = CHR ''/''" using rest by (cases "i - 1") auto
    moreover have "?post = [] \<or> (\<exists>rest. ?post = CHR ''/'' # rest)"
      using seg(3) f(2) by (auto simp: Cons_nth_drop_Suc [symmetric] le_less)
    moreover have "\<not> sublist ?m (take (i - 1) t @ [CHR ''/''])"
      using f(3) pre by (simp add: CLIENT_ID_MARKER_def)
    moreover have "dp_placeholder p = Some (length (take (i - 1) t) + 1, length (take (i - 1) t) + 1 + length ?m)"
      using ph Some seg(1) \<open>i \<le> length t\<close> by simp
    ultimately show thesis using marked p t(3) once by blast
  qed
qed

section \<open>What a template matches\<close>

definition value_ok :: "string \<Rightarrow> bool" where
  "value_ok v \<longleftrightarrow> v \<noteq> [] \<and> CHR ''/'' \<notin> set v \<and> CHR ''?'' \<notin> set v"

lemma match_value_iff:
  assumes "dp_template p = a @ m @ b"
  shows "match_value p (length a) (length a + length m) path = Some r \<longleftrightarrow>
    (\<exists>v. path = a @ v @ b \<and> value_ok v \<and> r = Some v)"
proof
  assume run: "match_value p (length a) (length a + length m) path = Some r"
  let ?e = "length path - length b"
  let ?v = "take (?e - length a) (drop (length a) path)"
  have s: "starts_with path a" "ends_with path b" "length b \<le> length path" "length a \<le> ?e"
    and v: "value_ok ?v" "r = Some ?v"
    using run by (auto simp: match_value_def assms value_ok_def Let_def split: if_splits)
  have "path = a @ drop (length a) path" using s(1) unfolding starts_with_iff by auto
  moreover have "drop (length a) path = ?v @ drop (?e - length a) (drop (length a) path)"
    by (simp only: append_take_drop_id)
  moreover have "drop (?e - length a) (drop (length a) path) = drop ?e path"
    using s(4) by (metis drop_drop le_add_diff_inverse2)
  moreover have "drop ?e path = b" using s(2) by (simp add: ends_with_def)
  ultimately have "path = a @ ?v @ b" by metis
  with v show "\<exists>v. path = a @ v @ b \<and> value_ok v \<and> r = Some v" by blast
next
  assume "\<exists>v. path = a @ v @ b \<and> value_ok v \<and> r = Some v"
  then show "match_value p (length a) (length a + length m) path = Some r"
    by (auto simp: match_value_def assms value_ok_def Let_def starts_with_def ends_with_def)
qed

fun segment_accepts :: "path_segment \<Rightarrow> string \<Rightarrow> bool" where
  "segment_accepts (Literal v) s = (s = v)"
| "segment_accepts ClientIdSegment s = value_ok s"

text \<open>The paths of a list of segments.\<close>

definition segments_path :: "path_segment list \<Rightarrow> string \<Rightarrow> bool" where
  "segments_path segs path \<longleftrightarrow>
     (\<exists>ps. path = join (CHR ''/'') ([] # ps) \<and> list_all (\<lambda>s. CHR ''/'' \<notin> set s) ps \<and> list_all2 segment_accepts segs ps)"

lemma list_all2_Literal: "list_all2 segment_accepts (map Literal xs) ps \<longleftrightarrow> ps = xs"
  by (induction xs arbitrary: ps) (auto simp: list_all2_Cons1)

lemma split_on_sublist: "x \<in> set (split_on c s) \<Longrightarrow> sublist x s"
proof -
  assume "x \<in> set (split_on c s)"
  then obtain as bs where "split_on c s = as @ x # bs" by (meson split_list)
  then have s: "s = join c (as @ [x] @ bs)" using join_split_on [of c s] by simp
  show ?thesis
  proof (cases "as = []"; cases "bs = []")
    assume "as \<noteq> []" "bs \<noteq> []"
    then have "s = (join c as @ [c]) @ x @ (c # join c bs)"
      unfolding s using join_append [of as "[x] @ bs" c] join_append [of "[x]" bs c] by simp
    then show ?thesis unfolding sublist_def by blast
  next
    assume "as = []" "bs \<noteq> []"
    then have "s = [] @ x @ (c # join c bs)" unfolding s using join_append [of "[x]" bs c] by simp
    then show ?thesis unfolding sublist_def by blast
  next
    assume "as \<noteq> []" "bs = []"
    then have "s = (join c as @ [c]) @ x @ []" unfolding s by (simp add: join_append)
    then show ?thesis unfolding sublist_def by blast
  qed (simp add: s)
qed

lemma map_segments_Literal:
  assumes "CLIENT_ID_MARKER \<notin> set xs"
  shows "map (\<lambda>segment. if segment = CLIENT_ID_MARKER then ClientIdSegment else Literal segment) xs = map Literal xs"
  using assms by (intro map_cong) auto

lemma segments_path_plain:
  assumes "u = CHR ''/'' # rest" "\<not> sublist CLIENT_ID_MARKER u"
  shows "segments_path (path_segments u) path \<longleftrightarrow> path = u"
proof -
  have "split_on (CHR ''/'') u = [] # split_on (CHR ''/'') rest" by (simp add: assms(1))
  moreover have "CLIENT_ID_MARKER \<notin> set (split_on (CHR ''/'') rest)"
    using assms(2) calculation split_on_sublist [of CLIENT_ID_MARKER "CHR ''/''" u] by auto
  ultimately have "path_segments u = map Literal (split_on (CHR ''/'') rest)"
    by (simp add: path_segments_def map_segments_Literal)
  moreover have "join (CHR ''/'') ([] # split_on (CHR ''/'') rest) = u"
    using join_split_on [of "CHR ''/''" u] by (simp add: assms(1))
  moreover have "list_all (\<lambda>s. CHR ''/'' \<notin> set s) (split_on (CHR ''/'') rest)"
    by (auto simp: list_all_iff dest: split_on_free)
  ultimately show ?thesis unfolding segments_path_def by (simp add: list_all2_Literal)
qed

lemma segments_path_marked:
  assumes t: "t = pre @ CHR ''/'' # CLIENT_ID_MARKER @ post" "pre = [] \<or> hd pre = CHR ''/''"
    and post: "post = [] \<or> (\<exists>rest. post = CHR ''/'' # rest)"
    and once: "\<not> sublist CLIENT_ID_MARKER (pre @ [CHR ''/''])" "\<not> sublist CLIENT_ID_MARKER post"
  shows "segments_path (path_segments t) path \<longleftrightarrow> (\<exists>v. path = pre @ CHR ''/'' # v @ post \<and> value_ok v)"
proof -
  let ?m = CLIENT_ID_MARKER and ?s = "split_on (CHR ''/'')"
  define A where "A = tl (?s pre)"
  define B where "B = (if post = [] then [] else ?s (tl post))"
  have A: "?s pre = [] # A" using t(2) by (cases pre) (auto simp: A_def)
  have m: "CHR ''/'' \<notin> set ?m" by (simp add: CLIENT_ID_MARKER_def)
  have tail: "?s (v @ post) = v # B" if "CHR ''/'' \<notin> set v" for v
    using post that by (auto simp: B_def split_on_no_sep split_on_append_sep)
  have split: "?s (pre @ CHR ''/'' # v @ post) = [] # A @ v # B" if "CHR ''/'' \<notin> set v" for v
    using tail [OF that] A by (simp add: split_on_append)
  have "?m \<notin> set A"
  proof
    assume "?m \<in> set A"
    then have "sublist ?m pre" using A split_on_sublist [of ?m "CHR ''/''" pre] by simp
    then show False using once(1) by (auto simp: sublist_append)
  qed
  moreover have "?m \<notin> set B"
  proof
    assume "?m \<in> set B"
    then obtain rest where "post = CHR ''/'' # rest" "?m \<in> set (?s rest)" using post by (auto simp: B_def split: if_splits)
    then have "?m \<in> set (?s post)" by simp
    then show False using once(2) split_on_sublist [of ?m "CHR ''/''" post] by simp
  qed
  ultimately have segs: "path_segments t = map Literal A @ ClientIdSegment # map Literal B"
    using split [OF m] by (simp add: path_segments_def t(1) map_segments_Literal)
  have "join (CHR ''/'') ([] # A @ v # B) = pre @ CHR ''/'' # v @ post" if "CHR ''/'' \<notin> set v" for v
    using join_split_on [of "CHR ''/''" "pre @ CHR ''/'' # v @ post"] split [OF that] by simp
  moreover have "list_all (\<lambda>s. CHR ''/'' \<notin> set s) (A @ v # B)" if "CHR ''/'' \<notin> set v" for v
    using split [OF that] split_on_free [of _ "CHR ''/''" "pre @ CHR ''/'' # v @ post"] by (auto simp: list_all_iff)
  moreover have "list_all2 segment_accepts (path_segments t) ps \<longleftrightarrow> (\<exists>v. ps = A @ v # B \<and> value_ok v)" for ps
    unfolding segs by (auto simp: list_all2_append1 list_all2_Literal list_all2_Cons1)
  ultimately show ?thesis
    unfolding segments_path_def value_ok_def by (metis (no_types, lifting))
qed

lemma bare_path_marked:
  assumes "dp_template p = pre @ CHR ''/'' # CLIENT_ID_MARKER @ post"
    and "dp_placeholder p = Some (length pre + 1, length pre + 1 + length CLIENT_ID_MARKER)"
  shows "bare_path p = (if post = [] then Some (if pre = [] then ''/'' else pre) else None)"
  using assms by (auto simp: bare_path_def strip_suffix_char_def Let_def)

text \<open>A template matches the paths of its variants.\<close>

lemma doh_matches_iff:
  assumes "doh_path_new t = Inr p"
  shows "doh_matches p path \<noteq> None \<longleftrightarrow> (\<exists>segs \<in> set (path_variants p). segments_path segs path)"
  using assms
proof (cases rule: doh_path_new_cases)
  case (plain rest)
  then have "path_variants p = [path_segments t]" by (simp add: path_variants_def bare_path_def)
  with plain show ?thesis using segments_path_plain [OF plain(2,5)] by (simp add: doh_matches_def)
next
  case (marked pre post)
  let ?m = CLIENT_ID_MARKER
  let ?start = "length pre + 1"
  have tmpl: "dp_template p = (pre @ [CHR ''/'']) @ ?m @ post" using marked(1,3) by simp
  have mv: "match_value p ?start (?start + length ?m) path \<noteq> None \<longleftrightarrow> segments_path (path_segments t) path"
    using match_value_iff [OF tmpl, of path] segments_path_marked [OF marked(3,4,5,7,8), of path] by auto
  note bare = bare_path_marked [OF marked(1) [unfolded marked(3)] marked(6)]
  show ?thesis
  proof (cases "post = []")
    case False
    then have "?start + length ?m \<noteq> length (dp_template p)" using marked(1,3) by simp
    with False bare mv marked(1,6) show ?thesis by (simp add: doh_matches_def path_variants_def)
  next
    case True
    let ?b = "if pre = [] then ''/'' else pre"
    have stop: "?start + length ?m = length (dp_template p)" using marked(1,3) True by simp
    have "\<not> sublist ?m ?b" using marked(7) by (auto simp: sublist_append)
    moreover obtain rest where "?b = CHR ''/'' # rest" using marked(4) by (cases pre) auto
    ultimately have "segments_path (path_segments ?b) path \<longleftrightarrow> path = ?b" by (intro segments_path_plain)
    moreover have "bare_path p = Some ?b" using bare True by simp
    ultimately show ?thesis
      using mv stop marked(1,6) by (auto simp: doh_matches_def path_variants_def)
  qed
qed

section \<open>The overlap test\<close>

definition segments_ok :: "path_segment list \<Rightarrow> bool" where
  "segments_ok segs \<longleftrightarrow> (\<forall>v. Literal v \<in> set segs \<longrightarrow> CHR ''/'' \<notin> set v \<and> CHR ''?'' \<notin> set v)"

lemma segment_overlap_iff:
  assumes "segments_ok [l, r]"
  shows "segment_overlap l r \<longleftrightarrow> (\<exists>s. CHR ''/'' \<notin> set s \<and> segment_accepts l s \<and> segment_accepts r s)"
proof -
  have "\<exists>s. CHR ''/'' \<notin> set s \<and> value_ok s" by (rule exI [of _ "''a''"]) (simp add: value_ok_def)
  then show ?thesis using assms by (cases l; cases r) (auto simp: segments_ok_def value_ok_def)
qed

lemma variants_overlap_iff:
  assumes "segments_ok left" "segments_ok right"
  shows "variants_overlap left right \<longleftrightarrow> (\<exists>path. segments_path left path \<and> segments_path right path)"
proof -
  have "variants_overlap left right \<longleftrightarrow>
      (\<exists>ps. list_all (\<lambda>s. CHR ''/'' \<notin> set s) ps \<and> list_all2 segment_accepts left ps \<and> list_all2 segment_accepts right ps)"
    using assms
  proof (induction left arbitrary: right)
    case Nil
    then show ?case by (auto simp: variants_overlap_def)
  next
    case (Cons l left)
    show ?case
    proof (cases right)
      case Nil
      then show ?thesis by (auto simp: variants_overlap_def list_all2_Cons1)
    next
      case r: (Cons r right')
      have "segments_ok [l, r]" "segments_ok left" "segments_ok right'"
        using Cons.prems r by (auto simp: segments_ok_def)
      moreover have "variants_overlap (l # left) (r # right') \<longleftrightarrow> segment_overlap l r \<and> variants_overlap left right'"
        by (auto simp: variants_overlap_def)
      moreover have "(\<exists>ps. list_all (\<lambda>s. CHR ''/'' \<notin> set s) ps \<and>
          list_all2 segment_accepts (l # left) ps \<and> list_all2 segment_accepts (r # right') ps) \<longleftrightarrow>
        (\<exists>s. CHR ''/'' \<notin> set s \<and> segment_accepts l s \<and> segment_accepts r s) \<and>
        (\<exists>ps. list_all (\<lambda>s. CHR ''/'' \<notin> set s) ps \<and> list_all2 segment_accepts left ps \<and> list_all2 segment_accepts right' ps)"
        (is "?a \<longleftrightarrow> ?b \<and> ?c")
      proof
        assume ?a
        then obtain ps where "list_all (\<lambda>s. CHR ''/'' \<notin> set s) ps"
          "list_all2 segment_accepts (l # left) ps" "list_all2 segment_accepts (r # right') ps" by blast
        then show "?b \<and> ?c" by (cases ps) auto
      next
        assume "?b \<and> ?c"
        then obtain s ps where "CHR ''/'' \<notin> set s" "segment_accepts l s" "segment_accepts r s"
          "list_all (\<lambda>s. CHR ''/'' \<notin> set s) ps" "list_all2 segment_accepts left ps"
          "list_all2 segment_accepts right' ps" by blast
        then show ?a by (intro exI [of _ "s # ps"]) simp
      qed
      ultimately show ?thesis using Cons.IH [of right'] by (simp add: r segment_overlap_iff)
    qed
  qed
  also have "\<dots> \<longleftrightarrow> (\<exists>path. segments_path left path \<and> segments_path right path)"
  proof -
    have "ps = qs" if "join (CHR ''/'') ([] # ps) = join (CHR ''/'') ([] # qs)"
      "list_all (\<lambda>s. CHR ''/'' \<notin> set s) ps" "list_all (\<lambda>s. CHR ''/'' \<notin> set s) qs" for ps qs
      using that join_inject [of "[] # ps" "[] # qs" "CHR ''/''"] by (auto simp: list_all_iff)
    then show ?thesis unfolding segments_path_def by metis
  qed
  finally show ?thesis .
qed

lemma path_variants_ok:
  assumes "doh_path_new t = Inr p" "segs \<in> set (path_variants p)"
  shows "segments_ok segs"
proof -
  have ok: "segments_ok (path_segments u)" if "CHR ''?'' \<notin> set u" for u
  proof -
    have "CHR ''/'' \<notin> set v \<and> CHR ''?'' \<notin> set v" if v: "v \<in> set (split_on (CHR ''/'') u)" for v
      using split_on_free [OF v] split_on_sublist [OF v] \<open>CHR ''?'' \<notin> set u\<close> by (auto dest: set_mono_sublist)
    then show ?thesis by (auto simp: segments_ok_def path_segments_def dest: in_set_dropD split: if_splits)
  qed
  from assms(1) show ?thesis
  proof (cases rule: doh_path_new_cases)
    case (plain rest)
    with assms(2) ok show ?thesis by (auto simp: path_variants_def bare_path_def)
  next
    case (marked pre post)
    note bare = bare_path_marked [OF marked(1) [unfolded marked(3)] marked(6)]
    from marked(2,3) have "CHR ''?'' \<notin> set pre" by simp
    with assms(2) ok [of t] ok [of pre] ok [of "''/''"] bare marked(1,2) show ?thesis
      by (auto simp: path_variants_def split: if_splits)
  qed
qed

section \<open>Properties\<close>

text \<open>
  Property C32: two valid templates are reported as overlapping exactly when some path is matched by
  both, so that a configuration whose routes do not overlap sends every path to at most one route.
\<close>

theorem overlaps_exact:
  assumes "doh_path_new t = Inr p" "doh_path_new u = Inr q"
  shows "overlaps p q \<longleftrightarrow> (\<exists>path. doh_matches p path \<noteq> None \<and> doh_matches q path \<noteq> None)"
proof -
  have "overlaps p q \<longleftrightarrow> (\<exists>l \<in> set (path_variants p). \<exists>r \<in> set (path_variants q). variants_overlap l r)"
    by (auto simp: overlaps_def list_ex_iff)
  also have "\<dots> \<longleftrightarrow> (\<exists>l \<in> set (path_variants p). \<exists>r \<in> set (path_variants q).
      \<exists>path. segments_path l path \<and> segments_path r path)"
    by (intro bex_cong refl variants_overlap_iff path_variants_ok [OF assms(1)] path_variants_ok [OF assms(2)])
  also have "\<dots> \<longleftrightarrow> (\<exists>path. doh_matches p path \<noteq> None \<and> doh_matches q path \<noteq> None)"
    unfolding doh_matches_iff [OF assms(1)] doh_matches_iff [OF assms(2)] by blast
  finally show ?thesis .
qed

theorem overlaps_exact_witness:
  "\<exists>path. doh_matches \<lparr>dp_template = ''/d/{client_id}'', dp_placeholder = Some (3, 14)\<rparr> path \<noteq> None \<and>
     doh_matches \<lparr>dp_template = ''/d/x'', dp_placeholder = None\<rparr> path \<noteq> None"
proof -
  have new: "doh_path_new ''/d/{client_id}'' = Inr \<lparr>dp_template = ''/d/{client_id}'', dp_placeholder = Some (3, 14)\<rparr>"
    "doh_path_new ''/d/x'' = Inr \<lparr>dp_template = ''/d/x'', dp_placeholder = None\<rparr>" by code_simp+
  have "overlaps \<lparr>dp_template = ''/d/{client_id}'', dp_placeholder = Some (3, 14)\<rparr>
      \<lparr>dp_template = ''/d/x'', dp_placeholder = None\<rparr>" by code_simp
  with overlaps_exact [OF new] show ?thesis by (rule iffD1)
qed

text \<open>
  A template with the marker matches exactly the paths that put a non-empty value without
  slash and question mark in its place, and returns that value; a template that ends with the marker
  also matches the path without the last segment, and returns no client id for it.
\<close>

lemma doh_matches_marked:
  assumes "doh_path_new t = Inr p" "dp_placeholder p = Some (start, stop)"
  shows "doh_matches p path = Some r \<longleftrightarrow>
    (\<exists>v. path = take start t @ v @ drop stop t \<and> value_ok v \<and> r = Some v) \<or>
    (stop = length t \<and> path = (if take start t = ''/'' then ''/'' else butlast (take start t)) \<and> r = None)"
  using assms(1)
proof (cases rule: doh_path_new_cases)
  case (plain rest)
  with assms(2) show ?thesis by simp
next
  case (marked pre post)
  let ?a = "pre @ [CHR ''/'']" and ?m = CLIENT_ID_MARKER
  have start: "start = length ?a" "stop = length ?a + length ?m" using assms(2) marked(6) by simp_all
  have tmpl: "dp_template p = ?a @ ?m @ post" using marked(1,3) by simp
  have parts: "take start t = ?a" "drop stop t = post" "stop = length t \<longleftrightarrow> post = []"
    using marked(3) start by simp_all
  have bare: "bare_path p = (if post = [] then Some (if pre = [] then ''/'' else pre) else None)"
    using bare_path_marked [OF marked(1) [unfolded marked(3)] marked(6)] .
  have no_value: "\<not> (\<exists>v. b = ?a @ v @ post \<and> value_ok v)" if "b = (if pre = [] then ''/'' else pre)" for b
  proof
    assume "\<exists>v. b = ?a @ v @ post \<and> value_ok v"
    then obtain v where "b = ?a @ v @ post" "v \<noteq> []" by (auto simp: value_ok_def)
    then have "length b = length pre + 1 + length v + length post" "0 < length v" by simp_all
    with that show False by (simp split: if_splits)
  qed
  have mv: "match_value p start stop path = Some r \<longleftrightarrow> (\<exists>v. path = ?a @ v @ post \<and> value_ok v \<and> r = Some v)"
    unfolding start using match_value_iff [OF tmpl] .
  show ?thesis
    unfolding parts doh_matches_def assms(2) bare
    using mv parts(3) marked(1) no_value [of "if pre = [] then ''/'' else pre"] by auto
qed

lemma doh_matches_marked_witness:
  "doh_matches \<lparr>dp_template = ''/d/{client_id}'', dp_placeholder = Some (3, 14)\<rparr> ''/d/me'' = Some (Some ''me'')"
proof -
  have new: "doh_path_new ''/d/{client_id}'' = Inr \<lparr>dp_template = ''/d/{client_id}'', dp_placeholder = Some (3, 14)\<rparr>"
    by code_simp
  show ?thesis
    using doh_matches_marked [OF new, of 3 14 "''/d/me''" "Some ''me''"]
    by (simp add: value_ok_def numeral_eq_Suc)
qed

end
