(* ===== verification/Routes.thy ===== *)
theory Routes
  imports Config_Types Doh_Route
begin

text \<open>
  The strategy index (\<open>backend/src/policy/strategy.rs\<close>) and the index from listeners and DoH routes
  to their base strategy (\<open>backend/src/policy/route.rs\<close>). The three build loops refuse duplicate keys
  and are interpretations of the locale \<open>unique_index\<close>; the lemmas show that a successful build never
  leaves a dangling strategy and that a selection returns the strategy the configuration names.
\<close>

type_synonym route_id = string

type_synonym 'net strategy_index = "config_id \<rightharpoonup> 'net resolved_strategy"

datatype strategy_build_error = DuplicateStrategy config_id

datatype route_build_error =
    RouteStrategy strategy_build_error
  | DuplicateListener config_id
  | MissingStrategy config_id config_id
  | DuplicateRoute config_id route_id
  | RouteInvalidPath
  | RouteInvalidPlaceholder

record route_match =
  rm_route_id :: route_id
  rm_client_id :: "string option"

record 'net route_selection =
  rs_listener_id :: config_id
  rs_route :: "route_match option"
  rs_strategy :: "'net resolved_strategy"
  rs_listener_hosts :: "config_id option"

datatype listener_routes = Stream config_id "config_id option" | Doh "route_id \<rightharpoonup> config_id"

record 'net route_index =
  rx_strategies :: "'net strategy_index"
  rx_listeners :: "config_id \<rightharpoonup> listener_routes"

section \<open>Strategies\<close>

fun strategy_index_build ::
  "'net resolved_strategy list \<Rightarrow> 'net strategy_index \<Rightarrow> strategy_build_error + 'net strategy_index" where
  "strategy_index_build [] m = Inr m"
| "strategy_index_build (strategy # strategies) m =
     (if m (st_id strategy) \<noteq> None then Inl (DuplicateStrategy (st_id strategy))
      else strategy_index_build strategies (m(st_id strategy \<mapsto> strategy)))"

interpretation strategies: unique_index strategy_index_build st_id Inr "\<lambda>s. DuplicateStrategy (st_id s)"
  by unfold_locales simp_all

section \<open>Routes\<close>

definition route_pattern_new :: "string \<Rightarrow> route_build_error + doh_path_pattern" where
  "route_pattern_new template =
     map_err (\<lambda>e. case e of InvalidPath \<Rightarrow> RouteInvalidPath | InvalidPlaceholder \<Rightarrow> RouteInvalidPlaceholder)
       (doh_path_new template)"

definition route_pattern_matches :: "doh_path_pattern \<Rightarrow> string \<Rightarrow> route_match option" where
  "route_pattern_matches pattern path =
     map_option (\<lambda>client_id. \<lparr>rm_route_id = dp_template pattern, rm_client_id = client_id\<rparr>)
       (doh_matches pattern path)"

definition ensure_strategy ::
  "'net strategy_index \<Rightarrow> config_id \<Rightarrow> config_id \<Rightarrow> route_build_error + unit" where
  "ensure_strategy strategies listener strategy =
     (if strategies strategy = None then Inl (MissingStrategy listener strategy) else Inr ())"

fun doh_routes_build ::
  "'net strategy_index \<Rightarrow> config_id \<Rightarrow> 'net resolved_doh_route list \<Rightarrow> (route_id \<rightharpoonup> config_id) \<Rightarrow>
     route_build_error + (route_id \<rightharpoonup> config_id)" where
  "doh_routes_build strategies listener [] m = Inr m"
| "doh_routes_build strategies listener (route # routes) m =
     and_then (ensure_strategy strategies listener (dr_strategy route)) (\<lambda>_.
       and_then (route_pattern_new (dr_path route)) (\<lambda>pattern.
         let route_id = dp_template pattern in
         if m route_id \<noteq> None then Inl (DuplicateRoute listener route_id)
         else doh_routes_build strategies listener routes (m(route_id \<mapsto> dr_strategy route))))"

fun listener_id :: "'net resolved_listener \<Rightarrow> config_id" where
  "listener_id (ListenerUdp i _ _ _ _) = i"
| "listener_id (ListenerTcp i _ _ _ _) = i"
| "listener_id (ListenerDoh i _ _) = i"

fun listener_routes_build ::
  "'net strategy_index \<Rightarrow> 'net resolved_listener \<Rightarrow> route_build_error + listener_routes" where
  "listener_routes_build strategies (ListenerUdp i addresses port strategy hosts) =
     and_then (ensure_strategy strategies i strategy) (\<lambda>_. Inr (Stream strategy hosts))"
| "listener_routes_build strategies (ListenerTcp i addresses port strategy hosts) =
     and_then (ensure_strategy strategies i strategy) (\<lambda>_. Inr (Stream strategy hosts))"
| "listener_routes_build strategies (ListenerDoh i routes endpoints) =
     and_then (doh_routes_build strategies i routes Map.empty) (\<lambda>compiled. Inr (Doh compiled))"

fun listeners_build ::
  "'net strategy_index \<Rightarrow> 'net resolved_listener list \<Rightarrow> (config_id \<rightharpoonup> listener_routes) \<Rightarrow>
     route_build_error + (config_id \<rightharpoonup> listener_routes)" where
  "listeners_build strategies [] m = Inr m"
| "listeners_build strategies (listener # listeners) m =
     and_then (listener_routes_build strategies listener) (\<lambda>routes.
       if m (listener_id listener) \<noteq> None then Inl (DuplicateListener (listener_id listener))
       else listeners_build strategies listeners (m(listener_id listener \<mapsto> routes)))"

definition route_index_build ::
  "'net resolved_listener list \<Rightarrow> 'net resolved_strategy list \<Rightarrow> route_build_error + 'net route_index" where
  "route_index_build listeners strategies =
     and_then (map_err RouteStrategy (strategy_index_build strategies Map.empty)) (\<lambda>sx.
       and_then (listeners_build sx listeners Map.empty) (\<lambda>lx.
         Inr \<lparr>rx_strategies = sx, rx_listeners = lx\<rparr>))"

definition route_strategy :: "'net route_index \<Rightarrow> config_id \<Rightarrow> 'net resolved_strategy option" where
  "route_strategy idx i = rx_strategies idx i"

definition select_stream :: "'net route_index \<Rightarrow> config_id \<Rightarrow> route_build_error + 'net route_selection" where
  "select_stream idx listener =
     (case rx_listeners idx listener of
        Some (Stream strategy hosts) \<Rightarrow>
          and_then (ok_or (MissingStrategy listener strategy) (rx_strategies idx strategy)) (\<lambda>strategy_value.
            Inr \<lparr>rs_listener_id = listener, rs_route = None, rs_strategy = strategy_value, rs_listener_hosts = hosts\<rparr>)
      | _ \<Rightarrow> Inl (MissingStrategy listener listener))"

definition select_doh :: "'net route_index \<Rightarrow> config_id \<Rightarrow> route_id \<Rightarrow> 'net route_selection option" where
  "select_doh idx listener route =
     (case rx_listeners idx listener of
        Some (Doh routes) \<Rightarrow>
          (case routes route of
             None \<Rightarrow> None
           | Some strategy \<Rightarrow>
               (case rx_strategies idx strategy of
                  None \<Rightarrow> None
                | Some strategy_value \<Rightarrow> Some
                    \<lparr>rs_listener_id = listener,
                     rs_route = Some \<lparr>rm_route_id = route, rm_client_id = None\<rparr>,
                     rs_strategy = strategy_value, rs_listener_hosts = None\<rparr>))
      | _ \<Rightarrow> None)"

section \<open>The built index\<close>

lemma doh_path_new_template: "doh_path_new t = Inr p \<Longrightarrow> dp_template p = t"
  by (erule doh_path_new_cases) simp_all

definition check_doh_route :: "'net strategy_index \<Rightarrow> config_id \<Rightarrow> 'net resolved_doh_route \<Rightarrow> route_build_error + config_id" where
  "check_doh_route strategies listener route =
     and_then (ensure_strategy strategies listener (dr_strategy route)) (\<lambda>_.
       and_then (route_pattern_new (dr_path route)) (\<lambda>_. Inr (dr_strategy route)))"

lemma route_pattern_new_cases:
  "(\<exists>e. route_pattern_new t = Inl e) \<or> (\<exists>p. route_pattern_new t = Inr p \<and> dp_template p = t)"
  by (cases "doh_path_new t") (auto simp: route_pattern_new_def map_err_def dest: doh_path_new_template)

interpretation doh_routes: unique_index "doh_routes_build strategies listener" dr_path
  "check_doh_route strategies listener" "\<lambda>r. DuplicateRoute listener (dr_path r)" for strategies listener
proof unfold_locales
  fix route routes and m :: "route_id \<rightharpoonup> config_id"
  show "doh_routes_build strategies listener (route # routes) m =
      and_then (check_doh_route strategies listener route) (\<lambda>v.
        if m (dr_path route) \<noteq> None then Inl (DuplicateRoute listener (dr_path route))
        else doh_routes_build strategies listener routes (m(dr_path route \<mapsto> v)))"
    using route_pattern_new_cases [of "dr_path route"]
    by (cases "strategies (dr_strategy route)") (auto simp: check_doh_route_def ensure_strategy_def and_then_def)
qed simp

interpretation listeners: unique_index "listeners_build strategies" listener_id
  "listener_routes_build strategies" "\<lambda>l. DuplicateListener (listener_id l)" for strategies
  by unfold_locales simp_all

fun listener_valid :: "config_id set \<Rightarrow> 'net resolved_listener \<Rightarrow> bool" where
  "listener_valid ids (ListenerUdp _ _ _ strategy _) \<longleftrightarrow> strategy \<in> ids"
| "listener_valid ids (ListenerTcp _ _ _ strategy _) \<longleftrightarrow> strategy \<in> ids"
| "listener_valid ids (ListenerDoh _ routes _) \<longleftrightarrow>
     distinct (map dr_path routes) \<and>
     (\<forall>r \<in> set routes. dr_strategy r \<in> ids \<and> (\<exists>p. doh_path_new (dr_path r) = Inr p))"

lemma ensure_strategy_Inr: "ensure_strategy sx l s = Inr u \<longleftrightarrow> s \<in> dom sx"
  by (auto simp: ensure_strategy_def)

lemma route_pattern_new_Inr: "(\<exists>p. route_pattern_new t = Inr p) \<longleftrightarrow> (\<exists>p. doh_path_new t = Inr p)"
  by (cases "doh_path_new t") (auto simp: route_pattern_new_def map_err_def)

lemma check_doh_route_Inr:
  "check_doh_route sx l r = Inr v \<longleftrightarrow>
     v = dr_strategy r \<and> dr_strategy r \<in> dom sx \<and> (\<exists>p. doh_path_new (dr_path r) = Inr p)"
  using route_pattern_new_Inr [of "dr_path r"]
  by (auto simp: check_doh_route_def ensure_strategy_Inr)

lemma listener_routes_build_valid:
  "(\<exists>v. listener_routes_build sx l = Inr v) \<longleftrightarrow> listener_valid (dom sx) l"
  by (cases l) (auto simp: ensure_strategy_Inr doh_routes.build_succeeds_iff check_doh_route_Inr)

lemma strategy_index_lookup:
  assumes "strategy_index_build ss Map.empty = Inr sx"
  shows "sx i = Some s \<longleftrightarrow> s \<in> set ss \<and> st_id s = i"
  using strategies.build_lookup [OF assms, of i s] strategies.build_values [OF assms, of s] by auto

lemma route_index_build_Inr:
  "route_index_build ls ss = Inr idx \<longleftrightarrow>
     strategy_index_build ss Map.empty = Inr (rx_strategies idx) \<and>
     listeners_build (rx_strategies idx) ls Map.empty = Inr (rx_listeners idx)"
  by (cases idx) (auto simp: route_index_build_def)

lemma listeners_lookup:
  assumes "listeners_build sx ls Map.empty = Inr lx"
  shows "lx i = Some v \<longleftrightarrow> (\<exists>l \<in> set ls. listener_id l = i \<and> listener_routes_build sx l = Inr v)"
  using listeners.build_lookup [OF assms, of i v] listeners.build_values [OF assms] by fastforce

lemma listener_routes_build_Stream:
  "listener_routes_build sx l = Inr (Stream strategy hosts) \<longleftrightarrow>
     strategy \<in> dom sx \<and> (\<exists>addresses port. l = ListenerUdp (listener_id l) addresses port strategy hosts \<or>
       l = ListenerTcp (listener_id l) addresses port strategy hosts)"
  by (cases l) (auto simp: ensure_strategy_Inr)

lemma listener_routes_build_Doh:
  "listener_routes_build sx l = Inr (Doh m) \<longleftrightarrow>
     (\<exists>routes endpoints. l = ListenerDoh (listener_id l) routes endpoints \<and> doh_routes_build sx (listener_id l) routes Map.empty = Inr m)"
  by (cases l) (auto simp: ensure_strategy_Inr)

lemma doh_routes_lookup:
  assumes "doh_routes_build sx i routes Map.empty = Inr m"
  shows "m path = Some strategy \<longleftrightarrow> (\<exists>r \<in> set routes. dr_path r = path \<and> dr_strategy r = strategy)"
  using doh_routes.build_lookup [OF assms, of path strategy] doh_routes.build_values [OF assms]
  by (fastforce simp: check_doh_route_Inr)

lemma listeners_stream:
  assumes "listeners_build sx ls Map.empty = Inr lx"
  shows "lx i = Some (Stream strategy hosts) \<longleftrightarrow> strategy \<in> dom sx \<and> (\<exists>addresses port.
      ListenerUdp i addresses port strategy hosts \<in> set ls \<or> ListenerTcp i addresses port strategy hosts \<in> set ls)"
    (is "?l \<longleftrightarrow> ?r")
proof
  assume ?l
  then obtain l where l: "l \<in> set ls" "listener_id l = i" "listener_routes_build sx l = Inr (Stream strategy hosts)"
    unfolding listeners_lookup [OF assms] by blast
  with listener_routes_build_Stream [of sx l strategy hosts] show ?r by metis
next
  assume ?r
  then obtain addresses port l where l: "l \<in> set ls" "strategy \<in> dom sx"
    "l = ListenerUdp i addresses port strategy hosts \<or> l = ListenerTcp i addresses port strategy hosts" by blast
  then have "listener_id l = i" "listener_routes_build sx l = Inr (Stream strategy hosts)"
    by (auto simp: ensure_strategy_Inr)
  with l(1) show ?l unfolding listeners_lookup [OF assms] by blast
qed

lemma listeners_doh:
  assumes "listeners_build sx ls Map.empty = Inr lx"
  shows "(\<exists>m. lx i = Some (Doh m) \<and> m path = Some strategy) \<longleftrightarrow>
    (\<exists>routes endpoints route. ListenerDoh i routes endpoints \<in> set ls \<and> route \<in> set routes \<and> dr_path route = path \<and> dr_strategy route = strategy)"
    (is "?l \<longleftrightarrow> ?r")
proof
  assume ?l
  then obtain m l routes endpoints where l: "l \<in> set ls" "listener_id l = i" "l = ListenerDoh (listener_id l) routes endpoints"
    and m: "doh_routes_build sx (listener_id l) routes Map.empty = Inr m" "m path = Some strategy"
    unfolding listeners_lookup [OF assms] listener_routes_build_Doh by blast
  have "ListenerDoh i routes endpoints \<in> set ls" using l by simp
  moreover have "\<exists>r \<in> set routes. dr_path r = path \<and> dr_strategy r = strategy"
    using doh_routes_lookup [OF m(1), of path strategy] m(2) by simp
  ultimately show ?r by blast
next
  assume ?r
  then obtain routes endpoints where l: "ListenerDoh i routes endpoints \<in> set ls"
    and r: "\<exists>r \<in> set routes. dr_path r = path \<and> dr_strategy r = strategy" by blast
  from listeners.build_values [OF assms l] obtain m where
    "doh_routes_build sx i routes Map.empty = Inr m" "lx i = Some (Doh m)" by auto
  with doh_routes_lookup [of sx i routes m path strategy] r show ?l by simp
qed

section \<open>Properties\<close>

text \<open>
  The route index is built exactly when the strategy ids and the listener ids are distinct,
  every listener and every DoH route names an existing strategy, and the paths of each DoH listener are
  valid and distinct.
\<close>

lemma route_index_build_succeeds:
  "(\<exists>idx. route_index_build ls ss = Inr idx) \<longleftrightarrow>
     distinct (map st_id ss) \<and> distinct (map listener_id ls) \<and> (\<forall>l \<in> set ls. listener_valid (st_id ` set ss) l)"
proof -
  have "(\<exists>idx. route_index_build ls ss = Inr idx) \<longleftrightarrow>
      (\<exists>sx. strategy_index_build ss Map.empty = Inr sx \<and> (\<exists>lx. listeners_build sx ls Map.empty = Inr lx))"
    by (auto simp: route_index_build_def)
  also have "\<dots> \<longleftrightarrow> (\<exists>sx. strategy_index_build ss Map.empty = Inr sx \<and>
      (\<forall>l \<in> set ls. listener_valid (st_id ` set ss) l) \<and> distinct (map listener_id ls))"
    by (simp add: listeners.build_succeeds_iff listener_routes_build_valid strategies.build_dom cong: conj_cong)
  also have "\<dots> \<longleftrightarrow> (\<exists>sx. strategy_index_build ss Map.empty = Inr sx) \<and>
      distinct (map listener_id ls) \<and> (\<forall>l \<in> set ls. listener_valid (st_id ` set ss) l)" by blast
  finally show ?thesis unfolding strategies.build_succeeds_iff by blast
qed

lemma route_index_build_succeeds_witness:
  "(\<exists>idx. route_index_build [ListenerUdp (ConfigId ''l'') [] 53 (ConfigId ''s'') None]
     [\<lparr>st_id = ConfigId ''s'', st_rules = [], st_default_upstream = ConfigId ''u'', st_cache = None,
       st_ttl_override = \<lparr>ttl_enabled = False, ttl_min = None, ttl_max = None, ttl_source = SourceDefault\<rparr>,
       st_ecs = \<lparr>ecs_mode = EcsDisabled, ecs_custom_ip = None :: unit option, ecs_source = SourceDefault\<rparr>\<rparr>] = Inr idx) \<and>
   \<not> (\<exists>idx. route_index_build [ListenerUdp (ConfigId ''l'') [] 53 (ConfigId ''s'') None] ([] :: unit resolved_strategy list) = Inr idx)"
  unfolding route_index_build_succeeds by simp

text \<open>
  Property C33: on a built index, a stream listener is routed to the strategy its configuration names,
  with its hosts resource, and a DoH route to the strategy of the route with that path; nothing else is
  selected.
\<close>

theorem route_selection_follows_configuration:
  assumes "route_index_build ls ss = Inr idx"
  shows "(select_stream idx i = Inr sel \<longleftrightarrow>
      (\<exists>addresses port strategy hosts s.
        (ListenerUdp i addresses port strategy hosts \<in> set ls \<or> ListenerTcp i addresses port strategy hosts \<in> set ls) \<and>
        s \<in> set ss \<and> st_id s = strategy \<and>
        sel = \<lparr>rs_listener_id = i, rs_route = None, rs_strategy = s, rs_listener_hosts = hosts\<rparr>)) \<and>
    (select_doh idx i path = Some sel \<longleftrightarrow>
      (\<exists>routes endpoints route s. ListenerDoh i routes endpoints \<in> set ls \<and> route \<in> set routes \<and> dr_path route = path \<and>
        s \<in> set ss \<and> st_id s = dr_strategy route \<and>
        sel = \<lparr>rs_listener_id = i, rs_route = Some \<lparr>rm_route_id = path, rm_client_id = None\<rparr>,
               rs_strategy = s, rs_listener_hosts = None\<rparr>))"
proof -
  let ?sx = "rx_strategies idx" and ?lx = "rx_listeners idx"
  have sb: "strategy_index_build ss Map.empty = Inr ?sx" and lb: "listeners_build ?sx ls Map.empty = Inr ?lx"
    using assms by (simp_all add: route_index_build_Inr)
  note sx = strategy_index_lookup [OF sb]
  have dom: "s \<in> dom ?sx \<longleftrightarrow> (\<exists>v. v \<in> set ss \<and> st_id v = s)" for s using sx by (auto simp: dom_def)
  have "select_stream idx i = Inr sel \<longleftrightarrow> (\<exists>strategy hosts s. ?lx i = Some (Stream strategy hosts) \<and> ?sx strategy = Some s \<and>
      sel = \<lparr>rs_listener_id = i, rs_route = None, rs_strategy = s, rs_listener_hosts = hosts\<rparr>)"
    by (auto simp: select_stream_def split: option.splits listener_routes.splits)
  also have "\<dots> \<longleftrightarrow> (\<exists>addresses port strategy hosts s.
        (ListenerUdp i addresses port strategy hosts \<in> set ls \<or> ListenerTcp i addresses port strategy hosts \<in> set ls) \<and>
        s \<in> set ss \<and> st_id s = strategy \<and>
        sel = \<lparr>rs_listener_id = i, rs_route = None, rs_strategy = s, rs_listener_hosts = hosts\<rparr>)"
    unfolding listeners_stream [OF lb] dom sx by (rule iffI; elim exE conjE; metis)
  finally have stream: "select_stream idx i = Inr sel \<longleftrightarrow> \<dots>" .
  have "select_doh idx i path = Some sel \<longleftrightarrow>
      (\<exists>strategy s. (\<exists>m. ?lx i = Some (Doh m) \<and> m path = Some strategy) \<and> ?sx strategy = Some s \<and>
        sel = \<lparr>rs_listener_id = i, rs_route = Some \<lparr>rm_route_id = path, rm_client_id = None\<rparr>,
               rs_strategy = s, rs_listener_hosts = None\<rparr>)"
    by (auto simp: select_doh_def split: option.splits listener_routes.splits)
  also have "\<dots> \<longleftrightarrow> (\<exists>routes endpoints route s. ListenerDoh i routes endpoints \<in> set ls \<and> route \<in> set routes \<and> dr_path route = path \<and>
        s \<in> set ss \<and> st_id s = dr_strategy route \<and>
        sel = \<lparr>rs_listener_id = i, rs_route = Some \<lparr>rm_route_id = path, rm_client_id = None\<rparr>,
               rs_strategy = s, rs_listener_hosts = None\<rparr>)"
    unfolding listeners_doh [OF lb] sx by (rule iffI; elim exE conjE; metis)
  finally show ?thesis using stream by (rule conjI [rotated])
qed

theorem route_selection_follows_configuration_witness:
  "\<exists>idx s. route_index_build [ListenerUdp (ConfigId ''l'') [] 53 (ConfigId ''s'') None]
     [\<lparr>st_id = ConfigId ''s'', st_rules = [], st_default_upstream = ConfigId ''u'', st_cache = None,
       st_ttl_override = \<lparr>ttl_enabled = False, ttl_min = None, ttl_max = None, ttl_source = SourceDefault\<rparr>,
       st_ecs = \<lparr>ecs_mode = EcsDisabled, ecs_custom_ip = None :: unit option, ecs_source = SourceDefault\<rparr>\<rparr>] = Inr idx \<and>
     select_stream idx (ConfigId ''l'') = Inr \<lparr>rs_listener_id = ConfigId ''l'', rs_route = None, rs_strategy = s, rs_listener_hosts = None\<rparr> \<and>
     st_id s = ConfigId ''s''"
proof -
  let ?s = "\<lparr>st_id = ConfigId ''s'', st_rules = [], st_default_upstream = ConfigId ''u'', st_cache = None,
       st_ttl_override = \<lparr>ttl_enabled = False, ttl_min = None, ttl_max = None, ttl_source = SourceDefault\<rparr>,
       st_ecs = \<lparr>ecs_mode = EcsDisabled, ecs_custom_ip = None :: unit option, ecs_source = SourceDefault\<rparr>\<rparr>"
  let ?l = "ListenerUdp (ConfigId ''l'') [] 53 (ConfigId ''s'') None"
  obtain idx where build: "route_index_build [?l] [?s] = Inr idx"
    by (simp add: route_index_build_def ensure_strategy_def)
  have "select_stream idx (ConfigId ''l'') =
      Inr \<lparr>rs_listener_id = ConfigId ''l'', rs_route = None, rs_strategy = ?s, rs_listener_hosts = None\<rparr>"
    by (rule route_selection_follows_configuration [OF build, THEN conjunct1, THEN iffD2],
        rule exI [of _ "[]"], rule exI [of _ 53], rule exI [of _ "ConfigId ''s''"], rule exI [of _ None],
        rule exI [of _ ?s]) simp
  with build show ?thesis by (intro exI [of _ idx] exI [of _ ?s]) simp
qed

end
