(* ===== verification/Rule_Index.thy ===== *)
theory Rule_Index
  imports Rule_Types Domain_Names
begin

text \<open>
  \<open>RuleIndex\<close> of \<open>backend/src/resource/rules.rs\<close>: the compiled rule set with exact names, suffixes,
  keywords and regular expressions, or a map of selectors to such indexes; the additions of one
  rule, the limits they enforce, and \<open>matches\<close>. A failed addition is propagated by every caller
  with \<open>?\<close> and its index is dropped, so an error carries no index. The lemmas show the invariant of
  the additions and the priority of the match.
\<close>

instantiation canonical_domain :: linorder
begin

definition less_eq_canonical_domain :: "canonical_domain \<Rightarrow> canonical_domain \<Rightarrow> bool" where
  "less_eq_canonical_domain a b \<longleftrightarrow> as_str a \<le> as_str b"

definition less_canonical_domain :: "canonical_domain \<Rightarrow> canonical_domain \<Rightarrow> bool" where
  "less_canonical_domain a b \<longleftrightarrow> as_str a < as_str b"

instance
  by standard (auto simp: less_eq_canonical_domain_def less_canonical_domain_def canonical_domain.expand)

end

datatype rule_match = MatchExact | MatchSuffix nat | MatchKeyword nat | MatchRegex nat

datatype rule_kind = KindExact | KindSuffix

datatype rule_index = RuleIndex
  (ri_exact: "canonical_domain list")
  (ri_suffix: "canonical_domain list")
  (ri_keywords: "string list")
  (ri_regex: "compiled_regex list")
  (ri_selectors: "(string \<times> rule_index) list")
  (ri_rule_count: nat)
  (ri_skipped: nat)

section \<open>Adding rules\<close>

definition rule_index_empty :: rule_index where
  "rule_index_empty = RuleIndex [] [] [] [] [] 0 0"

definition bump_rule_count :: "rule_index \<Rightarrow> rule_limits \<Rightarrow> rule_parse_error + rule_index" where
  "bump_rule_count idx limits =
     (if max_rules limits \<le> ri_rule_count idx then Inl TooManyRules
      else case idx of RuleIndex e s k r sel n sk \<Rightarrow> Inr (RuleIndex e s k r sel (n + 1) sk))"

definition add_domain ::
  "'n name_lib \<Rightarrow> rule_index \<Rightarrow> rule_kind \<Rightarrow> string \<Rightarrow> nat \<Rightarrow> rule_limits \<Rightarrow> rule_parse_error + rule_index" where
  "add_domain lib idx kind value line limits =
     (if max_rule_bytes limits < length value then Inl (RuleTooLong line)
      else and_then (map_err (\<lambda>_. InvalidDomain line) (canonical_parse lib value)) (\<lambda>domain.
        if is_wildcard domain then Inl (InvalidDomain line)
        else case idx of RuleIndex e s k r sel n sk \<Rightarrow>
          let (inserted, idx') =
            (case kind of
               KindExact \<Rightarrow> (case bset_insert domain e of (new, e') \<Rightarrow> (new, RuleIndex e' s k r sel n sk))
             | KindSuffix \<Rightarrow> (case bset_insert domain s of (new, s') \<Rightarrow> (new, RuleIndex e s' k r sel n sk)))
          in if inserted then bump_rule_count idx' limits else Inr idx'))"

definition add_regex ::
  "rule_index \<Rightarrow> string \<Rightarrow> nat \<Rightarrow> rule_limits \<Rightarrow> rule_parse_error + rule_index" where
  "add_regex idx value line limits =
     (if max_regex_bytes limits < length value then Inl (RuleTooLong line)
      else and_then (map_err (\<lambda>e. with_line e line) (compile (chars value) (max_regex_program limits))) (\<lambda>compiled.
        case idx of RuleIndex e s k r sel n sk \<Rightarrow>
          bump_rule_count (RuleIndex e s k (r @ [compiled]) sel n sk) limits))"

definition add_keyword :: "rule_index \<Rightarrow> string \<Rightarrow> rule_limits \<Rightarrow> rule_parse_error + rule_index" where
  "add_keyword idx value limits =
     (if max_rule_bytes limits < length value \<or> value = [] then Inl InvalidKeyword
      else case idx of RuleIndex e s k r sel n sk \<Rightarrow>
        (case bset_insert (to_ascii_lowercase value) k of (inserted, k') \<Rightarrow>
           if inserted then bump_rule_count (RuleIndex e s k' r sel n sk) limits
           else Inr (RuleIndex e s k' r sel n sk)))"

section \<open>Matching\<close>

fun match_suffix :: "'n name_lib \<Rightarrow> canonical_domain list \<Rightarrow> string list \<Rightarrow> nat option" where
  "match_suffix lib known [] = None"
| "match_suffix lib known (label # labels) =
     (case canonical_parse lib (join (CHR ''.'') (label # labels)) of
        Inr candidate \<Rightarrow>
          if candidate \<in> set known then Some (length (label # labels))
          else match_suffix lib known labels
      | Inl _ \<Rightarrow> match_suffix lib known labels)"

definition rule_matches :: "'n name_lib \<Rightarrow> rule_index \<Rightarrow> canonical_domain \<Rightarrow> rule_match option" where
  "rule_matches lib idx name =
     (if name \<in> set (ri_exact idx) then Some MatchExact
      else case match_suffix lib (ri_suffix idx) (split_on (CHR ''.'') (as_str name)) of
          Some n \<Rightarrow> Some (MatchSuffix n)
        | None \<Rightarrow>
            (case find_index (\<lambda>keyword. sublist keyword (as_str name)) (ri_keywords idx) of
               Some i \<Rightarrow> Some (MatchKeyword i)
             | None \<Rightarrow> map_option MatchRegex
                 (find_index (\<lambda>regex. is_match regex (chars (as_str name))) (ri_regex idx))))"

section \<open>Accessors\<close>

definition rule_index_is_empty :: "rule_index \<Rightarrow> bool" where
  "rule_index_is_empty idx \<longleftrightarrow> ri_rule_count idx = 0"

definition exact_count :: "rule_index \<Rightarrow> nat" where "exact_count idx = length (ri_exact idx)"

definition suffix_count :: "rule_index \<Rightarrow> nat" where "suffix_count idx = length (ri_suffix idx)"

definition keyword_count :: "rule_index \<Rightarrow> nat" where "keyword_count idx = length (ri_keywords idx)"

definition regex_count :: "rule_index \<Rightarrow> nat" where "regex_count idx = length (ri_regex idx)"

definition selector_count :: "rule_index \<Rightarrow> nat" where "selector_count idx = length (ri_selectors idx)"

definition is_selector_map :: "rule_index \<Rightarrow> bool" where
  "is_selector_map idx \<longleftrightarrow> ri_selectors idx \<noteq> []"

definition rule_selector :: "rule_index \<Rightarrow> string \<Rightarrow> rule_index option" where
  "rule_selector idx value = map_of (ri_selectors idx) value"

section \<open>The invariant of the additions\<close>

definition flat_ok :: "rule_limits \<Rightarrow> rule_index \<Rightarrow> bool" where
  "flat_ok limits idx \<longleftrightarrow>
     bset_ok (ri_exact idx) \<and> bset_ok (ri_suffix idx) \<and> bset_ok (ri_keywords idx) \<and>
     list_all (\<lambda>d. \<not> is_wildcard d) (ri_exact idx @ ri_suffix idx) \<and>
     list_all (\<lambda>k. k \<noteq> [] \<and> length k \<le> max_rule_bytes limits \<and> to_ascii_lowercase k = k) (ri_keywords idx) \<and>
     list_all (regex_ok (max_regex_program limits)) (ri_regex idx) \<and>
     ri_selectors idx = [] \<and>
     ri_rule_count idx = exact_count idx + suffix_count idx + keyword_count idx + regex_count idx \<and>
     ri_rule_count idx \<le> max_rules limits"

lemmas count_defs = exact_count_def suffix_count_def keyword_count_def regex_count_def

lemma flat_ok_empty [simp]: "flat_ok limits rule_index_empty"
  by (simp add: flat_ok_def rule_index_empty_def count_defs)

lemma bump_rule_count_Inr:
  "bump_rule_count idx limits = Inr idx' \<longleftrightarrow>
     ri_rule_count idx < max_rules limits \<and>
     idx' = RuleIndex (ri_exact idx) (ri_suffix idx) (ri_keywords idx) (ri_regex idx) (ri_selectors idx)
       (ri_rule_count idx + 1) (ri_skipped idx)"
  by (cases idx) (auto simp: bump_rule_count_def)

lemma bset_insert_cases:
  obtains "x \<in> set xs" "bset_insert x xs = (False, xs)"
  | "x \<notin> set xs" "bset_insert x xs = (True, insort x xs)"
  by (cases "x \<in> set xs") (auto simp: bset_insert_def)

lemma bset_ok_insort: "bset_ok xs \<Longrightarrow> x \<notin> set xs \<Longrightarrow> bset_ok (insort x xs)"
  by (simp add: bset_ok_def sorted_insort distinct_insort)

lemma list_all_insort: "list_all P (insort x xs) \<longleftrightarrow> P x \<and> list_all P xs"
  by (simp add: list_all_iff set_insort_key)

lemmas flat_simps = flat_ok_def count_defs bump_rule_count_Inr list_all_insort bset_ok_insort

lemma add_domain_ok:
  assumes "add_domain lib idx kind value line limits = Inr idx'" and "flat_ok limits idx"
  shows "flat_ok limits idx'"
proof -
  obtain e s k r sel n sk where idx: "idx = RuleIndex e s k r sel n sk" by (cases idx)
  from assms(1) obtain d where d: "\<not> is_wildcard d"
    and run: "(let (inserted, idx') =
            (case kind of
               KindExact \<Rightarrow> (case bset_insert d e of (new, e') \<Rightarrow> (new, RuleIndex e' s k r sel n sk))
             | KindSuffix \<Rightarrow> (case bset_insert d s of (new, s') \<Rightarrow> (new, RuleIndex e s' k r sel n sk)))
          in if inserted then bump_rule_count idx' limits else Inr idx') = Inr idx'"
    by (auto simp: add_domain_def idx split: if_splits)
  show ?thesis
  proof (cases kind)
    case KindExact
    with run d assms(2) idx show ?thesis by (cases rule: bset_insert_cases [of d e]) (auto simp: flat_simps)
  next
    case KindSuffix
    with run d assms(2) idx show ?thesis by (cases rule: bset_insert_cases [of d s]) (auto simp: flat_simps)
  qed
qed

lemma add_regex_ok:
  assumes "add_regex idx value line limits = Inr idx'" and "flat_ok limits idx"
  shows "flat_ok limits idx'"
  using assms by (cases idx) (auto simp: add_regex_def flat_simps split: if_splits dest: compile_ok)

lemma add_keyword_ok:
  assumes "add_keyword idx value limits = Inr idx'" and "flat_ok limits idx"
  shows "flat_ok limits idx'"
proof -
  obtain e s k r sel n sk where idx: "idx = RuleIndex e s k r sel n sk" by (cases idx)
  have "to_ascii_lowercase value \<noteq> []" "length (to_ascii_lowercase value) \<le> max_rule_bytes limits"
    using assms(1) by (auto simp: add_keyword_def to_ascii_lowercase_def split: if_splits)
  with assms idx show ?thesis
    by (cases rule: bset_insert_cases [of "to_ascii_lowercase value" k])
      (auto simp: add_keyword_def flat_simps split: if_splits)
qed

section \<open>Match priority\<close>

definition suffix_hit :: "'n name_lib \<Rightarrow> canonical_domain list \<Rightarrow> string \<Rightarrow> bool" where
  "suffix_hit lib known s \<longleftrightarrow> (\<exists>d \<in> set known. canonical_parse lib s = Inr d)"

lemma drops_Cons:
  "map (\<lambda>k. drop k (x # xs)) [0..<length (x # xs)] = (x # xs) # map (\<lambda>k. drop k xs) [0..<length xs]"
  by (simp add: upt_conv_Cons map_Suc_upt [symmetric] o_def del: upt_Suc)

lemma match_suffix_find:
  "match_suffix lib known ls =
     map_option (\<lambda>k. length ls - k)
       (find_index (\<lambda>t. suffix_hit lib known (join (CHR ''.'') t)) (map (\<lambda>k. drop k ls) [0..<length ls]))"
proof (induction ls)
  case Nil
  then show ?case by simp
next
  case (Cons l ls)
  have hit: "suffix_hit lib known (join (CHR ''.'') (l # ls)) \<longleftrightarrow>
      (case canonical_parse lib (join (CHR ''.'') (l # ls)) of Inr d \<Rightarrow> d \<in> set known | Inl _ \<Rightarrow> False)"
    by (auto simp: suffix_hit_def split: sum.splits)
  show ?case
    unfolding drops_Cons find_index_Cons hit
    by (auto simp: Cons.IH option.map_comp o_def split: sum.splits)
qed

lemma match_suffix_longest:
  fixes name :: string
  assumes lib: "name_lib_ok lib {s. within name s}" and plain: "plain_name name"
  shows "match_suffix lib known (split_on (CHR ''.'') name) = Some m \<longleftrightarrow>
    (\<exists>s. within name s \<and> (CanonicalDomain s \<in> set known \<and> label_count s = m) \<and>
      (\<forall>t. within name t \<and> length s < length t \<longrightarrow> CanonicalDomain t \<notin> set known))"
proof -
  let ?n = "label_count name"
  have hit: "suffix_hit lib known (label_suffix k name) \<longleftrightarrow> CanonicalDomain (label_suffix k name) \<in> set known"
    if "k < ?n" for k
  proof -
    have "within name (label_suffix k name)" unfolding within_label_suffix using that by blast
    then have "canonical_parse lib (label_suffix k name) = Inr (CanonicalDomain (label_suffix k name))"
      using canonical_parse_plain [OF lib] plain_name_suffix [OF plain that] by simp
    then show ?thesis by (simp add: suffix_hit_def)
  qed
  have "match_suffix lib known (split_on (CHR ''.'') name) = Some m \<longleftrightarrow>
      (\<exists>k. k < ?n \<and> suffix_hit lib known (label_suffix k name) \<and>
        (\<forall>j < k. \<not> suffix_hit lib known (label_suffix j name)) \<and> m = ?n - k)"
    unfolding match_suffix_find label_count_def label_suffix_def
    by (auto simp: find_index_Some)
  also have "\<dots> \<longleftrightarrow>
      (\<exists>k. 0 \<le> k \<and> k < ?n \<and> (CanonicalDomain (label_suffix k name) \<in> set known \<and> label_count (label_suffix k name) = m) \<and>
        (\<forall>j. 0 \<le> j \<and> j < k \<longrightarrow> CanonicalDomain (label_suffix j name) \<notin> set known))"
    by (intro ex_cong1) (auto simp: hit label_count_suffix)
  also have "\<dots> \<longleftrightarrow> (\<exists>s. within name s \<and> (CanonicalDomain s \<in> set known \<and> label_count s = m) \<and>
      (\<forall>t. within name t \<and> length s < length t \<longrightarrow> CanonicalDomain t \<notin> set known))"
    by (rule first_within_longest)
  finally show ?thesis .
qed

lemma match_suffix_None:
  assumes lib: "name_lib_ok lib {s. within name s}" and plain: "plain_name name"
  shows "match_suffix lib known (split_on (CHR ''.'') name) = None \<longleftrightarrow>
    (\<forall>s. within name s \<longrightarrow> CanonicalDomain s \<notin> set known)"
proof -
  have parse: "canonical_parse lib (label_suffix k name) = Inr (CanonicalDomain (label_suffix k name))"
    if "k < label_count name" for k
  proof (rule canonical_parse_plain [OF lib _ plain_name_suffix [OF plain that]])
    show "label_suffix k name \<in> {s. within name s}" using that by (auto simp: within_label_suffix)
  qed
  have "match_suffix lib known (split_on (CHR ''.'') name) = None \<longleftrightarrow>
      (\<forall>k < label_count name. \<not> suffix_hit lib known (label_suffix k name))"
    unfolding match_suffix_find label_count_def label_suffix_def by (auto simp: find_index_None)
  also have "\<dots> \<longleftrightarrow> (\<forall>s. within name s \<longrightarrow> CanonicalDomain s \<notin> set known)"
    unfolding within_label_suffix by (auto simp: suffix_hit_def parse)
  finally show ?thesis .
qed

section \<open>Properties\<close>

text \<open>
  Property C30: on a canonical name, an exact rule wins over every other rule, then the suffix rule
  with the longest suffix (reported with its number of labels), then the first keyword in set order
  that the name contains, then the first regular expression that accepts it; without any of them
  there is no match.
\<close>

theorem rule_matches_priority:
  assumes lib: "name_lib_ok lib {s. within (as_str name) s}" and plain: "plain_name (as_str name)"
  defines "n \<equiv> as_str name"
  shows "rule_matches lib idx name = (m :: rule_match option) \<longleftrightarrow>
    (if name \<in> set (ri_exact idx) then m = Some MatchExact
     else if \<exists>s. within n s \<and> CanonicalDomain s \<in> set (ri_suffix idx) then
       \<exists>s. within n s \<and> (CanonicalDomain s \<in> set (ri_suffix idx) \<and> m = Some (MatchSuffix (label_count s))) \<and>
         (\<forall>t. within n t \<and> length s < length t \<longrightarrow> CanonicalDomain t \<notin> set (ri_suffix idx))
     else if \<exists>k \<in> set (ri_keywords idx). sublist k n then
       \<exists>i < length (ri_keywords idx). sublist (ri_keywords idx ! i) n \<and> m = Some (MatchKeyword i) \<and>
         (\<forall>j < i. \<not> sublist (ri_keywords idx ! j) n)
     else if \<exists>r \<in> set (ri_regex idx). regex_accepts r (chars n) then
       \<exists>i < length (ri_regex idx). regex_accepts (ri_regex idx ! i) (chars n) \<and> m = Some (MatchRegex i) \<and>
         (\<forall>j < i. \<not> regex_accepts (ri_regex idx ! j) (chars n))
     else m = None)"
proof -
  note hit = match_suffix_longest [OF lib plain, of "ri_suffix idx"]
    and miss = match_suffix_None [OF lib plain, of "ri_suffix idx"]
  consider (exact) "name \<in> set (ri_exact idx)"
    | (suffix) c where "name \<notin> set (ri_exact idx)" "match_suffix lib (ri_suffix idx) (split_on (CHR ''.'') n) = Some c"
    | (rest) "name \<notin> set (ri_exact idx)" "match_suffix lib (ri_suffix idx) (split_on (CHR ''.'') n) = None"
    by (cases "match_suffix lib (ri_suffix idx) (split_on (CHR ''.'') n)") auto
  then show ?thesis
  proof cases
    case exact
    then show ?thesis by (auto simp: rule_matches_def)
  next
    case suffix
    then have run: "rule_matches lib idx name = Some (MatchSuffix c)" by (simp add: rule_matches_def n_def)
    have "\<exists>s. within n s \<and> CanonicalDomain s \<in> set (ri_suffix idx)"
      using suffix(2) hit [of c] unfolding n_def by blast
    moreover have "(\<exists>s. within n s \<and> (CanonicalDomain s \<in> set (ri_suffix idx) \<and> m = Some (MatchSuffix (label_count s))) \<and>
         (\<forall>t. within n t \<and> length s < length t \<longrightarrow> CanonicalDomain t \<notin> set (ri_suffix idx))) \<longleftrightarrow>
        (\<exists>c'. match_suffix lib (ri_suffix idx) (split_on (CHR ''.'') n) = Some c' \<and> m = Some (MatchSuffix c'))"
      unfolding n_def hit by blast
    ultimately show ?thesis using suffix run by auto
  next
    case rest
    then have none: "\<not> (\<exists>s. within n s \<and> CanonicalDomain s \<in> set (ri_suffix idx))"
      using miss unfolding n_def by blast
    have run: "rule_matches lib idx name =
        (case find_index (\<lambda>k. sublist k n) (ri_keywords idx) of
           Some i \<Rightarrow> Some (MatchKeyword i)
         | None \<Rightarrow> map_option MatchRegex (find_index (\<lambda>r. regex_accepts r (chars n)) (ri_regex idx)))"
      using rest unfolding rule_matches_def n_def is_match_iff_accepts by simp
    show ?thesis
      unfolding run find_index_found(2)
        find_index_found(1) [of "ri_keywords idx" "\<lambda>k. sublist k n" "\<lambda>i. m = Some (MatchKeyword i)"]
        find_index_found(1) [of "ri_regex idx" "\<lambda>r. regex_accepts r (chars n)" "\<lambda>i. m = Some (MatchRegex i)"]
      using rest(1) none by (auto split: option.splits)
  qed
qed

theorem rule_matches_priority_witness:
  "\<exists>s. within ''a.b.c'' s \<and> CanonicalDomain s \<in> {CanonicalDomain ''b.c'', CanonicalDomain ''c''} \<and>
     label_count s = 2"
proof -
  let ?idx = "RuleIndex [] [CanonicalDomain ''b.c'', CanonicalDomain ''c''] [''a''] [] [] 3 0"
  have "name_lib_ok text_name_lib {s. within ''a.b.c'' s}" by (rule text_name_lib_within) simp_all
  moreover have "plain_name ''a.b.c''" by code_simp
  moreover have "rule_matches text_name_lib ?idx (CanonicalDomain ''a.b.c'') = Some (MatchSuffix 2)" by code_simp
  ultimately show ?thesis
    using rule_matches_priority [of text_name_lib "CanonicalDomain ''a.b.c''" ?idx "Some (MatchSuffix 2)"]
    by (auto split: if_splits)
qed

end
