(* ===== verification/Dat_Reader.thy ===== *)
theory Dat_Reader
  imports Rule_Types
begin

text \<open>
  The bounded protobuf reader of \<open>backend/src/resource/rules.rs\<close> (\<open>DatReader\<close>): keys,
  base-128 varints on 64-bit words, length-delimited payloads and skipping of unknown fields.
  The reader is a byte list with a position; every operation returns the advanced reader.
  The lemmas show that varints decode what the wire format encodes, that no operation leaves
  the input or moves backwards, and that a field that is read back is the one written.
\<close>

record dat_reader =
  dat_input :: "byte list"
  dat_position :: nat

definition dat_new :: "byte list \<Rightarrow> dat_reader" where
  "dat_new bs = \<lparr>dat_input = bs, dat_position = 0\<rparr>"

abbreviation (input) WIRE_VARINT :: byte where "WIRE_VARINT \<equiv> 0"
abbreviation (input) WIRE_I64 :: byte where "WIRE_I64 \<equiv> 1"
abbreviation (input) WIRE_LEN_DELIM :: byte where "WIRE_LEN_DELIM \<equiv> 2"
abbreviation (input) WIRE_I32 :: byte where "WIRE_I32 \<equiv> 5"

section \<open>Operations\<close>

text \<open>\<open>read_varint\<close>: the loop over the shifts 0, 7, ..., 63.\<close>

fun read_varint_loop :: "nat list \<Rightarrow> dat_reader \<Rightarrow> 64 word \<Rightarrow> rule_parse_error + 64 word \<times> dat_reader" where
  "read_varint_loop [] r v = Inl InvalidDat"
| "read_varint_loop (shift # shifts) r v =
     and_then (ok_or InvalidDat (nth_opt (dat_input r) (dat_position r))) (\<lambda>b.
       let r' = r\<lparr>dat_position := dat_position r + 1\<rparr> in
       if shift = 63 \<and> 1 < b then Inl InvalidDat
       else
         let v' = v OR push_bit shift (ucast (b AND 0x7f)) in
         if b AND 0x80 = 0 then Inr (v', r') else read_varint_loop shifts r' v')"

definition varint_shifts :: "nat list" where
  "varint_shifts = [0, 7, 14, 21, 28, 35, 42, 49, 56, 63]"

definition read_varint :: "dat_reader \<Rightarrow> rule_parse_error + 64 word \<times> dat_reader" where
  "read_varint r = read_varint_loop varint_shifts r 0"

text \<open>\<open>read_key\<close>: field number (must fit 32 bits and not be zero) and wire type.\<close>

definition read_key :: "dat_reader \<Rightarrow> rule_parse_error + ((32 word \<times> byte) \<times> dat_reader) option" where
  "read_key r =
     (if dat_position r = length (dat_input r) then Inr None
      else and_then (read_varint r) (\<lambda>(key, r').
        let field = drop_bit 3 key; wire = key AND 7 in
        if u32_max < unat field then Inl InvalidDat
        else if field = 0 then Inl InvalidDat
        else Inr (Some ((ucast field, ucast wire), r'))))"

definition advance :: "dat_reader \<Rightarrow> nat \<Rightarrow> rule_parse_error + dat_reader" where
  "advance r n =
     and_then (ok_or InvalidDat (checked_add (dat_position r) n)) (\<lambda>stop.
       if length (dat_input r) < stop then Inl InvalidDat else Inr (r\<lparr>dat_position := stop\<rparr>))"

definition read_length_delimited :: "dat_reader \<Rightarrow> rule_parse_error + byte list \<times> dat_reader" where
  "read_length_delimited r =
     and_then (read_varint r) (\<lambda>(len, r').
       and_then (ok_or InvalidDat (checked_add (dat_position r') (unat len))) (\<lambda>stop.
         if length (dat_input r') < stop then Inl InvalidDat
         else Inr (take (stop - dat_position r') (drop (dat_position r') (dat_input r')),
                   r'\<lparr>dat_position := stop\<rparr>)))"

definition skip_field :: "dat_reader \<Rightarrow> byte \<Rightarrow> rule_parse_error + dat_reader" where
  "skip_field r wire =
     (if wire = WIRE_VARINT then and_then (read_varint r) (\<lambda>(_, r'). Inr r')
      else if wire = WIRE_I64 then advance r 8
      else if wire = WIRE_LEN_DELIM then and_then (read_length_delimited r) (\<lambda>(_, r'). Inr r')
      else if wire = WIRE_I32 then advance r 4
      else Inl InvalidDat)"

definition is_exhausted :: "dat_reader \<Rightarrow> bool" where
  "is_exhausted r \<longleftrightarrow> dat_position r = length (dat_input r)"

section \<open>Progress and bounds\<close>

text \<open>A later reader of the same input, not past its end.\<close>

definition advanced :: "dat_reader \<Rightarrow> dat_reader \<Rightarrow> bool" where
  "advanced r r' \<longleftrightarrow> dat_input r' = dat_input r \<and> dat_position r < dat_position r' \<and>
     dat_position r' \<le> length (dat_input r)"

lemma advanced_trans: "advanced r r' \<Longrightarrow> advanced r' r'' \<Longrightarrow> advanced r r''"
  by (auto simp: advanced_def)

lemma read_varint_loop_advanced:
  "read_varint_loop shifts r v = Inr (v', r') \<Longrightarrow> advanced r r'"
proof (induction shifts r v rule: read_varint_loop.induct)
  case (1 r v)
  then show ?case by simp
next
  case (2 shift shifts r v)
  from "2.prems" obtain b where b: "dat_position r < length (dat_input r)"
    "b = dat_input r ! dat_position r" by (auto simp: Let_def)
  let ?r = "r\<lparr>dat_position := dat_position r + 1\<rparr>"
  have one: "advanced r ?r" using b by (simp add: advanced_def)
  show ?case
  proof (cases "b AND 0x80 = 0")
    case True
    with "2.prems" b have "r' = ?r" by (auto simp: Let_def split: if_splits)
    with one show ?thesis by simp
  next
    case False
    with "2.prems" b obtain w where "read_varint_loop shifts ?r w = Inr (v', r')"
      by (auto simp: Let_def split: if_splits)
    with "2.IH" b False "2.prems" have "advanced ?r r'" by (auto simp: Let_def split: if_splits)
    with one show ?thesis by (rule advanced_trans)
  qed
qed

lemma read_varint_advanced: "read_varint r = Inr (v, r') \<Longrightarrow> advanced r r'"
  unfolding read_varint_def by (rule read_varint_loop_advanced)

lemma read_key_advanced: "read_key r = Inr (Some (k, r')) \<Longrightarrow> advanced r r'"
  by (auto simp: read_key_def Let_def split: if_splits dest: read_varint_advanced)

lemma read_key_None: "read_key r = Inr None \<longleftrightarrow> is_exhausted r"
  by (auto simp: read_key_def is_exhausted_def Let_def split: if_splits)

lemma read_length_delimited_advanced: "read_length_delimited r = Inr (p, r') \<Longrightarrow> advanced r r'"
  by (auto simp: read_length_delimited_def advanced_def split: if_splits dest!: read_varint_advanced)

lemma advance_advanced: "advance r n = Inr r' \<Longrightarrow> 0 < n \<Longrightarrow> advanced r r'"
  by (auto simp: advance_def advanced_def split: if_splits)

lemma skip_field_advanced: "skip_field r w = Inr r' \<Longrightarrow> advanced r r'"
  by (auto simp: skip_field_def split: if_splits
      dest!: read_varint_advanced read_length_delimited_advanced advance_advanced)

lemmas reader_advanced =
  read_varint_advanced read_key_advanced read_length_delimited_advanced skip_field_advanced

section \<open>Varints against the wire format\<close>

text \<open>The bytes of a base-128 group sequence: every byte but the last carries the continuation
  bit, and the low seven bits of the bytes are the digits, least significant first.\<close>

fun varint_shape :: "byte list \<Rightarrow> bool" where
  "varint_shape [] = False"
| "varint_shape [b] = (unat b < 128)"
| "varint_shape (b # bs) = (128 \<le> unat b \<and> varint_shape bs)"

fun varint_value :: "byte list \<Rightarrow> nat" where
  "varint_value [] = 0"
| "varint_value (b # bs) = unat b mod 128 + 128 * varint_value bs"

fun varint_bytes :: "nat \<Rightarrow> byte list" where
  "varint_bytes n = (if n < 128 then [of_nat n] else of_nat (n mod 128 + 128) # varint_bytes (n div 128))"

declare varint_bytes.simps [simp del]

lemma varint_shape_Cons:
  "varint_shape (b # bs) \<longleftrightarrow> (if bs = [] then unat b < 128 else 128 \<le> unat b \<and> varint_shape bs)"
  by (cases bs) auto

lemma continuation_bit: "(b AND 0x80 = 0) = (unat b < 128)" for b :: byte
proof -
  have "(b AND 0x80 = 0) = (\<not> bit b 7)"
    using and_exp_eq_0_iff_not_bit [of b 7] by simp
  also have "bit b 7 = bit (unat b) 7" by (simp add: bit_unsigned_iff)
  also have "\<dots> = odd (unat b div 128)" by (simp add: bit_iff_odd)
  also have "(\<not> odd (unat b div 128)) = (unat b < 128)"
    using unsigned_less [where ?'a = nat and w = b] by (auto simp: div_if)
  finally show ?thesis .
qed

lemma low_seven_bits: "(ucast (b AND 0x7f) :: 64 word) = of_nat (unat b mod 128)" for b :: byte
proof -
  have "b AND 0x7f = take_bit 7 b" by (simp add: take_bit_eq_mask mask_eq_exp_minus_1)
  then have "unat (b AND 0x7f) = take_bit 7 (unat b)" by (simp only: unsigned_take_bit_eq)
  then have "unat (b AND 0x7f) = unat b mod 128" by (simp add: take_bit_eq_mod)
  then show ?thesis by (metis of_nat_unat)
qed

lemma or_push_bit_of_nat:
  fixes a m s :: nat
  assumes "a < 2 ^ s"
  shows "(of_nat a OR push_bit s (of_nat m) :: 64 word) = of_nat (a + m * 2 ^ s)"
proof -
  have "take_bit s a AND push_bit s m = 0"
    by (rule bit_eqI) (simp add: bit_and_iff bit_take_bit_iff bit_push_bit_iff)
  then have "a AND push_bit s m = 0" using assms by (simp add: take_bit_nat_eq_self)
  then have "a OR push_bit s m = a + push_bit s m" by (simp add: disjunctive_add_eq_or)
  then show ?thesis
    by (metis of_nat_or_eq of_nat_push_bit push_bit_eq_mult)
qed

lemma varint_step_bound:
  fixes a :: nat
  assumes "a < 2 ^ s"
  shows "a + d mod 128 * 2 ^ s < 2 ^ (s + 7)"
proof -
  have "d mod 128 \<le> 127" using mod_less_divisor [of 128 d] by linarith
  then have "d mod 128 * 2 ^ s \<le> 127 * 2 ^ s" by (rule mult_le_mono1)
  with assms have "a + d mod 128 * 2 ^ s < 128 * 2 ^ s" by linarith
  then show ?thesis by (simp add: power_add)
qed

lemma varint_shifts_alt: "varint_shifts = map ((*) 7) [0..<10]"
  by (simp add: varint_shifts_def upt_rec)

text \<open>One round of the loop on an accumulator that holds the digits read so far.\<close>

lemma read_varint_loop_round:
  assumes "k < 10" "a < 2 ^ (7 * k)" "dat_position r < length (dat_input r)"
    and "b = dat_input r ! dat_position r"
  shows "read_varint_loop (map ((*) 7) [k..<10]) r (of_nat a) =
    (if k = 9 \<and> 1 < unat b then Inl InvalidDat
     else if unat b < 128 then Inr (of_nat (a + unat b mod 128 * 2 ^ (7 * k)), r\<lparr>dat_position := dat_position r + 1\<rparr>)
     else read_varint_loop (map ((*) 7) [Suc k..<10]) (r\<lparr>dat_position := dat_position r + 1\<rparr>)
            (of_nat (a + unat b mod 128 * 2 ^ (7 * k))))"
proof -
  have upt: "[k..<10] = k # [Suc k..<10]" using assms(1) by (simp add: upt_conv_Cons)
  have at: "nth_opt (dat_input r) (dat_position r) = Some b" using assms(3,4) by simp
  have nine: "(7 * k = 63 \<and> 1 < b) = (k = 9 \<and> 1 < unat b)"
    by (auto simp: word_less_nat_alt)
  show ?thesis
    unfolding upt list.map read_varint_loop.simps at Let_def low_seven_bits continuation_bit
      or_push_bit_of_nat [OF assms(2)] nine
    by (simp add: word_less_nat_alt)
qed

lemma read_varint_loop_sound:
  assumes "k \<le> 10" "a < 2 ^ (7 * k)"
    and "read_varint_loop (map ((*) 7) [k..<10]) r (of_nat a) = Inr (v, r')"
  shows "\<exists>bs rest. drop (dat_position r) (dat_input r) = bs @ rest \<and> varint_shape bs \<and>
    length bs \<le> 10 - k \<and> a + varint_value bs * 2 ^ (7 * k) < 2 ^ 64 \<and>
    v = of_nat (a + varint_value bs * 2 ^ (7 * k)) \<and>
    r' = r\<lparr>dat_position := dat_position r + length bs\<rparr>"
  using assms
proof (induction "10 - k" arbitrary: k a r)
  case 0
  then show ?case by simp
next
  case (Suc n)
  then have k: "k < 10" by simp
  with Suc.prems(3) have pos: "dat_position r < length (dat_input r)"
    by (auto simp: upt_conv_Cons Let_def)
  define b where "b = dat_input r ! dat_position r"
  have split: "drop (dat_position r) (dat_input r) = b # drop (Suc (dat_position r)) (dat_input r)"
    using pos by (simp add: b_def Cons_nth_drop_Suc)
  note round = read_varint_loop_round [OF k Suc.prems(2) pos b_def]
  have bound: "a + unat b mod 128 * 2 ^ (7 * k) < 2 ^ (7 * Suc k)"
    using varint_step_bound [OF Suc.prems(2), of "unat b"] by (simp add: add.commute)
  show ?case
  proof (cases "unat b < 128")
    case True
    with Suc.prems(3) have "\<not> (k = 9 \<and> 1 < unat b)"
      and v: "v = of_nat (a + unat b mod 128 * 2 ^ (7 * k))"
      and r': "r' = r\<lparr>dat_position := dat_position r + 1\<rparr>"
      unfolding round by (auto split: if_splits)
    have "a + unat b mod 128 * 2 ^ (7 * k) < 2 ^ 64"
    proof (cases "k = 9")
      case True
      with \<open>\<not> (k = 9 \<and> 1 < unat b)\<close> have "unat b mod 128 * 2 ^ (7 * k) \<le> 1 * 2 ^ 63" by auto
      moreover have "a < 2 ^ 63" using Suc.prems(2) True by simp
      ultimately show ?thesis by simp
    next
      case False
      with k have "7 * Suc k \<le> 63" by simp
      then have "(2::nat) ^ (7 * Suc k) \<le> 2 ^ 63" by (rule power_increasing) simp
      with bound show ?thesis by simp
    qed
    with True k v r' split show ?thesis
      by (intro exI [of _ "[b]"] exI [of _ "drop (Suc (dat_position r)) (dat_input r)"]) simp
  next
    case False
    then have "k \<noteq> 9" and rest: "read_varint_loop (map ((*) 7) [Suc k..<10]) (r\<lparr>dat_position := dat_position r + 1\<rparr>)
            (of_nat (a + unat b mod 128 * 2 ^ (7 * k))) = Inr (v, r')"
      using Suc.prems(3) unfolding round by (auto split: if_splits)
    have "n = 10 - Suc k" "Suc k \<le> 10" using Suc(2) k by simp_all
    from Suc.hyps(1) [OF this bound rest] obtain bs tl where
      "drop (Suc (dat_position r)) (dat_input r) = bs @ tl" "varint_shape bs" "length bs \<le> 10 - Suc k"
      "a + varint_value (b # bs) * 2 ^ (7 * k) < 2 ^ 64"
      "v = of_nat (a + varint_value (b # bs) * 2 ^ (7 * k))"
      "r' = r\<lparr>dat_position := dat_position r + length (b # bs)\<rparr>"
      by (auto simp: power_add algebra_simps)
    with split False k show ?thesis
      by (intro exI [of _ "b # bs"] exI [of _ tl]) (auto simp: varint_shape_Cons)
  qed
qed

lemma read_varint_loop_complete:
  assumes "varint_shape bs" "length bs + k \<le> 10" "a < 2 ^ (7 * k)"
    and "a + varint_value bs * 2 ^ (7 * k) < 2 ^ 64"
    and "drop (dat_position r) (dat_input r) = bs @ rest"
  shows "read_varint_loop (map ((*) 7) [k..<10]) r (of_nat a) =
    Inr (of_nat (a + varint_value bs * 2 ^ (7 * k)), r\<lparr>dat_position := dat_position r + length bs\<rparr>)"
  using assms
proof (induction bs arbitrary: k a r)
  case Nil
  then show ?case by simp
next
  case (Cons b bs)
  then have k: "k < 10" by simp
  have pos: "dat_position r < length (dat_input r)"
    using Cons.prems(5) by (metis append_Cons drop_all list.distinct(1) not_le)
  have b: "b = dat_input r ! dat_position r"
    and rest: "drop (Suc (dat_position r)) (dat_input r) = bs @ rest"
    using Cons.prems(5) pos by (auto simp: Cons_nth_drop_Suc [symmetric])
  note round = read_varint_loop_round [OF k Cons.prems(3) pos b]
  have bound: "a + unat b mod 128 * 2 ^ (7 * k) < 2 ^ (7 * Suc k)"
    using varint_step_bound [OF Cons.prems(3), of "unat b"] by (simp add: add.commute)
  show ?case
  proof (cases "bs = []")
    case True
    then have small: "unat b < 128" using Cons.prems(1) by simp
    have "\<not> (k = 9 \<and> 1 < unat b)"
    proof
      assume nine: "k = 9 \<and> 1 < unat b"
      with True small Cons.prems(4) have "unat b * 2 ^ 63 < 2 ^ 64" by simp
      moreover have "(2::nat) * 2 ^ 63 \<le> unat b * 2 ^ 63" using nine by (intro mult_le_mono1) simp
      ultimately show False by simp
    qed
    with True small show ?thesis unfolding round by simp
  next
    case False
    then have big: "128 \<le> unat b" "varint_shape bs" using Cons.prems(1) by (auto simp: varint_shape_Cons)
    have "k \<noteq> 9" using Cons.prems(2) False by (cases bs) auto
    moreover have sum: "a + unat b mod 128 * 2 ^ (7 * k) + varint_value bs * 2 ^ (7 * Suc k) =
        a + varint_value (b # bs) * 2 ^ (7 * k)"
      by (simp add: power_add algebra_simps)
    have "read_varint_loop (map ((*) 7) [Suc k..<10]) (r\<lparr>dat_position := dat_position r + 1\<rparr>)
        (of_nat (a + unat b mod 128 * 2 ^ (7 * k))) =
      Inr (of_nat (a + varint_value (b # bs) * 2 ^ (7 * k)),
           r\<lparr>dat_position := dat_position r + length (b # bs)\<rparr>)"
      using Cons.IH [OF big(2) _ bound, of "r\<lparr>dat_position := dat_position r + 1\<rparr>"]
        Cons.prems(2,4) rest unfolding sum by simp
    ultimately show ?thesis
      using big(1) unfolding round by (simp del: of_nat_add of_nat_mult varint_value.simps)
  qed
qed

lemma read_varint_iff:
  "read_varint r = Inr (v, r') \<longleftrightarrow>
   (\<exists>bs rest. drop (dat_position r) (dat_input r) = bs @ rest \<and> varint_shape bs \<and> length bs \<le> 10 \<and>
      varint_value bs < 2 ^ 64 \<and> v = of_nat (varint_value bs) \<and>
      r' = r\<lparr>dat_position := dat_position r + length bs\<rparr>)"
  (is "?lhs \<longleftrightarrow> ?rhs")
proof
  assume ?lhs
  then show ?rhs
    using read_varint_loop_sound [of 0 0 r v r'] unfolding read_varint_def varint_shifts_alt by simp
next
  assume ?rhs
  then show ?lhs
    using read_varint_loop_complete [of _ 0 0 r] unfolding read_varint_def varint_shifts_alt by auto
qed

text \<open>The minimal encoding of a 64-bit value.\<close>

lemma unat_byte_of_nat: "n < 256 \<Longrightarrow> unat (of_nat n :: byte) = n"
  by (simp add: unat_of_nat)

lemma varint_bytes_wf: "varint_shape (varint_bytes n) \<and> varint_value (varint_bytes n) = n"
proof (induction n rule: varint_bytes.induct)
  case (1 n)
  have "varint_bytes (n div 128) \<noteq> []" by (subst varint_bytes.simps) simp
  then show ?case
    using 1 unat_byte_of_nat [of n] unat_byte_of_nat [of "n mod 128 + 128"]
    unfolding varint_bytes.simps [of n] by (simp add: varint_shape_Cons)
qed

lemma varint_bytes_length: "n < 2 ^ (7 * Suc k) \<Longrightarrow> length (varint_bytes n) \<le> Suc k"
proof (induction k arbitrary: n)
  case 0
  then show ?case by (subst varint_bytes.simps) simp
next
  case (Suc k)
  have "n div 128 < 2 ^ (7 * Suc k)" using Suc.prems by (simp add: less_mult_imp_div_less power_add)
  with Suc.IH show ?case by (subst varint_bytes.simps) auto
qed

lemma read_varint_bytes:
  assumes "drop (dat_position r) (dat_input r) = varint_bytes (unat v) @ rest"
  shows "read_varint r = Inr (v, r\<lparr>dat_position := dat_position r + length (varint_bytes (unat v))\<rparr>)"
proof -
  have "unat v < 2 ^ 64" using unsigned_less [where ?'a = nat and w = v] by simp
  moreover from this have "unat v < 2 ^ (7 * Suc 9)" by simp
  then have "length (varint_bytes (unat v)) \<le> 10" using varint_bytes_length [of "unat v" 9] by simp
  ultimately show ?thesis
    using assms varint_bytes_wf [of "unat v"] unfolding read_varint_iff
    by (intro exI [of _ "varint_bytes (unat v)"] exI [of _ rest]) simp
qed

section \<open>Reading what the wire format writes\<close>

definition remaining :: "dat_reader \<Rightarrow> byte list" where
  "remaining r = drop (dat_position r) (dat_input r)"

definition skip_bytes :: "dat_reader \<Rightarrow> nat \<Rightarrow> dat_reader" where
  "skip_bytes r n = r\<lparr>dat_position := dat_position r + n\<rparr>"

definition key_bytes :: "nat \<Rightarrow> nat \<Rightarrow> byte list" where
  "key_bytes field wire = varint_bytes (field * 8 + wire)"

definition delimited_bytes :: "byte list \<Rightarrow> byte list" where
  "delimited_bytes p = varint_bytes (length p) @ p"

lemma remaining_new [simp]: "remaining (dat_new bs) = bs"
  by (simp add: remaining_def dat_new_def)

lemma dat_new_sel [simp]: "dat_input (dat_new bs) = bs" "dat_position (dat_new bs) = 0"
  by (simp_all add: dat_new_def)

lemma dat_input_skip [simp]: "dat_input (skip_bytes r n) = dat_input r"
  by (simp add: skip_bytes_def)

lemma remaining_skip: "remaining r = bs @ rest \<Longrightarrow> remaining (skip_bytes r (length bs)) = rest"
  by (simp add: remaining_def skip_bytes_def) (metis append_eq_conv_conj drop_drop add.commute)

lemma skip_bytes_skip [simp]: "skip_bytes (skip_bytes r m) n = skip_bytes r (m + n)"
  by (simp add: skip_bytes_def)

lemma remaining_length: "remaining r = bs @ rest \<Longrightarrow> bs \<noteq> [] \<Longrightarrow>
    dat_position r + length bs \<le> length (dat_input r)"
  unfolding remaining_def by (metis add.commute drop_eq_Nil le_add1 length_append length_drop
      less_diff_conv2 nat_le_linear not_le append_is_Nil_conv ordered_cancel_comm_monoid_diff_class.le_diff_conv2)

lemma varint_bytes_ne [simp]: "varint_bytes n \<noteq> []"
  by (subst varint_bytes.simps) simp

lemma read_varint_remaining:
  assumes "remaining r = varint_bytes n @ rest" "n < 2 ^ 64"
  shows "read_varint r = Inr (of_nat n, skip_bytes r (length (varint_bytes n)))"
proof -
  have "unat (of_nat n :: 64 word) = n" using assms(2) by (simp add: unat_of_nat)
  with assms show ?thesis
    using read_varint_bytes [of r "of_nat n" rest] by (simp add: remaining_def skip_bytes_def)
qed

lemma key_field: "n < 2 ^ 64 \<Longrightarrow> unat (drop_bit 3 (of_nat n :: 64 word)) = n div 8"
  by (simp add: unat_drop_bit_eq unat_of_nat flip: drop_bit_eq_div) (simp add: drop_bit_eq_div)

lemma key_wire:
  assumes "n < 2 ^ 64"
  shows "unat ((of_nat n :: 64 word) AND 7) = n mod 8"
proof -
  have "(of_nat n :: 64 word) AND 7 = take_bit 3 (of_nat n)"
    by (simp add: take_bit_eq_mask mask_eq_exp_minus_1)
  then have "unat ((of_nat n :: 64 word) AND 7) = take_bit 3 (unat (of_nat n :: 64 word))"
    by (simp only: unsigned_take_bit_eq)
  with assms show ?thesis by (simp add: take_bit_eq_mod unat_of_nat)
qed

lemma read_key_remaining:
  assumes rem: "remaining r = key_bytes field wire @ rest"
    and field: "0 < field" "field \<le> u32_max" and wire: "wire < 8"
  shows "read_key r = Inr (Some ((of_nat field, of_nat wire), skip_bytes r (length (key_bytes field wire))))"
proof -
  let ?n = "field * 8 + wire"
  have n: "?n < 2 ^ 64" using field wire by (simp add: u32_max_def)
  have div: "unat (drop_bit 3 (of_nat ?n :: 64 word)) = field"
    and md: "unat ((of_nat ?n :: 64 word) AND 7) = wire"
    using key_field [OF n] key_wire [OF n] wire by simp_all
  have "drop_bit 3 (of_nat ?n :: 64 word) = of_nat field" "(of_nat ?n :: 64 word) AND 7 = of_nat wire"
    using div md by (metis of_nat_unat ucast_id)+
  moreover have "(of_nat field :: 64 word) \<noteq> 0" using div calculation(1) field(1) by auto
  moreover have "ucast (of_nat field :: 64 word) = (of_nat field :: 32 word)"
    "ucast (of_nat wire :: 64 word) = (of_nat wire :: byte)"
    using div md calculation by (metis of_nat_unat)+
  moreover have "dat_position r \<noteq> length (dat_input r)"
    using rem by (auto simp: remaining_def key_bytes_def)
  moreover have "unat (of_nat field :: 64 word) \<le> u32_max" using div calculation(1) field(2) by simp
  ultimately show ?thesis
    using read_varint_remaining [OF rem [unfolded key_bytes_def] n]
    by (simp add: read_key_def key_bytes_def not_less del: of_nat_add of_nat_mult)
qed

lemma read_length_delimited_remaining:
  assumes rem: "remaining r = delimited_bytes p @ rest" and fits: "length (dat_input r) \<le> u64_max"
  shows "read_length_delimited r = Inr (p, skip_bytes r (length (delimited_bytes p)))"
proof -
  let ?v = "varint_bytes (length p)"
  have total: "dat_position r + (length ?v + length p) \<le> length (dat_input r)"
    using remaining_length [OF rem] by (simp add: delimited_bytes_def)
  then have len: "length p < 2 ^ 64" using fits by (simp add: u64_max_def)
  then have unat: "unat (of_nat (length p) :: 64 word) = length p" by (simp add: unat_of_nat)
  have "drop (dat_position r + length ?v) (dat_input r) = p @ rest"
    using rem remaining_skip [of r ?v "p @ rest"] by (simp add: delimited_bytes_def remaining_def skip_bytes_def)
  moreover have "read_varint r = Inr (of_nat (length p), skip_bytes r (length ?v))"
    using read_varint_remaining [of r "length p" "p @ rest"] rem len by (simp add: delimited_bytes_def)
  ultimately show ?thesis
    using total fits
    by (simp add: read_length_delimited_def unat skip_bytes_def delimited_bytes_def checked_add_def)
qed

lemma read_key_end: "remaining r = [] \<Longrightarrow> dat_position r \<le> length (dat_input r) \<Longrightarrow> read_key r = Inr None"
  by (simp add: read_key_def remaining_def)

text \<open>One step over a key and its payload.\<close>

lemma read_delimited_field:
  assumes "remaining r = key_bytes field 2 @ delimited_bytes p @ rest"
    and "0 < field" "field \<le> u32_max" "length (dat_input r) \<le> u64_max"
  obtains r1 r2 where "read_key r = Inr (Some ((of_nat field, WIRE_LEN_DELIM), r1))"
    "read_length_delimited r1 = Inr (p, r2)" "remaining r2 = rest" "dat_input r2 = dat_input r"
    "dat_position r2 \<le> length (dat_input r2)"
proof
  let ?r1 = "skip_bytes r (length (key_bytes field 2))"
  let ?r2 = "skip_bytes ?r1 (length (delimited_bytes p))"
  have rem1: "remaining ?r1 = delimited_bytes p @ rest" using remaining_skip [OF assms(1)] by simp
  show "read_key r = Inr (Some ((of_nat field, WIRE_LEN_DELIM), ?r1))"
    using read_key_remaining [of r field 2 "delimited_bytes p @ rest"] assms by simp
  show run: "read_length_delimited ?r1 = Inr (p, ?r2)"
    using read_length_delimited_remaining [OF rem1] assms(4) by simp
  show "remaining ?r2 = rest" using remaining_skip [OF rem1] .
  show "dat_position ?r2 \<le> length (dat_input ?r2)"
    using read_length_delimited_advanced [OF run] by (simp add: advanced_def)
qed simp_all

lemma read_varint_field:
  assumes "remaining r = key_bytes field 0 @ varint_bytes n @ rest"
    and "0 < field" "field \<le> u32_max" "n < 2 ^ 64"
  obtains r1 r2 where "read_key r = Inr (Some ((of_nat field, WIRE_VARINT), r1))"
    "read_varint r1 = Inr (of_nat n, r2)" "remaining r2 = rest" "dat_input r2 = dat_input r"
proof
  let ?r1 = "skip_bytes r (length (key_bytes field 0))"
  let ?r2 = "skip_bytes ?r1 (length (varint_bytes n))"
  have rem1: "remaining ?r1 = varint_bytes n @ rest" using remaining_skip [OF assms(1)] by simp
  show "read_key r = Inr (Some ((of_nat field, WIRE_VARINT), ?r1))"
    using read_key_remaining [of r field 0 "varint_bytes n @ rest"] assms by simp
  show "read_varint ?r1 = Inr (of_nat n, ?r2)" using read_varint_remaining [OF rem1 assms(4)] .
  show "remaining ?r2 = rest" using remaining_skip [OF rem1] .
qed simp_all

section \<open>Properties\<close>

text \<open>
  Property C31: \<open>read_varint\<close> succeeds exactly on a base-128 sequence of at most ten bytes (every byte
  but the last with the continuation bit) whose value fits 64 bits; it returns that value and stops
  right after the sequence.
\<close>

theorem read_varint_decodes:
  "read_varint r = Inr (v, r') \<longleftrightarrow>
   (\<exists>bs rest. drop (dat_position r) (dat_input r) = bs @ rest \<and> varint_shape bs \<and> length bs \<le> 10 \<and>
      varint_value bs < 2 ^ 64 \<and> v = of_nat (varint_value bs) \<and>
      r' = r\<lparr>dat_position := dat_position r + length bs\<rparr>)"
  by (rule read_varint_iff)

end
