(* ===== verification/Rule_Parse.thy ===== *)
theory Rule_Parse
  imports Rule_Index Dat_Reader
begin

text \<open>
  The rule-set parsers of \<open>backend/src/resource/rules.rs\<close>: JSON (legacy and sing-box source), Clash
  lines and the geosite \<open>dat\<close> protobuf. The JSON decoder (serde) is a parameter that returns the
  decoded document. The lemmas show that every parser establishes the invariant of the index with
  its limits, that the \<open>dat\<close> loops end, and that an encoded domain is read back.
\<close>

datatype json_values = One string | Many "string list"

record json_rule_fields =
  json_domain :: "json_values option"
  json_domain_suffix :: "json_values option"
  json_domain_keyword :: "json_values option"
  json_domain_regex :: "json_values option"

record sing_box_rule_document =
  sb_version :: "8 word"
  sb_rules :: "json_rule_fields list"

datatype json_rule_document = Legacy json_rule_fields | SingBox sing_box_rule_document

record dat_domain =
  dat_kind :: "64 word"
  dat_value :: string

record dat_site =
  site_selector :: string
  site_index :: rule_index

section \<open>JSON\<close>

fun into_values :: "json_values \<Rightarrow> string list" where
  "into_values (One value) = [value]"
| "into_values (Many vals) = vals"

definition has_supported_field :: "json_rule_fields \<Rightarrow> bool" where
  "has_supported_field f \<longleftrightarrow>
     json_domain f \<noteq> None \<or> json_domain_suffix f \<noteq> None \<or> json_domain_keyword f \<noteq> None \<or> json_domain_regex f \<noteq> None"

text \<open>\<open>for value in values { add(value)? }\<close>.\<close>

fun add_each :: "(rule_index \<Rightarrow> 'a \<Rightarrow> rule_parse_error + rule_index) \<Rightarrow> 'a list \<Rightarrow> rule_index \<Rightarrow> rule_parse_error + rule_index" where
  "add_each add [] idx = Inr idx"
| "add_each add (x # xs) idx = and_then (add idx x) (\<lambda>idx'. add_each add xs idx')"

definition field_values :: "json_values option \<Rightarrow> string list" where
  "field_values f = (case f of None \<Rightarrow> [] | Some v \<Rightarrow> into_values v)"

definition add_json_fields ::
  "'n name_lib \<Rightarrow> rule_index \<Rightarrow> json_rule_fields \<Rightarrow> rule_limits \<Rightarrow> rule_parse_error + rule_index" where
  "add_json_fields lib idx fs limits =
     and_then (add_each (\<lambda>i v. add_domain lib i KindExact v 0 limits) (field_values (json_domain fs)) idx) (\<lambda>idx1.
     and_then (add_each (\<lambda>i v. add_domain lib i KindSuffix v 0 limits) (field_values (json_domain_suffix fs)) idx1) (\<lambda>idx2.
     and_then (add_each (\<lambda>i v. add_keyword i v limits) (field_values (json_domain_keyword fs)) idx2) (\<lambda>idx3.
     add_each (\<lambda>i v. add_regex i v 0 limits) (field_values (json_domain_regex fs)) idx3)))"

definition parse_json_with_limits ::
  "'n name_lib \<Rightarrow> (string \<Rightarrow> json_rule_document option) \<Rightarrow> string \<Rightarrow> rule_limits \<Rightarrow> rule_parse_error + rule_index" where
  "parse_json_with_limits lib json_from_str input limits =
     (if max_input_bytes limits < length input then Inl InputTooLarge
      else and_then (ok_or InvalidJson (json_from_str input)) (\<lambda>document.
        case document of
          Legacy fs \<Rightarrow>
            if \<not> has_supported_field fs then Inl MissingRuleField
            else add_json_fields lib rule_index_empty fs limits
        | SingBox doc \<Rightarrow>
            if \<not> (1 \<le> sb_version doc \<and> sb_version doc \<le> 5) then Inl UnsupportedSingBoxVersion
            else and_then (add_each (\<lambda>i fs. add_json_fields lib i fs limits) (sb_rules doc) rule_index_empty)
              (\<lambda>idx. if ri_rule_count idx = 0 then Inl MissingRuleField else Inr idx)))"

section \<open>Clash\<close>

definition clash_content :: "string \<Rightarrow> string" where
  "clash_content raw_line =
     trim (case split_once (CHR ''#'') raw_line of None \<Rightarrow> raw_line | Some (content, _) \<Rightarrow> content)"

definition parse_clash_line ::
  "'n name_lib \<Rightarrow> rule_limits \<Rightarrow> nat \<Rightarrow> string \<Rightarrow> rule_index \<Rightarrow> rule_parse_error + rule_index" where
  "parse_clash_line lib limits line raw_line idx =
     (if max_rule_bytes limits < length raw_line then Inl (RuleTooLong line)
      else
        let content = clash_content raw_line in
        if content = [] then Inr idx
        else
          let fs = map trim (split_on (CHR '','') content) in
          if length fs \<noteq> 2 \<or> list_ex (\<lambda>field. field = []) fs then Inl (InvalidFieldCount line)
          else
            let kind = to_ascii_uppercase (fs ! 0) in
            if kind = ''DOMAIN'' then add_domain lib idx KindExact (fs ! 1) line limits
            else if kind = ''DOMAIN-SUFFIX'' then add_domain lib idx KindSuffix (fs ! 1) line limits
            else if kind = ''DOMAIN-REGEX'' then add_regex idx (fs ! 1) line limits
            else Inl (UnknownRuleType line))"

fun parse_clash_lines ::
  "'n name_lib \<Rightarrow> rule_limits \<Rightarrow> nat \<Rightarrow> string list \<Rightarrow> rule_index \<Rightarrow> rule_parse_error + rule_index" where
  "parse_clash_lines lib limits line_index [] idx = Inr idx"
| "parse_clash_lines lib limits line_index (raw_line # raw_lines) idx =
     and_then (parse_clash_line lib limits (line_index + 1) raw_line idx) (\<lambda>idx'.
       parse_clash_lines lib limits (line_index + 1) raw_lines idx')"

definition parse_clash_with_limits :: "'n name_lib \<Rightarrow> string \<Rightarrow> rule_limits \<Rightarrow> rule_parse_error + rule_index" where
  "parse_clash_with_limits lib input limits =
     (if max_input_bytes limits < length input then Inl InputTooLarge
      else parse_clash_lines lib limits 0 (lines input) rule_index_empty)"

section \<open>Dat\<close>

lemma advanced_measure:
  "advanced r r' \<Longrightarrow> length (dat_input r') - dat_position r' < length (dat_input r) - dat_position r"
  by (auto simp: advanced_def)

function parse_dat_domain_loop ::
  "dat_reader \<Rightarrow> 64 word \<Rightarrow> string option \<Rightarrow> rule_parse_error + 64 word \<times> string option" where
  "parse_dat_domain_loop r kind value =
     and_then (read_key r) (\<lambda>key. case key of
         None \<Rightarrow> Inr (kind, value)
       | Some ((field, wire), r1) \<Rightarrow>
           if field = 1 \<and> wire = WIRE_VARINT then
             and_then (read_varint r1) (\<lambda>(kind', r2). parse_dat_domain_loop r2 kind' value)
           else if field = 2 \<and> wire = WIRE_LEN_DELIM then
             if value \<noteq> None then Inl InvalidDat
             else and_then (read_length_delimited r1) (\<lambda>(payload, r2).
               and_then (ok_or InvalidDat (from_utf8 payload)) (\<lambda>text.
                 parse_dat_domain_loop r2 kind (Some text)))
           else and_then (skip_field r1 wire) (\<lambda>r2. parse_dat_domain_loop r2 kind value))"
  by pat_completeness auto
termination
  by (relation "measure (\<lambda>(r, _, _). length (dat_input r) - dat_position r)")
    (auto dest!: reader_advanced intro: advanced_measure advanced_trans)

definition parse_dat_domain :: "byte list \<Rightarrow> rule_parse_error + dat_domain" where
  "parse_dat_domain payload =
     and_then (parse_dat_domain_loop (dat_new payload) 0 None) (\<lambda>(kind, value).
       and_then (ok_or InvalidDat value) (\<lambda>text. Inr \<lparr>dat_kind = kind, dat_value = text\<rparr>))"

function parse_dat_site_loop ::
  "dat_reader \<Rightarrow> string option \<Rightarrow> dat_domain list \<Rightarrow> rule_parse_error + string option \<times> dat_domain list" where
  "parse_dat_site_loop r selector domains =
     and_then (read_key r) (\<lambda>key. case key of
         None \<Rightarrow> Inr (selector, domains)
       | Some ((field, wire), r1) \<Rightarrow>
           if field = 1 \<and> wire = WIRE_LEN_DELIM then
             if selector \<noteq> None then Inl InvalidDat
             else and_then (read_length_delimited r1) (\<lambda>(payload, r2).
               and_then (ok_or InvalidDat (from_utf8 payload)) (\<lambda>text.
                 parse_dat_site_loop r2 (Some text) domains))
           else if field = 2 \<and> wire = WIRE_LEN_DELIM then
             and_then (read_length_delimited r1) (\<lambda>(payload, r2).
               and_then (parse_dat_domain payload) (\<lambda>domain.
                 parse_dat_site_loop r2 selector (domains @ [domain])))
           else and_then (skip_field r1 wire) (\<lambda>r2. parse_dat_site_loop r2 selector domains))"
  by pat_completeness auto
termination
  by (relation "measure (\<lambda>(r, _, _). length (dat_input r) - dat_position r)")
    (auto dest!: reader_advanced intro: advanced_measure advanced_trans)

declare parse_dat_domain_loop.simps [simp del] parse_dat_site_loop.simps [simp del]

definition skip_unsupported :: "rule_index \<Rightarrow> rule_index" where
  "skip_unsupported idx =
     (case idx of RuleIndex e s k r sel n sk \<Rightarrow> RuleIndex e s k r sel n (sk + 1))"

definition add_dat_domain ::
  "'n name_lib \<Rightarrow> rule_limits \<Rightarrow> rule_index \<Rightarrow> dat_domain \<Rightarrow> rule_parse_error + rule_index" where
  "add_dat_domain lib limits idx d =
     (if dat_kind d = 0 then add_keyword idx (dat_value d) limits
      else if dat_kind d = 1 then
        (case add_regex idx (dat_value d) 0 limits of
           Inr idx' \<Rightarrow> Inr idx'
         | Inl (UnsupportedRegex _) \<Rightarrow> Inr (skip_unsupported idx)
         | Inl e \<Rightarrow> Inl e)
      else if dat_kind d = 2 then add_domain lib idx KindSuffix (dat_value d) 0 limits
      else if dat_kind d = 3 then add_domain lib idx KindExact (dat_value d) 0 limits
      else Inl UnsupportedDatDomainType)"

definition parse_dat_site :: "'n name_lib \<Rightarrow> byte list \<Rightarrow> rule_limits \<Rightarrow> rule_parse_error + dat_site" where
  "parse_dat_site lib payload limits =
     and_then (parse_dat_site_loop (dat_new payload) None []) (\<lambda>(selector, domains).
       and_then (ok_or InvalidDat selector) (\<lambda>selector.
         and_then (add_each (add_dat_domain lib limits) domains rule_index_empty) (\<lambda>idx.
           Inr \<lparr>site_selector = selector, site_index = idx\<rparr>)))"

definition total_rules :: "(string \<times> rule_index) list \<Rightarrow> nat" where
  "total_rules selectors = sum_list (map (\<lambda>(_, idx). ri_rule_count idx) selectors)"

definition add_dat_site ::
  "rule_limits \<Rightarrow> dat_site \<Rightarrow> (string \<times> rule_index) list \<Rightarrow> nat \<Rightarrow>
     rule_parse_error + (string \<times> rule_index) list \<times> nat" where
  "add_dat_site limits site selectors skipped =
     and_then (normalize_dat_selector (site_selector site) limits) (\<lambda>selector.
       if map_of selectors selector \<noteq> None then Inl InvalidDatSelector
       else if max_selectors limits \<le> length selectors then Inl TooManySelectors
       else and_then (ok_or TooManyRules
           (checked_add (total_rules selectors) (ri_rule_count (site_index site)))) (\<lambda>total.
         if max_rules limits < total then Inl TooManyRules
         else Inr (AList.update selector (site_index site) selectors,
                   skipped + ri_skipped (site_index site))))"

function parse_dat_loop ::
  "'n name_lib \<Rightarrow> rule_limits \<Rightarrow> dat_reader \<Rightarrow> (string \<times> rule_index) list \<Rightarrow> nat \<Rightarrow>
     rule_parse_error + (string \<times> rule_index) list \<times> nat \<times> dat_reader" where
  "parse_dat_loop lib limits r selectors skipped =
     and_then (read_key r) (\<lambda>key. case key of
         None \<Rightarrow> Inr (selectors, skipped, r)
       | Some ((field, wire), r1) \<Rightarrow>
           if field = 1 \<and> wire = WIRE_LEN_DELIM then
             and_then (read_length_delimited r1) (\<lambda>(payload, r2).
               and_then (parse_dat_site lib payload limits) (\<lambda>site.
                 and_then (add_dat_site limits site selectors skipped) (\<lambda>(selectors', skipped').
                   parse_dat_loop lib limits r2 selectors' skipped')))
           else and_then (skip_field r1 wire) (\<lambda>r2. parse_dat_loop lib limits r2 selectors skipped))"
  by pat_completeness auto
termination
  by (relation "measure (\<lambda>(_, _, r, _, _). length (dat_input r) - dat_position r)")
    (auto dest!: reader_advanced intro: advanced_measure advanced_trans)

declare parse_dat_loop.simps [simp del]

definition parse_dat_with_limits :: "'n name_lib \<Rightarrow> byte list \<Rightarrow> rule_limits \<Rightarrow> rule_parse_error + rule_index" where
  "parse_dat_with_limits lib input limits =
     (if max_input_bytes limits < length input then Inl InputTooLarge
      else and_then (parse_dat_loop lib limits (dat_new input) [] 0) (\<lambda>(selectors, skipped, r).
        if \<not> is_exhausted r \<or> selectors = [] then Inl InvalidDat
        else Inr (RuleIndex [] [] [] [] selectors (total_rules selectors) skipped)))"

section \<open>Entry points\<close>

definition parse_with_limits ::
  "'n name_lib \<Rightarrow> (string \<Rightarrow> json_rule_document option) \<Rightarrow> string \<Rightarrow> rule_set_format \<Rightarrow> rule_limits \<Rightarrow>
     rule_parse_error + rule_index" where
  "parse_with_limits lib json_from_str input format limits =
     (if max_input_bytes limits < length input then Inl InputTooLarge
      else case format of
          FormatJson \<Rightarrow> parse_json_with_limits lib json_from_str input limits
        | FormatClash \<Rightarrow> parse_clash_with_limits lib input limits
        | FormatDat \<Rightarrow> parse_dat_with_limits lib (as_bytes input) limits)"

definition parse_bytes_with_limits ::
  "'n name_lib \<Rightarrow> (string \<Rightarrow> json_rule_document option) \<Rightarrow> byte list \<Rightarrow> rule_set_format \<Rightarrow> rule_limits \<Rightarrow>
     rule_parse_error + rule_index" where
  "parse_bytes_with_limits lib json_from_str input format limits =
     (if max_input_bytes limits < length input then Inl InputTooLarge
      else case format of
          FormatDat \<Rightarrow> parse_dat_with_limits lib input limits
        | _ \<Rightarrow> and_then (ok_or InvalidJson (from_utf8 input)) (\<lambda>text.
            parse_with_limits lib json_from_str text format limits))"

definition rule_index_parse_bytes ::
  "'n name_lib \<Rightarrow> (string \<Rightarrow> json_rule_document option) \<Rightarrow> byte list \<Rightarrow> rule_set_format \<Rightarrow> rule_parse_error + rule_index" where
  "rule_index_parse_bytes lib json_from_str input format =
     parse_bytes_with_limits lib json_from_str input format rule_limits_default"

section \<open>Every parser establishes the invariant\<close>

lemma add_each_ok:
  assumes "\<And>i x i'. add i x = Inr i' \<Longrightarrow> ok i \<Longrightarrow> ok i'"
  shows "add_each add xs idx = Inr idx' \<Longrightarrow> ok idx \<Longrightarrow> ok idx'"
  by (induction xs arbitrary: idx) (auto dest: assms)

lemma add_json_fields_ok:
  assumes "add_json_fields lib idx fs limits = Inr idx'" and ok: "flat_ok limits idx"
  shows "flat_ok limits idx'"
proof -
  from assms(1) obtain i1 i2 i3 where
    1: "add_each (\<lambda>i v. add_domain lib i KindExact v 0 limits) (field_values (json_domain fs)) idx = Inr i1" and
    2: "add_each (\<lambda>i v. add_domain lib i KindSuffix v 0 limits) (field_values (json_domain_suffix fs)) i1 = Inr i2" and
    3: "add_each (\<lambda>i v. add_keyword i v limits) (field_values (json_domain_keyword fs)) i2 = Inr i3" and
    4: "add_each (\<lambda>i v. add_regex i v 0 limits) (field_values (json_domain_regex fs)) i3 = Inr idx'"
    by (auto simp: add_json_fields_def)
  have "flat_ok limits i1" by (rule add_each_ok [where ok = "flat_ok limits", OF _ 1 ok]) (rule add_domain_ok)
  then have "flat_ok limits i2" by (rule add_each_ok [where ok = "flat_ok limits", OF _ 2, rotated]) (rule add_domain_ok)
  then have "flat_ok limits i3" by (rule add_each_ok [where ok = "flat_ok limits", OF _ 3, rotated]) (rule add_keyword_ok)
  then show ?thesis by (rule add_each_ok [where ok = "flat_ok limits", OF _ 4, rotated]) (rule add_regex_ok)
qed

lemma parse_clash_line_ok:
  "parse_clash_line lib limits line raw idx = Inr idx' \<Longrightarrow> flat_ok limits idx \<Longrightarrow> flat_ok limits idx'"
  by (auto simp: parse_clash_line_def Let_def split: if_splits dest: add_domain_ok add_regex_ok)

lemma parse_clash_lines_ok:
  "parse_clash_lines lib limits n raws idx = Inr idx' \<Longrightarrow> flat_ok limits idx \<Longrightarrow> flat_ok limits idx'"
  by (induction lib limits n raws idx rule: parse_clash_lines.induct) (auto dest: parse_clash_line_ok)

lemma skip_unsupported_ok: "flat_ok limits idx \<Longrightarrow> flat_ok limits (skip_unsupported idx)"
  by (cases idx) (simp add: skip_unsupported_def flat_ok_def count_defs)

lemma add_dat_domain_ok:
  "add_dat_domain lib limits idx d = Inr idx' \<Longrightarrow> flat_ok limits idx \<Longrightarrow> flat_ok limits idx'"
  by (auto simp: add_dat_domain_def skip_unsupported_ok split: if_splits sum.splits rule_parse_error.splits
      dest: add_keyword_ok add_regex_ok add_domain_ok)

lemma parse_dat_site_ok:
  "parse_dat_site lib payload limits = Inr site \<Longrightarrow> flat_ok limits (site_index site)"
  by (auto simp: parse_dat_site_def intro: add_each_ok [where ok = "flat_ok limits", OF add_dat_domain_ok])

text \<open>A map of selectors: distinct normalised keys, sub-indexes within the limits, one total.\<close>

definition selectors_ok :: "rule_limits \<Rightarrow> (string \<times> rule_index) list \<Rightarrow> bool" where
  "selectors_ok limits sel \<longleftrightarrow>
     distinct (map fst sel) \<and> length sel \<le> max_selectors limits \<and> total_rules sel \<le> max_rules limits \<and>
     (\<forall>(name, idx) \<in> set sel. flat_ok limits idx \<and>
        normalize_rule_set_selector name (max_selector_bytes limits) = Some name)"

definition rule_index_ok :: "rule_limits \<Rightarrow> rule_index \<Rightarrow> bool" where
  "rule_index_ok limits idx \<longleftrightarrow>
     flat_ok limits idx \<or>
     ri_selectors idx \<noteq> [] \<and> selectors_ok limits (ri_selectors idx) \<and>
     ri_rule_count idx = total_rules (ri_selectors idx) \<and>
     ri_exact idx = [] \<and> ri_suffix idx = [] \<and> ri_keywords idx = [] \<and> ri_regex idx = []"

lemma normalize_dat_selector_Inr:
  "normalize_dat_selector s limits = Inr t \<Longrightarrow> normalize_rule_set_selector t (max_selector_bytes limits) = Some t"
  by (auto simp: normalize_dat_selector_def split: if_splits dest: normalize_rule_set_selector_idem)

lemma add_dat_site_ok:
  assumes "add_dat_site limits site sel skipped = Inr (sel', skipped')"
    and "selectors_ok limits sel" "flat_ok limits (site_index site)"
  shows "selectors_ok limits sel'"
proof -
  from assms(1) obtain t where t: "normalize_dat_selector (site_selector site) limits = Inr t"
    "map_of sel t = None" "length sel < max_selectors limits"
    "total_rules sel + ri_rule_count (site_index site) \<le> max_rules limits"
    and sel': "sel' = AList.update t (site_index site) sel"
    by (auto simp: add_dat_site_def split: if_splits)
  have "total_rules sel' = total_rules sel + ri_rule_count (site_index site)"
    using alist_update_sum [of ri_rule_count t "site_index site" sel] t(2) by (simp add: sel' total_rules_def)
  moreover have "flat_ok limits idx \<and> normalize_rule_set_selector name (max_selector_bytes limits) = Some name"
    if "(name, idx) \<in> set sel'" for name idx
    using that assms(2,3) t(1) unfolding sel'
    by (auto simp: selectors_ok_def dest!: alist_update_entry normalize_dat_selector_Inr)
  ultimately show ?thesis
    using assms(2) t by (auto simp: selectors_ok_def sel' alist_update_length alist_update_distinct)
qed

lemma parse_dat_loop_ok:
  "parse_dat_loop lib limits r sel skipped = Inr (sel', skipped', r') \<Longrightarrow> selectors_ok limits sel \<Longrightarrow>
   selectors_ok limits sel'"
proof (induction lib limits r sel skipped rule: parse_dat_loop.induct)
  case (1 lib limits r sel skipped)
  from "1.prems"(1) obtain key where key: "read_key r = Inr key"
    by (subst (asm) parse_dat_loop.simps) auto
  show ?case
  proof (cases key)
    case None
    with "1.prems" key show ?thesis by (subst (asm) (1) parse_dat_loop.simps) simp
  next
    case (Some k)
    obtain field wire r1 where k: "k = ((field, wire), r1)" by (cases k) auto
    show ?thesis
    proof (cases "field = 1 \<and> wire = WIRE_LEN_DELIM")
      case True
      with "1.prems"(1) key Some k obtain payload r2 site sel1 skipped1 where
        run: "read_length_delimited r1 = Inr (payload, r2)" "parse_dat_site lib payload limits = Inr site"
          "add_dat_site limits site sel skipped = Inr (sel1, skipped1)"
          "parse_dat_loop lib limits r2 sel1 skipped1 = Inr (sel', skipped', r')"
        by (subst (asm) (1) parse_dat_loop.simps) auto
      have "selectors_ok limits sel1"
        using add_dat_site_ok [OF run(3) "1.prems"(2) parse_dat_site_ok [OF run(2)]] .
      with 1 key Some k True run show ?thesis by auto
    next
      case False
      with "1.prems"(1) key Some k obtain r2 where
        "skip_field r1 wire = Inr r2" "parse_dat_loop lib limits r2 sel skipped = Inr (sel', skipped', r')"
        by (subst (asm) (1) parse_dat_loop.simps) auto
      with 1 key Some k False show ?thesis by auto
    qed
  qed
qed

section \<open>Reading an encoded dat file\<close>

definition dat_domain_bytes :: "dat_domain \<Rightarrow> byte list" where
  "dat_domain_bytes d =
     key_bytes 1 0 @ varint_bytes (unat (dat_kind d)) @ key_bytes 2 2 @ delimited_bytes (as_bytes (dat_value d))"

definition dat_site_bytes :: "string \<Rightarrow> dat_domain list \<Rightarrow> byte list" where
  "dat_site_bytes selector ds =
     key_bytes 1 2 @ delimited_bytes (as_bytes selector) @
     concat (map (\<lambda>d. key_bytes 2 2 @ delimited_bytes (dat_domain_bytes d)) ds)"

definition dat_file_bytes :: "(string \<times> dat_domain list) list \<Rightarrow> byte list" where
  "dat_file_bytes sites =
     concat (map (\<lambda>(selector, ds). key_bytes 1 2 @ delimited_bytes (dat_site_bytes selector ds)) sites)"

lemma dat_loops_end:
  assumes "remaining r = []" "dat_position r \<le> length (dat_input r)"
  shows "parse_dat_domain_loop r kind value = Inr (kind, value)"
    and "parse_dat_site_loop r selector domains = Inr (selector, domains)"
    and "parse_dat_loop lib limits r selectors skipped = Inr (selectors, skipped, r)"
  by (simp_all add: read_key_end [OF assms] parse_dat_domain_loop.simps parse_dat_site_loop.simps parse_dat_loop.simps)

lemma parse_dat_domain_bytes:
  assumes "str_valid (dat_value d)" "length (dat_domain_bytes d) \<le> u64_max"
  shows "parse_dat_domain (dat_domain_bytes d) = Inr d"
proof -
  let ?r = "dat_new (dat_domain_bytes d)"
  have kind: "unat (dat_kind d) < 2 ^ 64" using unsigned_less [where ?'a = nat and w = "dat_kind d"] by simp
  have rem: "remaining ?r = key_bytes 1 0 @ varint_bytes (unat (dat_kind d)) @
      (key_bytes 2 2 @ delimited_bytes (as_bytes (dat_value d)))"
    by (simp add: dat_domain_bytes_def)
  obtain r1 r2 where k: "read_key ?r = Inr (Some ((1, WIRE_VARINT), r1))"
    "read_varint r1 = Inr (dat_kind d, r2)"
    and r2: "remaining r2 = key_bytes 2 2 @ delimited_bytes (as_bytes (dat_value d))" "dat_input r2 = dat_input ?r"
    by (rule read_varint_field [OF rem _ _ kind]) (simp_all add: u32_max_def)
  have fits: "length (dat_input r2) \<le> u64_max" using assms(2) r2(2) by (simp add: dat_new_def)
  obtain r3 r4 where v: "read_key r2 = Inr (Some ((2, WIRE_LEN_DELIM), r3))"
    "read_length_delimited r3 = Inr (as_bytes (dat_value d), r4)"
    and r4: "remaining r4 = []" "dat_position r4 \<le> length (dat_input r4)"
    by (rule read_delimited_field [of r2 2 "as_bytes (dat_value d)" "[]"])
      (simp_all add: r2(1) u32_max_def fits)
  have "parse_dat_domain_loop r2 (dat_kind d) None = Inr (dat_kind d, Some (dat_value d))"
    using v by (subst parse_dat_domain_loop.simps) (simp add: from_utf8_as_bytes assms(1) dat_loops_end [OF r4])
  then have "parse_dat_domain_loop ?r 0 None = Inr (dat_kind d, Some (dat_value d))"
    using k by (subst parse_dat_domain_loop.simps) simp
  then show ?thesis by (simp add: parse_dat_domain_def)
qed

lemma parse_dat_site_loop_bytes:
  assumes "\<forall>d \<in> set ds. str_valid (dat_value d)"
    and "remaining r = concat (map (\<lambda>d. key_bytes 2 2 @ delimited_bytes (dat_domain_bytes d)) ds)"
    and "length (dat_input r) \<le> u64_max" "dat_position r \<le> length (dat_input r)"
  shows "parse_dat_site_loop r selector acc = Inr (selector, acc @ ds)"
  using assms
proof (induction ds arbitrary: r acc)
  case Nil
  then show ?case by (simp add: dat_loops_end)
next
  case (Cons d ds)
  let ?rest = "concat (map (\<lambda>d. key_bytes 2 2 @ delimited_bytes (dat_domain_bytes d)) ds)"
  have rem: "remaining r = key_bytes 2 2 @ delimited_bytes (dat_domain_bytes d) @ ?rest"
    using Cons.prems(2) by simp
  obtain r1 r2 where v: "read_key r = Inr (Some ((2, WIRE_LEN_DELIM), r1))"
    "read_length_delimited r1 = Inr (dat_domain_bytes d, r2)"
    and r2: "remaining r2 = ?rest" "dat_input r2 = dat_input r" "dat_position r2 \<le> length (dat_input r2)"
    by (rule read_delimited_field [OF rem]) (simp_all add: u32_max_def Cons.prems(3))
  have "length (dat_domain_bytes d) \<le> length (remaining r)" unfolding rem by (simp add: delimited_bytes_def)
  then have "length (dat_domain_bytes d) \<le> u64_max"
    using Cons.prems(3) by (simp add: remaining_def)
  then have "parse_dat_domain (dat_domain_bytes d) = Inr d"
    using Cons.prems(1) by (intro parse_dat_domain_bytes) simp_all
  moreover have "parse_dat_site_loop r2 selector (acc @ [d]) = Inr (selector, (acc @ [d]) @ ds)"
    using Cons.prems r2 by (intro Cons.IH) simp_all
  ultimately show ?case using v by (subst parse_dat_site_loop.simps) simp
qed

lemma parse_dat_site_bytes:
  assumes "str_valid selector" "\<forall>d \<in> set ds. str_valid (dat_value d)"
    and "length (dat_site_bytes selector ds) \<le> u64_max"
  shows "parse_dat_site lib (dat_site_bytes selector ds) limits =
    and_then (add_each (add_dat_domain lib limits) ds rule_index_empty) (\<lambda>idx.
      Inr \<lparr>site_selector = selector, site_index = idx\<rparr>)"
proof -
  let ?r = "dat_new (dat_site_bytes selector ds)"
  have rem: "remaining ?r = key_bytes 1 2 @ delimited_bytes (as_bytes selector) @
      concat (map (\<lambda>d. key_bytes 2 2 @ delimited_bytes (dat_domain_bytes d)) ds)"
    by (simp add: dat_site_bytes_def)
  have fits: "length (dat_input ?r) \<le> u64_max" using assms(3) by (simp add: dat_new_def)
  obtain r1 r2 where v: "read_key ?r = Inr (Some ((1, WIRE_LEN_DELIM), r1))"
    "read_length_delimited r1 = Inr (as_bytes selector, r2)"
    and r2: "remaining r2 = concat (map (\<lambda>d. key_bytes 2 2 @ delimited_bytes (dat_domain_bytes d)) ds)"
      "dat_input r2 = dat_input ?r" "dat_position r2 \<le> length (dat_input r2)"
    by (rule read_delimited_field [OF rem _ _ fits]) (simp_all add: u32_max_def)
  have "parse_dat_site_loop r2 (Some selector) [] = Inr (Some selector, [] @ ds)"
    using assms(2) r2 fits by (intro parse_dat_site_loop_bytes) simp_all
  then have "parse_dat_site_loop ?r None [] = Inr (Some selector, ds)"
    using v by (subst parse_dat_site_loop.simps) (simp add: from_utf8_as_bytes assms(1))
  then show ?thesis by (simp add: parse_dat_site_def)
qed

text \<open>What a list of decoded sites builds, without the wire format.\<close>

fun build_dat_sites ::
  "'n name_lib \<Rightarrow> rule_limits \<Rightarrow> (string \<times> dat_domain list) list \<Rightarrow> (string \<times> rule_index) list \<Rightarrow> nat \<Rightarrow>
     rule_parse_error + (string \<times> rule_index) list \<times> nat" where
  "build_dat_sites lib limits [] selectors skipped = Inr (selectors, skipped)"
| "build_dat_sites lib limits ((selector, ds) # sites) selectors skipped =
     and_then (add_each (add_dat_domain lib limits) ds rule_index_empty) (\<lambda>idx.
       and_then (add_dat_site limits \<lparr>site_selector = selector, site_index = idx\<rparr> selectors skipped)
         (\<lambda>(selectors', skipped'). build_dat_sites lib limits sites selectors' skipped'))"

definition sites_valid :: "(string \<times> dat_domain list) list \<Rightarrow> bool" where
  "sites_valid sites \<longleftrightarrow>
     list_all (\<lambda>(selector, ds). str_valid selector \<and> list_all (\<lambda>d. str_valid (dat_value d)) ds) sites"

lemma parse_dat_loop_bytes:
  assumes "sites_valid sites" "remaining r = dat_file_bytes sites"
    and "length (dat_input r) \<le> u64_max" "dat_position r \<le> length (dat_input r)"
  shows "\<exists>r'. is_exhausted r' \<and> parse_dat_loop lib limits r selectors skipped =
    and_then (build_dat_sites lib limits sites selectors skipped) (\<lambda>(sel, sk). Inr (sel, sk, r'))"
  using assms
proof (induction sites arbitrary: r selectors skipped)
  case Nil
  then have "remaining r = []" by (simp add: dat_file_bytes_def)
  with Nil have "is_exhausted r" by (simp add: is_exhausted_def remaining_def)
  then show ?case
    using dat_loops_end(3) [OF \<open>remaining r = []\<close> Nil.prems(4), of lib limits selectors skipped]
    by (intro exI [of _ r]) simp
next
  case (Cons site sites)
  obtain selector ds where site: "site = (selector, ds)" by (cases site)
  have rem: "remaining r = key_bytes 1 2 @ delimited_bytes (dat_site_bytes selector ds) @ dat_file_bytes sites"
    using Cons.prems(2) by (simp add: site dat_file_bytes_def)
  obtain r1 r2 where v: "read_key r = Inr (Some ((1, WIRE_LEN_DELIM), r1))"
    "read_length_delimited r1 = Inr (dat_site_bytes selector ds, r2)"
    and r2: "remaining r2 = dat_file_bytes sites" "dat_input r2 = dat_input r" "dat_position r2 \<le> length (dat_input r2)"
    by (rule read_delimited_field [OF rem]) (simp_all add: u32_max_def Cons.prems(3))
  have "length (dat_site_bytes selector ds) \<le> length (remaining r)" unfolding rem by (simp add: delimited_bytes_def)
  then have fits: "length (dat_site_bytes selector ds) \<le> u64_max" using Cons.prems(3) by (simp add: remaining_def)
  have valid: "str_valid selector" "\<forall>d \<in> set ds. str_valid (dat_value d)" "sites_valid sites"
    using Cons.prems(1) by (auto simp: sites_valid_def site list_all_iff)
  note read_site = parse_dat_site_bytes [OF valid(1,2) fits]
  note step = parse_dat_loop.simps [of lib limits r selectors skipped]
  have IH: "\<exists>r'. is_exhausted r' \<and> parse_dat_loop lib limits r2 sel sk =
      and_then (build_dat_sites lib limits sites sel sk) (\<lambda>(sel, sk). Inr (sel, sk, r'))" for sel sk
    using Cons.prems(3) r2 valid(3) by (intro Cons.IH) simp_all
  show ?case
  proof (cases "and_then (add_each (add_dat_domain lib limits) ds rule_index_empty) (\<lambda>idx.
       add_dat_site limits \<lparr>site_selector = selector, site_index = idx\<rparr> selectors skipped)")
    case (Inl e)
    have "is_exhausted (dat_new [])" by (simp add: is_exhausted_def dat_new_def)
    moreover have "parse_dat_loop lib limits r selectors skipped =
        and_then (build_dat_sites lib limits (site # sites) selectors skipped) (\<lambda>(sel, sk). Inr (sel, sk, dat_new []))"
      using Inl by (auto simp: step v read_site site and_then_Inl_iff)
    ultimately show ?thesis by blast
  next
    case (Inr x)
    obtain sel sk where x: "x = (sel, sk)" by (cases x)
    from IH [of sel sk] obtain r' where "is_exhausted r'" "parse_dat_loop lib limits r2 sel sk =
      and_then (build_dat_sites lib limits sites sel sk) (\<lambda>(sel, sk). Inr (sel, sk, r'))" by blast
    moreover from this Inr have "parse_dat_loop lib limits r selectors skipped =
        and_then (build_dat_sites lib limits (site # sites) selectors skipped) (\<lambda>(sel, sk). Inr (sel, sk, r'))"
      by (auto simp: step v read_site site x)
    ultimately show ?thesis by blast
  qed
qed

section \<open>The parsers establish the invariant\<close>

lemma parse_dat_ok:
  assumes "parse_dat_with_limits lib bs limits = Inr idx"
  shows "rule_index_ok limits idx"
proof -
  from assms obtain sel sk r where "parse_dat_loop lib limits (dat_new bs) [] 0 = Inr (sel, sk, r)" "sel \<noteq> []"
    "idx = RuleIndex [] [] [] [] sel (total_rules sel) sk"
    by (auto simp: parse_dat_with_limits_def split: if_splits)
  then show ?thesis
    using parse_dat_loop_ok [of lib limits "dat_new bs" "[]" 0 sel sk r]
    by (simp add: rule_index_ok_def selectors_ok_def total_rules_def)
qed

lemma parse_clash_ok: "parse_clash_with_limits lib input limits = Inr idx \<Longrightarrow> flat_ok limits idx"
  by (auto simp: parse_clash_with_limits_def split: if_splits dest: parse_clash_lines_ok)

lemma parse_json_ok:
  assumes "parse_json_with_limits lib json_from_str input limits = Inr idx"
  shows "flat_ok limits idx"
proof -
  from assms obtain d where d: "json_from_str input = Some d"
    by (auto simp: parse_json_with_limits_def split: if_splits)
  show ?thesis
  proof (cases d)
    case (Legacy fs)
    with assms d have "add_json_fields lib rule_index_empty fs limits = Inr idx"
      by (auto simp: parse_json_with_limits_def split: if_splits)
    then show ?thesis by (rule add_json_fields_ok) simp
  next
    case (SingBox doc)
    with assms d have "add_each (\<lambda>i fs. add_json_fields lib i fs limits) (sb_rules doc) rule_index_empty = Inr idx"
      by (auto simp: parse_json_with_limits_def split: if_splits)
    then show ?thesis
      by (rule add_each_ok [where ok = "flat_ok limits", rotated]) (auto intro: add_json_fields_ok)
  qed
qed

lemma parse_with_limits_ok:
  "parse_with_limits lib json_from_str input format limits = Inr idx \<Longrightarrow> rule_index_ok limits idx"
  by (cases format)
    (auto simp: parse_with_limits_def rule_index_ok_def dest: parse_clash_ok parse_json_ok
      dest!: parse_dat_ok split: if_splits)

lemma parse_bytes_ok:
  "parse_bytes_with_limits lib json_from_str input format limits = Inr idx \<Longrightarrow> rule_index_ok limits idx"
  by (cases format)
    (auto simp: parse_bytes_with_limits_def dest: parse_with_limits_ok parse_dat_ok split: if_splits)

section \<open>Properties\<close>

text \<open>
  Every index that a byte input of any format parses to stays within the limits: the
  rule count is exactly the number of stored rules and at most \<open>max_rules\<close>, no stored name is a
  wildcard, every regular expression respects \<open>max_regex_program\<close>, and a \<open>dat\<close> index is a map of at
  most \<open>max_selectors\<close> distinct normalised selectors whose rules together respect \<open>max_rules\<close>.
\<close>

lemma parse_bytes_establishes_invariant:
  assumes "parse_bytes_with_limits lib json_from_str input format limits = Inr idx"
  shows "rule_index_ok limits idx"
  using assms by (rule parse_bytes_ok)

lemma parse_bytes_establishes_invariant_witness:
  "rule_index_ok rule_limits_default
     (RuleIndex [CanonicalDomain ''b.c''] [CanonicalDomain ''c''] [] [] [] 2 0)"
proof (rule parse_bytes_establishes_invariant)
  show "parse_bytes_with_limits text_name_lib (\<lambda>_. None)
      (as_bytes (''DOMAIN,b.C'' @ [CHR 0x0A] @ ''domain-suffix, c # x'')) FormatClash rule_limits_default =
    Inr (RuleIndex [CanonicalDomain ''b.c''] [CanonicalDomain ''c''] [] [] [] 2 0)"
    by code_simp
qed

text \<open>
  Property C27: a geosite file written in the wire format is read back: parsing the encoded sites gives
  exactly the selector map that adding their domains builds, or the error of that addition.
\<close>

theorem dat_file_read_back:
  assumes "sites_valid sites" "length (dat_file_bytes sites) \<le> max_input_bytes limits"
    and "max_input_bytes limits \<le> u64_max"
  shows "parse_dat_with_limits lib (dat_file_bytes sites) limits =
    and_then (build_dat_sites lib limits sites [] 0) (\<lambda>(sel, skipped).
      if sel = [] then Inl InvalidDat else Inr (RuleIndex [] [] [] [] sel (total_rules sel) skipped))"
proof -
  let ?r = "dat_new (dat_file_bytes sites)"
  from parse_dat_loop_bytes [OF assms(1), of ?r lib limits "[]" 0] assms(2,3)
  obtain r' where "is_exhausted r'" "parse_dat_loop lib limits ?r [] 0 =
    and_then (build_dat_sites lib limits sites [] 0) (\<lambda>(sel, sk). Inr (sel, sk, r'))"
    by auto
  then show ?thesis
    using assms(2)
    by (cases "build_dat_sites lib limits sites [] 0") (auto simp: parse_dat_with_limits_def)
qed

theorem dat_file_read_back_witness:
  "parse_dat_with_limits text_name_lib
     (dat_file_bytes [(''CN'', [\<lparr>dat_kind = 2, dat_value = ''a.b''\<rparr>, \<lparr>dat_kind = 0, dat_value = ''x''\<rparr>])])
     rule_limits_default =
   Inr (RuleIndex [] [] [] [] [(''cn'', RuleIndex [] [CanonicalDomain ''a.b''] [''x''] [] [] 2 0)] 2 0)"
proof -
  let ?sites = "[(''CN'', [\<lparr>dat_kind = 2, dat_value = ''a.b''\<rparr>, \<lparr>dat_kind = 0, dat_value = ''x''\<rparr>])]"
  have fits: "sites_valid ?sites" "length (dat_file_bytes ?sites) \<le> max_input_bytes rule_limits_default"
    "max_input_bytes rule_limits_default \<le> u64_max" by code_simp+
  have build: "build_dat_sites text_name_lib rule_limits_default ?sites [] 0 =
    Inr ([(''cn'', RuleIndex [] [CanonicalDomain ''a.b''] [''x''] [] [] 2 0)], 0)" by code_simp
  show ?thesis
    unfolding dat_file_read_back [OF fits] build by (simp add: total_rules_def)
qed

end
