(* ===== verification/Hosts.thy ===== *)
theory Hosts
  imports Domain_Names Net_Address
begin

text \<open>
  The hosts resource of \<open>backend/src/resource/hosts.rs\<close>: the compiled index of exact and
  wildcard owners, its insertion and lookup, and the two parsers (hosts file lines and hosts
  JSON). A \<open>BTreeMap\<close> whose size the code reads is an association list with distinct keys; the
  YAML/JSON decoder is a parameter that returns the decoded entries in key order. The lemmas show
  the invariant of the index (limits, counts, no mixed record types), what an insertion changes,
  and that a lookup returns the most specific matching owner.
\<close>

datatype hosts_record = Address ip_addr | Cname canonical_domain

definition same_as :: "hosts_record \<Rightarrow> hosts_record \<Rightarrow> bool" where
  "same_as a b \<longleftrightarrow> a = b"

definition is_cname :: "hosts_record \<Rightarrow> bool" where
  "is_cname r \<longleftrightarrow> (case r of Cname _ \<Rightarrow> True | Address _ \<Rightarrow> False)"

record hosts_limits =
  hosts_max_input_bytes :: nat
  hosts_max_records :: nat
  hosts_max_names :: nat
  hosts_max_line_bytes :: nat

definition hosts_limits_default :: hosts_limits where
  "hosts_limits_default = \<lparr>hosts_max_input_bytes = 8 * 1024 * 1024, hosts_max_records = 65536,
     hosts_max_names = 65536, hosts_max_line_bytes = 16 * 1024\<rparr>"

type_synonym owners = "(canonical_domain \<times> hosts_record list) list"

record hosts_index =
  hosts_exact :: owners
  hosts_wildcard :: owners
  hosts_record_count :: nat

datatype json_addresses = Single string | Multiple "string list"

record json_host_config =
  enable :: bool
  config_records :: "(string \<times> json_addresses) list"

datatype json_host_entry = EntryRecords "(string \<times> json_addresses) list" | EntryConfig json_host_config

section \<open>The index\<close>

definition hosts_empty :: hosts_index where
  "hosts_empty = \<lparr>hosts_exact = [], hosts_wildcard = [], hosts_record_count = 0\<rparr>"

definition hosts_is_empty :: "hosts_index \<Rightarrow> bool" where
  "hosts_is_empty idx \<longleftrightarrow> hosts_record_count idx = 0"

definition owner_count :: "hosts_index \<Rightarrow> nat" where
  "owner_count idx = length (hosts_exact idx) + length (hosts_wildcard idx)"

definition owner_map :: "canonical_domain \<Rightarrow> hosts_index \<Rightarrow> owners" where
  "owner_map owner idx = (if is_wildcard owner then hosts_wildcard idx else hosts_exact idx)"

definition set_owner_map :: "canonical_domain \<Rightarrow> owners \<Rightarrow> hosts_index \<Rightarrow> hosts_index" where
  "set_owner_map owner m idx =
     (if is_wildcard owner then idx\<lparr>hosts_wildcard := m\<rparr> else idx\<lparr>hosts_exact := m\<rparr>)"

definition hosts_records :: "hosts_index \<Rightarrow> canonical_domain \<Rightarrow> hosts_record list option" where
  "hosts_records idx owner = map_of (owner_map owner idx) owner"

definition hosts_insert ::
  "hosts_index \<Rightarrow> canonical_domain \<Rightarrow> hosts_record \<Rightarrow> hosts_limits \<Rightarrow> hosts_parse_error + hosts_index" where
  "hosts_insert idx owner record limits =
     (let m = owner_map owner idx;
          is_new_owner = (map_of m owner = None)
      in if is_new_owner \<and> hosts_max_names limits \<le> owner_count idx then Inl HostsTooManyNames
      else
        let records = (case map_of m owner of None \<Rightarrow> [] | Some rs \<Rightarrow> rs)
        in if list_ex (\<lambda>existing. is_cname existing \<noteq> is_cname record) records
          then Inl HostsConflictingRecords
        else if is_cname record \<and> list_ex (\<lambda>existing. is_cname existing \<and> \<not> same_as existing record) records
          then Inl HostsConflictingCname
        else if list_ex (\<lambda>existing. same_as existing record) records
          then Inr (set_owner_map owner (AList.update owner records m) idx)
        else if hosts_max_records limits \<le> hosts_record_count idx then Inl HostsTooManyRecords
        else Inr ((set_owner_map owner (AList.update owner (records @ [record]) m) idx)
                    \<lparr>hosts_record_count := hosts_record_count idx + 1\<rparr>))"

fun wildcard_lookup :: "owners \<Rightarrow> string list \<Rightarrow> hosts_record list option" where
  "wildcard_lookup m [] = None"
| "wildcard_lookup m (label # labels) =
     (if labels = [] then None
      else case map_of m (CanonicalDomain (''*.'' @ join (CHR ''.'') labels)) of
          Some records \<Rightarrow> Some records
        | None \<Rightarrow> wildcard_lookup m labels)"

definition hosts_lookup :: "hosts_index \<Rightarrow> canonical_domain \<Rightarrow> hosts_record list option" where
  "hosts_lookup idx name =
     (case map_of (hosts_exact idx) name of
        Some records \<Rightarrow> Some records
      | None \<Rightarrow>
          if is_wildcard name then None
          else wildcard_lookup (hosts_wildcard idx) (split_on (CHR ''.'') (as_str name)))"

section \<open>The parsers\<close>

definition strip_comment :: "string \<Rightarrow> string" where
  "strip_comment raw_line =
     trim (case split_once (CHR ''#'') raw_line of None \<Rightarrow> raw_line | Some (content, _) \<Rightarrow> content)"

fun insert_names ::
  "'n name_lib \<Rightarrow> hosts_limits \<Rightarrow> nat \<Rightarrow> ip_addr \<Rightarrow> string list \<Rightarrow> hosts_index \<Rightarrow> hosts_parse_error + hosts_index" where
  "insert_names lib limits line address [] idx = Inr idx"
| "insert_names lib limits line address (name # names) idx =
     and_then (map_err (\<lambda>_. HostsInvalidNameAtLine line) (canonical_parse lib name)) (\<lambda>owner.
       and_then (hosts_insert idx owner (Address address) limits) (\<lambda>idx'.
         insert_names lib limits line address names idx'))"

definition parse_hosts_line ::
  "'n name_lib \<Rightarrow> hosts_limits \<Rightarrow> nat \<Rightarrow> string \<Rightarrow> hosts_index \<Rightarrow> hosts_parse_error + hosts_index" where
  "parse_hosts_line lib limits line_number raw_line idx =
     (if hosts_max_line_bytes limits < length raw_line then Inl (HostsLineTooLong line_number)
      else
        let line = strip_comment raw_line in
        if line = [] then Inr idx
        else (case split_whitespace line of
            [] \<Rightarrow> Inl (HostsMissingAddress line_number)
          | field # names \<Rightarrow>
              and_then (ok_or (HostsInvalidAddress line_number) (parse_ip_addr field)) (\<lambda>address.
                and_then (insert_names lib limits line_number address names idx) (\<lambda>idx'.
                  if names = [] then Inl (HostsMissingName line_number) else Inr idx'))))"

fun parse_hosts_lines ::
  "'n name_lib \<Rightarrow> hosts_limits \<Rightarrow> nat \<Rightarrow> string list \<Rightarrow> hosts_index \<Rightarrow> hosts_parse_error + hosts_index" where
  "parse_hosts_lines lib limits line_index [] idx = Inr idx"
| "parse_hosts_lines lib limits line_index (raw_line # raw_lines) idx =
     and_then (parse_hosts_line lib limits (line_index + 1) raw_line idx) (\<lambda>idx'.
       parse_hosts_lines lib limits (line_index + 1) raw_lines idx')"

definition parse_hosts_with_limits ::
  "'n name_lib \<Rightarrow> string \<Rightarrow> hosts_limits \<Rightarrow> hosts_parse_error + hosts_index" where
  "parse_hosts_with_limits lib input limits =
     (if hosts_max_input_bytes limits < length input then Inl HostsInputTooLarge
      else parse_hosts_lines lib limits 0 (lines input) hosts_empty)"

definition parse_hosts :: "'n name_lib \<Rightarrow> string \<Rightarrow> hosts_parse_error + hosts_index" where
  "parse_hosts lib input = parse_hosts_with_limits lib input hosts_limits_default"

definition json_record ::
  "'n name_lib \<Rightarrow> string \<Rightarrow> string \<Rightarrow> hosts_parse_error + hosts_record" where
  "json_record lib record_type value =
     (if record_type = ''A'' \<or> record_type = ''AAAA'' then
        and_then (ok_or HostsInvalidJson (parse_ip_addr value)) (\<lambda>address.
          if (record_type = ''A'' \<and> \<not> is_ipv4 address) \<or> (record_type = ''AAAA'' \<and> \<not> is_ipv6 address)
          then Inl HostsInvalidJson else Inr (Address address))
      else if record_type = ''CNAME'' then and_then (canonical_parse lib value) (\<lambda>d. Inr (Cname d))
      else Inl HostsUnsupportedRecordType)"

fun insert_json_values ::
  "'n name_lib \<Rightarrow> hosts_limits \<Rightarrow> canonical_domain \<Rightarrow> string \<Rightarrow> string list \<Rightarrow> hosts_index \<Rightarrow> hosts_parse_error + hosts_index" where
  "insert_json_values lib limits owner record_type [] idx = Inr idx"
| "insert_json_values lib limits owner record_type (value # vals) idx =
     and_then (json_record lib record_type value) (\<lambda>record.
       and_then (hosts_insert idx owner record limits) (\<lambda>idx'.
         insert_json_values lib limits owner record_type vals idx'))"

fun json_address_values :: "json_addresses \<Rightarrow> string list" where
  "json_address_values (Single value) = [value]"
| "json_address_values (Multiple vals) = vals"

fun insert_json_records ::
  "'n name_lib \<Rightarrow> hosts_limits \<Rightarrow> canonical_domain \<Rightarrow> (string \<times> json_addresses) list \<Rightarrow> hosts_index \<Rightarrow> hosts_parse_error + hosts_index" where
  "insert_json_records lib limits owner [] idx = Inr idx"
| "insert_json_records lib limits owner ((record_type, vals) # records) idx =
     and_then (insert_json_values lib limits owner (to_ascii_uppercase record_type) (json_address_values vals) idx)
       (\<lambda>idx'. insert_json_records lib limits owner records idx')"

fun insert_json_entries ::
  "'n name_lib \<Rightarrow> hosts_limits \<Rightarrow> (string \<times> json_host_entry) list \<Rightarrow> hosts_index \<Rightarrow> hosts_parse_error + hosts_index" where
  "insert_json_entries lib limits [] idx = Inr idx"
| "insert_json_entries lib limits ((name, entry) # entries) idx =
     (case (case entry of EntryRecords records \<Rightarrow> (True, records)
                        | EntryConfig config \<Rightarrow> (enable config, config_records config)) of
        (enabled, records) \<Rightarrow>
          if \<not> enabled then insert_json_entries lib limits entries idx
          else and_then (canonical_parse lib name) (\<lambda>owner.
            and_then (insert_json_records lib limits owner records idx) (\<lambda>idx'.
              insert_json_entries lib limits entries idx')))"

definition hosts_parse_json_with_limits ::
  "'n name_lib \<Rightarrow> (string \<Rightarrow> (string \<times> json_host_entry) list option) \<Rightarrow> string \<Rightarrow> hosts_limits \<Rightarrow> hosts_parse_error + hosts_index" where
  "hosts_parse_json_with_limits lib yaml_from_str input limits =
     (if hosts_max_input_bytes limits < length input then Inl HostsInputTooLarge
      else and_then (ok_or HostsInvalidJson (yaml_from_str input)) (\<lambda>parsed.
        insert_json_entries lib limits parsed hosts_empty))"

definition hosts_parse_json ::
  "'n name_lib \<Rightarrow> (string \<Rightarrow> (string \<times> json_host_entry) list option) \<Rightarrow> string \<Rightarrow> hosts_parse_error + hosts_index" where
  "hosts_parse_json lib yaml_from_str input =
     hosts_parse_json_with_limits lib yaml_from_str input hosts_limits_default"

section \<open>The invariant of the index\<close>

definition records_ok :: "hosts_record list \<Rightarrow> bool" where
  "records_ok rs \<longleftrightarrow> rs \<noteq> [] \<and> distinct rs \<and> (list_all (\<lambda>r. \<not> is_cname r) rs \<or> (\<exists>d. rs = [Cname d]))"

definition owners_ok :: "bool \<Rightarrow> owners \<Rightarrow> bool" where
  "owners_ok wild m \<longleftrightarrow>
     distinct (map fst m) \<and> (\<forall>(owner, rs) \<in> set m. is_wildcard owner = wild \<and> records_ok rs)"

definition owners_size :: "owners \<Rightarrow> nat" where
  "owners_size m = sum_list (map (\<lambda>(_, rs). length rs) m)"

definition hosts_ok :: "hosts_limits \<Rightarrow> hosts_index \<Rightarrow> bool" where
  "hosts_ok limits idx \<longleftrightarrow>
     owners_ok False (hosts_exact idx) \<and> owners_ok True (hosts_wildcard idx) \<and>
     hosts_record_count idx = owners_size (hosts_exact idx) + owners_size (hosts_wildcard idx) \<and>
     hosts_record_count idx \<le> hosts_max_records limits \<and> owner_count idx \<le> hosts_max_names limits"

lemma hosts_empty_ok [simp]: "hosts_ok limits hosts_empty"
  by (simp add: hosts_ok_def hosts_empty_def owners_ok_def owners_size_def owner_count_def)

lemma is_cname_iff: "is_cname r \<longleftrightarrow> (\<exists>d. r = Cname d)"
  by (cases r) (auto simp: is_cname_def)

lemma owners_ok_lookup: "owners_ok wild m \<Longrightarrow> map_of m owner = Some rs \<Longrightarrow> records_ok rs"
  by (auto simp: owners_ok_def dest!: map_of_SomeD)

lemma owners_ok_update:
  "owners_ok wild m \<Longrightarrow> is_wildcard owner = wild \<Longrightarrow> records_ok rs \<Longrightarrow> owners_ok wild (AList.update owner rs m)"
  by (auto simp: owners_ok_def alist_update_distinct dest: alist_update_entry)

lemma owners_size_update:
  "owners_size (AList.update owner rs m) =
     owners_size m + length rs - (case map_of m owner of None \<Rightarrow> 0 | Some old \<Rightarrow> length old)"
  using alist_update_sum [of length owner rs m] by (simp add: owners_size_def)

text \<open>A successful insertion, for a new owner and for a known one.\<close>

lemma hosts_insert_new:
  assumes "map_of (owner_map owner idx) owner = None"
  shows "hosts_insert idx owner record limits = Inr idx' \<longleftrightarrow>
    owner_count idx < hosts_max_names limits \<and> hosts_record_count idx < hosts_max_records limits \<and>
    idx' = (set_owner_map owner (AList.update owner [record] (owner_map owner idx)) idx)
      \<lparr>hosts_record_count := hosts_record_count idx + 1\<rparr>"
  using assms by (auto simp: hosts_insert_def Let_def not_le)

lemma hosts_insert_known:
  assumes "map_of (owner_map owner idx) owner = Some rs"
  shows "hosts_insert idx owner record limits = Inr idx' \<longleftrightarrow>
    (\<forall>e \<in> set rs. is_cname e = is_cname record \<and> (is_cname record \<longrightarrow> e = record)) \<and>
    (if record \<in> set rs then idx' = set_owner_map owner (AList.update owner rs (owner_map owner idx)) idx
     else hosts_record_count idx < hosts_max_records limits \<and>
       idx' = (set_owner_map owner (AList.update owner (rs @ [record]) (owner_map owner idx)) idx)
         \<lparr>hosts_record_count := hosts_record_count idx + 1\<rparr>)"
proof -
  let ?mixed = "list_ex (\<lambda>existing. is_cname existing \<noteq> is_cname record) rs"
  let ?other = "is_cname record \<and> list_ex (\<lambda>existing. is_cname existing \<and> \<not> same_as existing record) rs"
  have same: "list_ex (\<lambda>existing. same_as existing record) rs = (record \<in> set rs)"
    by (auto simp: list_ex_iff same_as_def)
  have clash: "(\<forall>e \<in> set rs. is_cname e = is_cname record \<and> (is_cname record \<longrightarrow> e = record)) \<longleftrightarrow>
      \<not> ?mixed \<and> \<not> ?other"
    by (auto simp: list_ex_iff same_as_def)
  show ?thesis
  proof (cases "?mixed \<or> ?other")
    case True
    then show ?thesis unfolding clash by (auto simp: hosts_insert_def Let_def assms)
  next
    case False
    then show ?thesis
      unfolding clash by (simp add: hosts_insert_def Let_def assms same not_le conj_commute eq_commute [of _ idx'])
        blast
  qed
qed

lemma records_ok_single: "records_ok [record]"
  by (cases "record") (auto simp: records_ok_def is_cname_def)

lemma records_ok_snoc:
  assumes "records_ok rs" "record \<notin> set rs"
    and "\<forall>e \<in> set rs. is_cname e = is_cname record \<and> (is_cname record \<longrightarrow> e = record)"
  shows "records_ok (rs @ [record])"
proof -
  have "\<not> is_cname record"
    using assms by (cases rs) (auto simp: records_ok_def)
  with assms show ?thesis by (auto simp: records_ok_def list_all_iff)
qed

lemma set_owner_map_sel [simp]:
  "hosts_exact (set_owner_map owner m idx) = (if is_wildcard owner then hosts_exact idx else m)"
  "hosts_wildcard (set_owner_map owner m idx) = (if is_wildcard owner then m else hosts_wildcard idx)"
  "hosts_record_count (set_owner_map owner m idx) = hosts_record_count idx"
  by (simp_all add: set_owner_map_def)

lemma owner_map_sel:
  "is_wildcard owner \<Longrightarrow> owner_map owner idx = hosts_wildcard idx"
  "\<not> is_wildcard owner \<Longrightarrow> owner_map owner idx = hosts_exact idx"
  by (simp_all add: owner_map_def)

text \<open>Replacing the records of one owner keeps the structural part of the invariant.\<close>

lemma hosts_ok_set_owner:
  assumes ok: "hosts_ok limits idx" and rs: "records_ok rs"
    and n: "n + (case map_of (owner_map owner idx) owner of None \<Rightarrow> 0 | Some old \<Rightarrow> length old) =
      hosts_record_count idx + length rs" "n \<le> hosts_max_records limits"
    and room: "map_of (owner_map owner idx) owner = None \<Longrightarrow> owner_count idx < hosts_max_names limits"
  shows "hosts_ok limits ((set_owner_map owner (AList.update owner rs (owner_map owner idx)) idx)
      \<lparr>hosts_record_count := n\<rparr>)"
proof -
  have size: "owners_size (AList.update owner rs m) + (case map_of m owner of None \<Rightarrow> 0 | Some old \<Rightarrow> length old) =
      owners_size m + length rs" for m
    using alist_update_sum [of length owner rs m] by (simp add: owners_size_def)
  show ?thesis
  proof (cases "is_wildcard owner")
    case True
    then show ?thesis
      using ok rs n room size [of "hosts_wildcard idx"]
      by (auto simp: hosts_ok_def owner_map_sel owners_ok_update owner_count_def alist_update_length split: option.splits)
  next
    case False
    then show ?thesis
      using ok rs n room size [of "hosts_exact idx"]
      by (auto simp: hosts_ok_def owner_map_sel owners_ok_update owner_count_def alist_update_length split: option.splits)
  qed
qed

lemma hosts_insert_ok:
  assumes ins: "hosts_insert idx owner record limits = Inr idx'" and ok: "hosts_ok limits idx"
  shows "hosts_ok limits idx'"
proof (cases "map_of (owner_map owner idx) owner")
  case None
  with ins show ?thesis
    using hosts_ok_set_owner [OF ok records_ok_single, of _ owner] by (auto simp: hosts_insert_new)
next
  case (Some rs)
  have rs: "records_ok rs"
    using ok Some by (auto simp: owner_map_def hosts_ok_def dest: owners_ok_lookup split: if_splits)
  have same: "(set_owner_map owner m idx)\<lparr>hosts_record_count := hosts_record_count idx\<rparr> = set_owner_map owner m idx" for m
    by (simp add: set_owner_map_def)
  have count: "hosts_record_count idx \<le> hosts_max_records limits" using ok by (simp add: hosts_ok_def)
  show ?thesis
  proof (cases "record \<in> set rs")
    case True
    with ins Some have "idx' = set_owner_map owner (AList.update owner rs (owner_map owner idx)) idx"
      by (simp add: hosts_insert_known)
    then show ?thesis
      using hosts_ok_set_owner [OF ok rs _ count, of owner] Some by (simp add: same)
  next
    case False
    with ins Some rs have "records_ok (rs @ [record])" by (intro records_ok_snoc) (simp_all add: hosts_insert_known)
    with ins Some False show ?thesis
      using hosts_ok_set_owner [OF ok, of "rs @ [record]" "hosts_record_count idx + 1" owner]
      by (simp add: hosts_insert_known)
  qed
qed


text \<open>Every successful parse yields an index that satisfies the invariant.\<close>

lemma insert_names_ok:
  "insert_names lib limits line address names idx = Inr idx' \<Longrightarrow> hosts_ok limits idx \<Longrightarrow> hosts_ok limits idx'"
  by (induction lib limits line address names idx rule: insert_names.induct) (auto dest: hosts_insert_ok)

lemma parse_hosts_line_ok:
  "parse_hosts_line lib limits line raw idx = Inr idx' \<Longrightarrow> hosts_ok limits idx \<Longrightarrow> hosts_ok limits idx'"
  by (auto simp: parse_hosts_line_def Let_def split: if_splits list.splits dest: insert_names_ok)

lemma parse_hosts_lines_ok:
  "parse_hosts_lines lib limits line raws idx = Inr idx' \<Longrightarrow> hosts_ok limits idx \<Longrightarrow> hosts_ok limits idx'"
  by (induction lib limits line raws idx rule: parse_hosts_lines.induct) (auto dest: parse_hosts_line_ok)

lemma insert_json_values_ok:
  "insert_json_values lib limits owner ty vals idx = Inr idx' \<Longrightarrow> hosts_ok limits idx \<Longrightarrow> hosts_ok limits idx'"
  by (induction lib limits owner ty vals idx rule: insert_json_values.induct) (auto dest: hosts_insert_ok)

lemma insert_json_records_ok:
  "insert_json_records lib limits owner recs idx = Inr idx' \<Longrightarrow> hosts_ok limits idx \<Longrightarrow> hosts_ok limits idx'"
  by (induction lib limits owner recs idx rule: insert_json_records.induct) (auto dest: insert_json_values_ok)

lemma insert_json_entries_ok:
  "insert_json_entries lib limits entries idx = Inr idx' \<Longrightarrow> hosts_ok limits idx \<Longrightarrow> hosts_ok limits idx'"
proof (induction entries arbitrary: idx)
  case (Cons e entries)
  obtain name entry where "e = (name, entry)" by (cases e)
  with Cons show ?case by (cases entry) (auto split: if_splits dest: insert_json_records_ok)
qed simp

section \<open>Lookup\<close>

text \<open>The owners that match a name, most specific first: the name itself, then \<open>*.s\<close> for the
  texts \<open>s\<close> after its dots, from the longest.\<close>

lemma wildcard_lookup_iff:
  assumes "ls \<noteq> []"
  shows "wildcard_lookup m ls = Some rs \<longleftrightarrow>
    (\<exists>k. 0 < k \<and> k < length ls \<and> map_of m (CanonicalDomain (''*.'' @ join (CHR ''.'') (drop k ls))) = Some rs \<and>
      (\<forall>j. 0 < j \<and> j < k \<longrightarrow> map_of m (CanonicalDomain (''*.'' @ join (CHR ''.'') (drop j ls))) = None))"
  using assms
proof (induction m ls rule: wildcard_lookup.induct)
  case (1 m)
  then show ?case by simp
next
  case (2 m label labels)
  let ?f = "\<lambda>k. map_of m (CanonicalDomain (''*.'' @ join (CHR ''.'') (drop k labels)))"
  show ?case
  proof (cases "labels = []")
    case True
    then show ?thesis by simp
  next
    case ne: False
    have shift: "(\<exists>k. 0 < k \<and> k < Suc (length labels) \<and> map_of m (CanonicalDomain (''*.'' @ join (CHR ''.'') (drop k (label # labels)))) = Some rs \<and>
        (\<forall>j. 0 < j \<and> j < k \<longrightarrow> map_of m (CanonicalDomain (''*.'' @ join (CHR ''.'') (drop j (label # labels)))) = None)) \<longleftrightarrow>
      (\<exists>k < length labels. ?f k = Some rs \<and> (\<forall>j < k. ?f j = None))" (is "?l \<longleftrightarrow> ?r")
    proof
      assume ?l
      then obtain k where k: "0 < k" "k < Suc (length labels)"
        "map_of m (CanonicalDomain (''*.'' @ join (CHR ''.'') (drop k (label # labels)))) = Some rs"
        and least: "\<And>j. 0 < j \<Longrightarrow> j < k \<Longrightarrow>
          map_of m (CanonicalDomain (''*.'' @ join (CHR ''.'') (drop j (label # labels)))) = None"
        by (elim exE conjE) blast
      from k obtain k' where "k = Suc k'" by (cases k) auto
      with k least show ?r by (intro exI [of _ k']) (use least [of "Suc _"] in auto)
    next
      assume ?r
      then obtain k where "k < length labels" "?f k = Some rs" "\<forall>j < k. ?f j = None" by blast
      then show ?l by (intro exI [of _ "Suc k"]) (auto simp: less_Suc_eq_0_disj)
    qed
    show ?thesis
    proof (cases "?f 0")
      case None
      have "(\<exists>k < length labels. ?f k = Some rs \<and> (\<forall>j < k. ?f j = None)) \<longleftrightarrow>
        (\<exists>k. 0 < k \<and> k < length labels \<and> ?f k = Some rs \<and> (\<forall>j. 0 < j \<and> j < k \<longrightarrow> ?f j = None))"
        using None by (metis gr0I option.distinct(1))
      with None ne "2.IH" [OF ne _ ne] shift show ?thesis by simp
    next
      case (Some r)
      have "(\<exists>k < length labels. ?f k = Some rs \<and> (\<forall>j < k. ?f j = None)) \<longleftrightarrow> r = rs"
        using Some ne by (metis gr0I length_greater_0_conv option.distinct(1) option.inject less_nat_zero_code)
      with Some ne shift show ?thesis by simp
    qed
  qed
qed


lemma hosts_lookup_wildcard:
  assumes "map_of (hosts_exact idx) name = None" "\<not> is_wildcard name"
  shows "hosts_lookup idx name = Some rs \<longleftrightarrow>
    (\<exists>k. 0 < k \<and> k < label_count (as_str name) \<and>
      map_of (hosts_wildcard idx) (CanonicalDomain (''*.'' @ label_suffix k (as_str name))) = Some rs \<and>
      (\<forall>j. 0 < j \<and> j < k \<longrightarrow>
        map_of (hosts_wildcard idx) (CanonicalDomain (''*.'' @ label_suffix j (as_str name))) = None))"
  using assms wildcard_lookup_iff [of "split_on (CHR ''.'') (as_str name)" "hosts_wildcard idx" rs]
  by (simp add: hosts_lookup_def label_suffix_def label_count_def)

section \<open>Properties\<close>

lemma hosts_parsers_ok:
  "parse_hosts_with_limits lib input limits = Inr idx \<Longrightarrow> hosts_ok limits idx"
  "hosts_parse_json_with_limits lib yaml_from_str input limits = Inr idx \<Longrightarrow> hosts_ok limits idx"
  by (auto simp: parse_hosts_with_limits_def hosts_parse_json_with_limits_def
      dest: parse_hosts_lines_ok insert_json_entries_ok split: if_splits)

text \<open>
  An index built by either parser respects the limits on records and on owner names,
  counts its records exactly, keeps exact and wildcard owners apart, and never mixes addresses with
  a CNAME or holds two different CNAMEs under one owner.
\<close>

lemma hosts_parsers_establish_invariant:
  "(parse_hosts_with_limits lib input limits = Inr idx \<longrightarrow> hosts_ok limits idx) \<and>
   (hosts_parse_json_with_limits lib yaml_from_str input limits = Inr idx \<longrightarrow> hosts_ok limits idx)"
  by (blast intro: hosts_parsers_ok)

lemma hosts_parsers_establish_invariant_witness:
  "\<exists>idx. parse_hosts_with_limits text_name_lib ''1.2.3.4 A.b *.c # x'' hosts_limits_default = Inr idx \<and>
     hosts_ok hosts_limits_default idx \<and> hosts_record_count idx = 2"
proof -
  have "parse_hosts_with_limits text_name_lib ''1.2.3.4 A.b *.c # x'' hosts_limits_default =
    Inr \<lparr>hosts_exact = [(CanonicalDomain ''a.b'', [Address (V4 0x01020304)])],
         hosts_wildcard = [(CanonicalDomain ''*.c'', [Address (V4 0x01020304)])], hosts_record_count = 2\<rparr>"
    by code_simp
  then show ?thesis using hosts_parsers_establish_invariant by fastforce
qed

text \<open>
  Property C29: a lookup returns the records of the name itself if it is an exact owner, and
  otherwise those of the wildcard owner \<open>*.s\<close> with the longest text \<open>s\<close> after a dot of the name;
  the apex \<open>s\<close> itself is not covered by \<open>*.s\<close>.
\<close>

theorem hosts_lookup_most_specific:
  assumes "\<not> is_wildcard name"
  shows "hosts_lookup idx name = Some rs \<longleftrightarrow>
    map_of (hosts_exact idx) name = Some rs \<or>
    map_of (hosts_exact idx) name = None \<and>
    (\<exists>s. below (as_str name) s \<and>
      map_of (hosts_wildcard idx) (CanonicalDomain (''*.'' @ s)) = Some rs \<and>
      (\<forall>t. below (as_str name) t \<and> length s < length t \<longrightarrow>
        map_of (hosts_wildcard idx) (CanonicalDomain (''*.'' @ t)) = None))"
proof (cases "map_of (hosts_exact idx) name")
  case None
  then show ?thesis
    using hosts_lookup_wildcard [OF None assms, of rs]
      first_below_longest [of "as_str name"
        "\<lambda>s. map_of (hosts_wildcard idx) (CanonicalDomain (''*.'' @ s)) = Some rs"
        "\<lambda>s. map_of (hosts_wildcard idx) (CanonicalDomain (''*.'' @ s)) = None"]
    by (simp add: Suc_le_eq)
qed (simp add: hosts_lookup_def)

theorem hosts_lookup_most_specific_witness:
  "hosts_lookup \<lparr>hosts_exact = [], hosts_wildcard = [(CanonicalDomain ''*.b'', [Address (V4 1)]),
       (CanonicalDomain ''*.a.b'', [Address (V4 2)])], hosts_record_count = 2\<rparr> (CanonicalDomain ''x.a.b'') =
     Some [Address (V4 2)] \<and>
   (\<exists>s. below ''x.a.b'' s \<and> map_of [(CanonicalDomain ''*.b'', [Address (V4 1)]),
       (CanonicalDomain ''*.a.b'', [Address (V4 2)])] (CanonicalDomain (''*.'' @ s)) = Some [Address (V4 2)])"
proof -
  let ?idx = "\<lparr>hosts_exact = [], hosts_wildcard = [(CanonicalDomain ''*.b'', [Address (V4 1)]),
       (CanonicalDomain ''*.a.b'', [Address (V4 2)])], hosts_record_count = 2\<rparr>"
  have "\<not> is_wildcard (CanonicalDomain ''x.a.b'')"
    "hosts_lookup ?idx (CanonicalDomain ''x.a.b'') = Some [Address (V4 2)]" by code_simp+
  then show ?thesis
    using hosts_lookup_most_specific [of "CanonicalDomain ''x.a.b''" ?idx "[Address (V4 2)]"]
    by (simp only: hosts_index.simps canonical_domain.sel map_of.simps option.simps simp_thms) blast
qed

end
