(* ===== verification/Resource_Loader.thy ===== *)
theory Resource_Loader
  imports Rule_Parse Hosts Config_Types
begin

text \<open>
  The bounded loaders of hosts resources and rule sets (\<open>backend/src/resource/loader.rs\<close>) and the
  content fingerprint (\<open>backend/src/config/hash.rs\<close>). The file system is the environment: a history
  gives its state at every system call of the loader, and others may change it in any way between two of them, also
  between the reads of one file. The clock reading of \<open>SystemTime::now\<close> is an argument.
\<close>

section \<open>Content fingerprints\<close>

definition fnv_step :: "64 word \<Rightarrow> byte \<Rightarrow> 64 word" where
  "fnv_step hash b = (hash XOR ucast b) * 0x100000001b3"

definition hex_digit :: "nat \<Rightarrow> char" where
  "hex_digit n = (if n < 10 then char_of (48 + n) else char_of (87 + n))"

definition hex16 :: "64 word \<Rightarrow> string" where
  "hex16 w = map (\<lambda>i. hex_digit (unat w div 16 ^ i mod 16)) (rev [0..<16])"

definition deterministic_hash :: "byte list \<Rightarrow> string" where
  "deterministic_hash input = hex16 (foldl fnv_step 0xcbf29ce484222325 input)"

section \<open>Files as the loader sees them\<close>

datatype dir_entry =
    EntryError
  | EntrySymlink
  | EntryOther
  | EntryFile (entry_len: nat) (entry_modified: "int option")

text \<open>A state of the file system: what \<open>symlink_metadata\<close> reports for the path, which file opening the path gives,
  what each file holds (\<open>None\<close> where reading it fails), and how many bytes a read hands over at once. An open
  file stays the same file when the path is replaced.\<close>

record file_system =
  fs_entry :: dir_entry
  fs_node :: "nat option"
  fs_data :: "nat \<Rightarrow> byte list option"
  fs_chunk :: nat

type_synonym file_history = "nat \<Rightarrow> file_system"

record file_fingerprint =
  fp_byte_len :: nat
  fp_modified_unix_nanos :: "nat option"

datatype resource_source = SourceConst | SourceFile string file_fingerprint

record loaded_hosts_resource =
  lh_id :: config_id
  lh_source :: resource_source
  lh_content_hash :: string
  lh_fetched_at :: int
  lh_index :: hosts_index

record loaded_rule_set_resource =
  lr_id :: config_id
  lr_source :: resource_source
  lr_content_hash :: string
  lr_fetched_at :: int
  lr_index :: rule_index

datatype stable_read_error = StableSymlink | StableMetadata | StableRead | StableUnstableFile | StableTooLarge

datatype resource_load_error =
    LoadUnsupportedFormat string
  | LoadSymlink string
  | LoadMetadata string
  | LoadRead string
  | LoadUnstableFile string
  | LoadInvalidUtf8 string
  | LoadTooLarge string
  | LoadParse string hosts_parse_error

datatype rule_resource_load_error =
    RuleLoadUnsupportedFormat string
  | RuleLoadUnsupportedSource string string
  | RuleLoadSymlink string
  | RuleLoadMetadata string
  | RuleLoadRead string
  | RuleLoadUnstableFile string
  | RuleLoadInvalidUtf8 string
  | RuleLoadTooLarge string
  | RuleLoadParse string rule_parse_error

definition MAX_STABLE_READ_ATTEMPTS :: nat where
  "MAX_STABLE_READ_ATTEMPTS = 2"

definition unix_nanos :: "int \<Rightarrow> nat option" where
  "unix_nanos time = (if 0 \<le> time then Some (nat time) else None)"

definition inspect_file :: "file_system \<Rightarrow> stable_read_error + file_fingerprint" where
  "inspect_file fs =
     (case fs_entry fs of
        EntryError \<Rightarrow> Inl StableMetadata
      | EntrySymlink \<Rightarrow> Inl StableSymlink
      | EntryOther \<Rightarrow> Inl StableMetadata
      | EntryFile len modified \<Rightarrow>
          Inr \<lparr>fp_byte_len = len, fp_modified_unix_nanos = Option.bind modified unix_nanos\<rparr>)"

text \<open>\<open>read_to_end\<close> on an open file with a limit: reads until one gives nothing or the limit is reached. Each read
  is a system call of its own and continues where the last one ended; it gives at least one byte unless the file
  ends there. A read that is interrupted is repeated by the library and is not counted.\<close>

definition read_size :: "nat \<Rightarrow> nat \<Rightarrow> nat \<Rightarrow> nat" where
  "read_size chunk limit left = min (max 1 chunk) (min limit left)"

lemma read_size_bounds [simp]:
  "read_size chunk limit left = 0 \<longleftrightarrow> limit = 0 \<or> left = 0" "read_size chunk limit left \<le> limit" "read_size chunk limit left \<le> left"
  by (auto simp: read_size_def min_def max_def)

function read_to_end :: "file_history \<Rightarrow> nat \<Rightarrow> nat \<Rightarrow> byte list \<Rightarrow> nat \<Rightarrow> stable_read_error + (byte list \<times> nat)" where
  "read_to_end history node limit bytes t =
     (if limit = 0 then Inr (bytes, t)
      else
        and_then (ok_or StableRead (fs_data (history t) node)) (\<lambda>content.
          let count = read_size (fs_chunk (history t)) limit (length content - length bytes) in
          if count = 0 then Inr (bytes, Suc t)
          else read_to_end history node (limit - count) (bytes @ take count (drop (length bytes) content)) (Suc t)))"
  by pat_completeness auto
termination by (relation "measure (\<lambda>(_, _, limit, _, _). limit)") (auto simp flip: neq0_conv)

declare read_to_end.simps [simp del]

lemma read_to_end_unfold:
  fixes bytes :: "byte list" and limit :: nat
  assumes "fs_data (history t) node = Some content"
  defines "count \<equiv> read_size (fs_chunk (history t)) limit (length content - length bytes)"
  shows "read_to_end history node limit bytes t =
    (if limit = 0 then Inr (bytes, t) else if length content \<le> length bytes then Inr (bytes, Suc t)
     else read_to_end history node (limit - count) (bytes @ take count (drop (length bytes) content)) (Suc t))"
  using assms(1) unfolding read_to_end.simps [of history node limit bytes t] count_def by (simp add: Let_def)

text \<open>One pass of the loop inspects the path at time \<open>t\<close>, opens it at \<open>t + 1\<close>, reads from \<open>t + 2\<close> on and inspects
  the path again after the last read.\<close>

fun read_stable_loop ::
  "nat \<Rightarrow> file_history \<Rightarrow> nat \<Rightarrow> nat \<Rightarrow> stable_read_error + (byte list \<times> file_fingerprint)" where
  "read_stable_loop 0 history t max_bytes = Inl StableUnstableFile"
| "read_stable_loop (Suc attempts) history t max_bytes =
     and_then (inspect_file (history t)) (\<lambda>before.
     and_then (ok_or StableRead (fs_node (history (t + 1)))) (\<lambda>node.
     and_then (read_to_end history node (saturating_add max_bytes 1) [] (t + 2)) (\<lambda>(bytes, u).
       if max_bytes < length bytes then Inl StableTooLarge
       else and_then (inspect_file (history u)) (\<lambda>after.
         if before = after \<and> fp_byte_len before = length bytes then Inr (bytes, before)
         else read_stable_loop attempts history (Suc u) max_bytes))))"

definition read_stable_file ::
  "file_history \<Rightarrow> nat \<Rightarrow> stable_read_error + (byte list \<times> file_fingerprint)" where
  "read_stable_file history max_bytes = read_stable_loop MAX_STABLE_READ_ATTEMPTS history 0 max_bytes"

fun map_hosts_file_error :: "config_id \<Rightarrow> stable_read_error \<Rightarrow> resource_load_error" where
  "map_hosts_file_error i StableSymlink = LoadSymlink (id_str i)"
| "map_hosts_file_error i StableMetadata = LoadMetadata (id_str i)"
| "map_hosts_file_error i StableRead = LoadRead (id_str i)"
| "map_hosts_file_error i StableUnstableFile = LoadUnstableFile (id_str i)"
| "map_hosts_file_error i StableTooLarge = LoadTooLarge (id_str i)"

fun map_rule_file_error :: "config_id \<Rightarrow> stable_read_error \<Rightarrow> rule_resource_load_error" where
  "map_rule_file_error i StableSymlink = RuleLoadSymlink (id_str i)"
| "map_rule_file_error i StableMetadata = RuleLoadMetadata (id_str i)"
| "map_rule_file_error i StableRead = RuleLoadRead (id_str i)"
| "map_rule_file_error i StableUnstableFile = RuleLoadUnstableFile (id_str i)"
| "map_rule_file_error i StableTooLarge = RuleLoadTooLarge (id_str i)"

section \<open>The loaders\<close>

fun hosts_input ::
  "(string \<Rightarrow> file_history) \<Rightarrow> hosts_limits \<Rightarrow> resolved_hosts_resource \<Rightarrow>
     resource_load_error + (config_id \<times> hosts_format \<times> resource_source \<times> byte list)" where
  "hosts_input files limits (HostsConst i format hosts) = Inr (i, format, SourceConst, as_bytes hosts)"
| "hosts_input files limits (HostsFile i format path auto_update update_interval) =
     and_then (map_err (map_hosts_file_error i) (read_stable_file (files path) (hosts_max_input_bytes limits)))
       (\<lambda>(bytes, fingerprint). Inr (i, format, SourceFile path fingerprint, bytes))"

definition load_hosts ::
  "'n name_lib \<Rightarrow> (string \<Rightarrow> (string \<times> json_host_entry) list option) \<Rightarrow> (string \<Rightarrow> file_history) \<Rightarrow> int \<Rightarrow>
     resolved_hosts_resource \<Rightarrow> hosts_limits \<Rightarrow> resource_load_error + loaded_hosts_resource" where
  "load_hosts lib yaml_from_str files now resource limits =
     and_then (hosts_input files limits resource) (\<lambda>(i, format, source, bytes).
       if hosts_max_input_bytes limits < length bytes then Inl (LoadTooLarge (id_str i))
       else and_then (ok_or (LoadInvalidUtf8 (id_str i)) (from_utf8 bytes)) (\<lambda>text.
         and_then (map_err (LoadParse (id_str i))
             (case format of
                HostsFormatHosts \<Rightarrow> parse_hosts_with_limits lib text limits
              | HostsFormatJson \<Rightarrow> hosts_parse_json_with_limits lib yaml_from_str text limits)) (\<lambda>index.
           Inr \<lparr>lh_id = i, lh_source = source, lh_content_hash = deterministic_hash bytes,
                lh_fetched_at = now, lh_index = index\<rparr>)))"

fun rule_set_input ::
  "(string \<Rightarrow> file_history) \<Rightarrow> rule_limits \<Rightarrow> resolved_rule_set \<Rightarrow>
     rule_resource_load_error + (config_id \<times> rule_set_format \<times> resource_source \<times> byte list)" where
  "rule_set_input files limits (RuleSetConst i format rule) = Inr (i, format, SourceConst, as_bytes rule)"
| "rule_set_input files limits (RuleSetFile i format path auto_update update_interval) =
     and_then (map_err (map_rule_file_error i) (read_stable_file (files path) (max_input_bytes limits)))
       (\<lambda>(bytes, fingerprint). Inr (i, format, SourceFile path fingerprint, bytes))"
| "rule_set_input files limits (RuleSetRemote i format url proxy auto_update update_interval) =
     Inl (RuleLoadUnsupportedSource (id_str i) ''remote'')"

definition load_rule_set ::
  "'n name_lib \<Rightarrow> (string \<Rightarrow> json_rule_document option) \<Rightarrow> (string \<Rightarrow> file_history) \<Rightarrow> int \<Rightarrow>
     resolved_rule_set \<Rightarrow> rule_limits \<Rightarrow> rule_resource_load_error + loaded_rule_set_resource" where
  "load_rule_set lib json_from_str files now resource limits =
     and_then (rule_set_input files limits resource) (\<lambda>(i, format, source, bytes).
       if max_input_bytes limits < length bytes then Inl (RuleLoadTooLarge (id_str i))
       else and_then
         (if format = FormatDat
          then map_err (RuleLoadParse (id_str i)) (parse_bytes_with_limits lib json_from_str bytes format limits)
          else and_then (ok_or (RuleLoadInvalidUtf8 (id_str i)) (from_utf8 bytes)) (\<lambda>text.
            map_err (RuleLoadParse (id_str i)) (parse_with_limits lib json_from_str text format limits))) (\<lambda>index.
         Inr \<lparr>lr_id = i, lr_source = source, lr_content_hash = deterministic_hash bytes,
              lr_fetched_at = now, lr_index = index\<rparr>))"

fun hosts_resource_id :: "resolved_hosts_resource \<Rightarrow> config_id" where
  "hosts_resource_id (HostsConst i _ _) = i"
| "hosts_resource_id (HostsFile i _ _ _ _) = i"

fun rule_set_id :: "resolved_rule_set \<Rightarrow> config_id" where
  "rule_set_id (RuleSetConst i _ _) = i"
| "rule_set_id (RuleSetFile i _ _ _ _) = i"
| "rule_set_id (RuleSetRemote i _ _ _ _ _) = i"

section \<open>Lemmas on the fingerprint\<close>

lemma fnv_prime_inverse: "(w :: 64 word) * 0x100000001b3 * 0xce965057aff6957b = w"
proof -
  have "(0x100000001b3 * 0xce965057aff6957b :: 64 word) = 1" by code_simp
  then show ?thesis by (simp only: mult.assoc mult_1_right)
qed

lemma fnv_step_inject:
  "fnv_step h b = fnv_step h' b \<longleftrightarrow> h = h'"
  "fnv_step h b = fnv_step h b' \<longleftrightarrow> b = b'"
proof -
  have mult: "(v :: 64 word) * 0x100000001b3 = w * 0x100000001b3 \<longleftrightarrow> v = w" for v w
    by (metis fnv_prime_inverse)
  have xor: "(h XOR x = h' XOR x) \<longleftrightarrow> h = h'" "(h XOR x = h XOR y) \<longleftrightarrow> x = y" for h h' x y :: "64 word"
    by (auto simp: bit_eq_iff bit_xor_iff)
  have "ucast (ucast c :: 64 word) = c" for c :: byte
    by (rule bit_word_eqI) (auto simp: bit_unsigned_iff)
  then have "(ucast b :: 64 word) = ucast b' \<longleftrightarrow> b = b'" by metis
  then show "fnv_step h b = fnv_step h' b \<longleftrightarrow> h = h'" "fnv_step h b = fnv_step h b' \<longleftrightarrow> b = b'"
    by (simp_all add: fnv_step_def mult xor)
qed

lemma foldl_fnv_inject: "foldl fnv_step h bs = foldl fnv_step h' bs \<longleftrightarrow> h = h'"
  by (induction bs arbitrary: h h') (simp_all add: fnv_step_inject)

lemma hex_digit_inject: "m < 16 \<Longrightarrow> n < 16 \<Longrightarrow> hex_digit m = hex_digit n \<longleftrightarrow> m = n"
proof -
  assume "m < 16" "n < 16"
  then have "m \<in> set [0..<16]" "n \<in> set [0..<16]" by auto
  moreover have "list_all (\<lambda>m. list_all (\<lambda>n. (hex_digit m = hex_digit n) = (m = n)) [0..<16]) [0..<16]" by code_simp
  ultimately show ?thesis unfolding list_all_iff by blast
qed

lemma base16_digits_inject:
  fixes a b :: nat
  assumes "\<forall>i < n. a div 16 ^ i mod 16 = b div 16 ^ i mod 16" "a < 16 ^ n" "b < 16 ^ n"
  shows "a = b"
  using assms
proof (induction n arbitrary: a b)
  case (Suc n)
  have "a div 16 = b div 16"
  proof (rule Suc.IH)
    show "\<forall>i < n. a div 16 div 16 ^ i mod 16 = b div 16 div 16 ^ i mod 16"
      using Suc.prems(1) by (auto simp: div_mult2_eq [symmetric] dest: spec [of _ "Suc _"])
  qed (use Suc.prems in auto)
  moreover have "a mod 16 = b mod 16" using Suc.prems(1) by (auto dest: spec [of _ 0])
  ultimately show ?case by (metis div_mult_mod_eq)
qed simp

lemma hex16_inject: "hex16 v = hex16 w \<longleftrightarrow> v = w"
proof
  assume "hex16 v = hex16 w"
  then have "\<forall>i < 16. unat v div 16 ^ i mod 16 = unat w div 16 ^ i mod 16"
    by (simp add: hex16_def hex_digit_inject atLeast0LessThan)
  then have "unat v = unat w"
    by (rule base16_digits_inject)
      (use unsigned_less [where ?'a = nat and w = v] unsigned_less [where ?'a = nat and w = w] in simp_all)
  then show "v = w" by (rule unsigned_word_eqI)
qed simp

lemma hex16_length: "length (hex16 w) = 16"
  by (simp add: hex16_def)

section \<open>Lemmas on the reads\<close>

lemma inspect_file_Inr:
  "inspect_file fs = Inr fp \<longleftrightarrow>
     (\<exists>len modified. fs_entry fs = EntryFile len modified \<and>
        fp = \<lparr>fp_byte_len = len, fp_modified_unix_nanos = Option.bind modified unix_nanos\<rparr>)"
  by (auto simp: inspect_file_def split: dir_entry.splits)

text \<open>The ways a run of reads can end or go on.\<close>

lemma read_to_end_step:
  assumes "read_to_end history node limit bytes t = Inr (result, u)"
  obtains (full) "limit = 0" "result = bytes" "u = t"
  | (eof) content where "0 < limit" "fs_data (history t) node = Some content" "length content \<le> length bytes" "result = bytes" "u = Suc t"
  | (more) content count where "0 < count" "count \<le> limit" "count \<le> length content - length bytes" "fs_data (history t) node = Some content"
      "read_to_end history node (limit - count) (bytes @ take count (drop (length bytes) content)) (Suc t) = Inr (result, u)"
proof (cases "limit = 0")
  case True
  then show thesis using assms full by (simp add: read_to_end.simps)
next
  case False
  with assms obtain content where content: "fs_data (history t) node = Some content"
    unfolding read_to_end.simps [of history node limit bytes t] by auto
  note run = assms [unfolded read_to_end_unfold [where history = history and t = t, OF content] if_not_P [OF False]]
  show thesis
  proof (cases "length content \<le> length bytes")
    case True
    then have "result = bytes" "u = Suc t" using run by simp_all
    then show thesis using False content True by (intro eof [of content]) simp_all
  next
    case more': False
    show thesis
      by (rule more [OF _ _ _ content run [unfolded if_not_P [OF more']]]) (use False more' in \<open>simp_all flip: neq0_conv\<close>)
  qed
qed

lemma read_to_end_later:
  "read_to_end history node limit bytes t = Inr (result, u) \<Longrightarrow>
     t \<le> u \<and> length result \<le> length bytes + limit \<and> (0 < limit \<longrightarrow> t < u \<and> fs_data (history t) node \<noteq> None)"
proof (induction limit arbitrary: bytes t rule: less_induct)
  case (less limit)
  from less.prems show ?case
  proof (cases rule: read_to_end_step)
    case (more content count)
    then have "limit - count < limit" by simp
    from less.IH [OF this more(5)] more show ?thesis by auto
  qed auto
qed

text \<open>Reads of a file that holds the same content at each of them give a beginning of it, and all of it when they end
  before the limit.\<close>

lemma read_to_end_constant:
  "read_to_end history node limit bytes t = Inr (result, u) \<Longrightarrow> prefix bytes content \<Longrightarrow>
     \<forall>v. t \<le> v \<longrightarrow> v < u \<longrightarrow> fs_data (history v) node = Some content \<Longrightarrow>
     prefix result content \<and> (length result < length bytes + limit \<longrightarrow> result = content)"
proof (induction limit arbitrary: bytes t rule: less_induct)
  case (less limit)
  from less.prems(1) show ?case
  proof (cases rule: read_to_end_step)
    case (eof content')
    then have "content' = content" using less.prems(3) by simp
    with eof less.prems(2) show ?thesis by (auto simp: prefix_def)
  next
    case (more content' count)
    have "t < u" using read_to_end_later [OF less.prems(1)] more(1,2) by simp
    then have same: "content' = content" using more(4) less.prems(3) by auto
    obtain rest where rest: "content = bytes @ rest" using less.prems(2) by (auto simp: prefix_def)
    then have "prefix (bytes @ take count (drop (length bytes) content')) content" by (simp add: same take_is_prefix)
    moreover have "limit - count < limit" using more(1,2) by simp
    moreover have "length (bytes @ take count (drop (length bytes) content')) + (limit - count) = length bytes + limit"
      using more(2,3) by simp
    ultimately show ?thesis using less.IH [OF _ more(5)] less.prems(3) by simp
  qed (use less.prems(2) in auto)
qed

lemma read_to_end_total:
  "prefix bytes content \<Longrightarrow> \<forall>v \<ge> t. fs_data (history v) node = Some content \<Longrightarrow>
     \<exists>u \<ge> t. read_to_end history node limit bytes t = Inr (take (length bytes + limit) content, u)"
proof (induction limit arbitrary: bytes t rule: less_induct)
  case (less limit)
  obtain rest where rest: "content = bytes @ rest" using less.prems(1) by (auto simp: prefix_def)
  have shown: "fs_data (history t) node = Some content" using less.prems(2) by simp
  define count where "count = read_size (fs_chunk (history t)) limit (length content - length bytes)"
  have count: "count = 0 \<longleftrightarrow> limit = 0 \<or> rest = []" "count \<le> limit" "count \<le> length rest" by (simp_all add: count_def rest)
  note run = read_to_end_unfold [where history = history and t = t and limit = limit and bytes = bytes, OF shown, folded count_def]
  show ?case
  proof (cases "count = 0")
    case True
    then show ?thesis using count(1) unfolding run by (auto simp: rest)
  next
    case False
    let ?front = "bytes @ take count (drop (length bytes) content)"
    have "limit - count < limit" "prefix ?front content" "\<forall>v \<ge> Suc t. fs_data (history v) node = Some content"
      using less.prems(2) count False by (auto simp: rest take_is_prefix)
    from less.IH [OF this] obtain u where u: "Suc t \<le> u"
      "read_to_end history node (limit - count) ?front (Suc t) = Inr (take (length ?front + (limit - count)) content, u)" by blast
    have "length ?front + (limit - count) = length bytes + limit" using count by (simp add: rest)
    then have "read_to_end history node limit bytes t = Inr (take (length bytes + limit) content, u)"
      using u(2) count(1) False unfolding run by (simp add: rest)
    then show ?thesis using u(1) by (intro exI [of _ u]) simp
  qed
qed

lemma read_stable_loop_Inr:
  "read_stable_loop n history t max_bytes = Inr (bytes, fp) \<Longrightarrow>
     \<exists>t' u node. inspect_file (history t') = Inr fp \<and> fs_node (history (t' + 1)) = Some node \<and>
       read_to_end history node (saturating_add max_bytes 1) [] (t' + 2) = Inr (bytes, u) \<and> inspect_file (history u) = Inr fp \<and>
       fp_byte_len fp = length bytes \<and> length bytes \<le> max_bytes"
proof (induction n arbitrary: t)
  case (Suc n)
  from Suc.prems obtain before node read u after where step: "inspect_file (history t) = Inr before" "fs_node (history (t + 1)) = Some node"
    "read_to_end history node (saturating_add max_bytes 1) [] (t + 2) = Inr (read, u)" "length read \<le> max_bytes"
    "inspect_file (history u) = Inr after"
    by (auto split: if_splits)
  then have eq: "read_stable_loop (Suc n) history t max_bytes =
      (if before = after \<and> fp_byte_len before = length read then Inr (read, before) else read_stable_loop n history (Suc u) max_bytes)"
    by simp
  show ?case
  proof (cases "before = after \<and> fp_byte_len before = length read")
    case True
    have "read = bytes" "before = fp" using Suc.prems unfolding eq if_P [OF True] by simp_all
    with step True show ?thesis by blast
  next
    case False
    then show ?thesis using Suc.IH [of "Suc u"] Suc.prems unfolding eq if_not_P [OF False] by simp
  qed
qed simp

text \<open>What the path shows, and the promise of the file system the loader builds on: the modification time never goes
  back, and when the path shows another file or another content, its modification time is a later one.\<close>

definition path_content :: "file_system \<Rightarrow> byte list option" where
  "path_content fs = Option.bind (fs_node fs) (fs_data fs)"

definition stamped :: "(nat \<Rightarrow> int) \<Rightarrow> file_history \<Rightarrow> bool" where
  "stamped stamp history \<longleftrightarrow> (\<forall>t. stamp t \<le> stamp (Suc t) \<and>
     (fs_node (history (Suc t)) \<noteq> fs_node (history t) \<or> path_content (history (Suc t)) \<noteq> path_content (history t) \<longrightarrow>
        stamp t < stamp (Suc t)) \<and>
     (\<forall>len modified. fs_entry (history t) = EntryFile len (Some modified) \<longrightarrow> modified = stamp t))"

lemma stamped_mono: "stamped stamp history \<Longrightarrow> t \<le> u \<Longrightarrow> stamp t \<le> stamp u"
  by (rule lift_Suc_mono_le) (simp_all add: stamped_def)

lemma stamped_unchanged:
  assumes "stamped stamp history" "stamp t = stamp u" "t \<le> v" "v \<le> u"
  shows "fs_node (history v) = fs_node (history t) \<and> path_content (history v) = path_content (history t)"
  using assms(3,4)
proof (induction rule: dec_induct)
  case (step w)
  have "stamp t \<le> stamp w" "stamp (Suc w) \<le> stamp u" using stamped_mono [OF assms(1)] step by simp_all
  then have "\<not> stamp w < stamp (Suc w)" using assms(2) by simp
  then have "fs_node (history (Suc w)) = fs_node (history w)" "path_content (history (Suc w)) = path_content (history w)"
    using assms(1) unfolding stamped_def by blast+
  then show ?case using step by simp
qed simp

lemma inspect_stamped:
  assumes "stamped stamp history" "inspect_file (history t) = Inr fp" "fp_modified_unix_nanos fp = Some nanos"
  shows "stamp t = int nanos"
  using assms by (auto simp: inspect_file_Inr stamped_def unix_nanos_def split: if_splits bind_splits)

lemma stable_read_whole:
  assumes "inspect_file (history t) = Inr fp" "fs_node (history (t + 1)) = Some node"
    "read_to_end history node (saturating_add max_bytes 1) [] (t + 2) = Inr (bytes, u)" "inspect_file (history u) = Inr fp"
    "length bytes \<le> max_bytes" "max_bytes < u64_max" "stamped stamp history" "fp_modified_unix_nanos fp \<noteq> None" "t \<le> v" "v \<le> u"
  shows "path_content (history v) = Some bytes"
proof -
  have limit: "saturating_add max_bytes 1 = max_bytes + 1" using assms(6) by (simp add: saturating_add_def)
  have u: "t + 2 < u" "fs_data (history (t + 2)) node \<noteq> None" using read_to_end_later [OF assms(3)] unfolding limit by simp_all
  obtain nanos where "fp_modified_unix_nanos fp = Some nanos" using assms(8) by blast
  then have same: "stamp t = stamp u" using inspect_stamped [OF assms(7)] assms(1,4) by simp
  note unchanged = stamped_unchanged [OF assms(7) same]
  have node: "fs_node (history w) = Some node" if "t \<le> w" "w \<le> u" for w
    using unchanged [of w] unchanged [of "t + 1"] that u(1) assms(2) by simp
  then have data: "path_content (history w) = fs_data (history w) node" if "t \<le> w" "w \<le> u" for w
    using that by (simp add: path_content_def)
  obtain content where "fs_data (history (t + 2)) node = Some content" using u(2) by blast
  then have shown: "path_content (history w) = Some content" if "t \<le> w" "w \<le> u" for w
    using unchanged [of w] unchanged [of "t + 2"] data [of "t + 2"] that u(1) by simp
  have "bytes = content"
    using read_to_end_constant [OF assms(3), of content, unfolded limit] shown data assms(5) by simp
  then show ?thesis using shown assms(9,10) by simp
qed

text \<open>The file no longer changes from time \<open>t\<close> on.\<close>

definition settled :: "file_history \<Rightarrow> nat \<Rightarrow> byte list \<Rightarrow> int option \<Rightarrow> bool" where
  "settled history t content modified \<longleftrightarrow>
     (\<exists>node. \<forall>u \<ge> t. fs_entry (history u) = EntryFile (length content) modified \<and> fs_node (history u) = Some node \<and>
        fs_data (history u) node = Some content)"

lemma read_settled:
  assumes "settled history t content modified" "max_bytes < u64_max"
  shows "read_stable_loop (Suc n) history t max_bytes =
    (if length content \<le> max_bytes
     then Inr (content, \<lparr>fp_byte_len = length content, fp_modified_unix_nanos = Option.bind modified unix_nanos\<rparr>)
     else Inl StableTooLarge)"
proof -
  obtain node where node: "\<And>u. t \<le> u \<Longrightarrow> fs_entry (history u) = EntryFile (length content) modified \<and>
      fs_node (history u) = Some node \<and> fs_data (history u) node = Some content" using assms(1) by (auto simp: settled_def)
  obtain u where u: "t + 2 \<le> u" "read_to_end history node (max_bytes + 1) [] (t + 2) = Inr (take (max_bytes + 1) content, u)"
    using read_to_end_total [of "[]" content "t + 2" history node "max_bytes + 1"] node by auto
  have "saturating_add max_bytes 1 = max_bytes + 1" using assms(2) by (simp add: saturating_add_def)
  then show ?thesis using u node [of t] node [of "t + 1"] node [of u] by (auto simp: inspect_file_def)
qed

section \<open>Lemmas on the loaders\<close>

definition hosts_error_names :: "string \<Rightarrow> resource_load_error \<Rightarrow> bool" where
  "hosts_error_names n e \<longleftrightarrow>
     (case e of LoadUnsupportedFormat m \<Rightarrow> m | LoadSymlink m \<Rightarrow> m | LoadMetadata m \<Rightarrow> m | LoadRead m \<Rightarrow> m
      | LoadUnstableFile m \<Rightarrow> m | LoadInvalidUtf8 m \<Rightarrow> m | LoadTooLarge m \<Rightarrow> m | LoadParse m _ \<Rightarrow> m) = n"

definition rule_error_names :: "string \<Rightarrow> rule_resource_load_error \<Rightarrow> bool" where
  "rule_error_names n e \<longleftrightarrow>
     (case e of RuleLoadUnsupportedFormat m \<Rightarrow> m | RuleLoadUnsupportedSource m _ \<Rightarrow> m | RuleLoadSymlink m \<Rightarrow> m
      | RuleLoadMetadata m \<Rightarrow> m | RuleLoadRead m \<Rightarrow> m | RuleLoadUnstableFile m \<Rightarrow> m | RuleLoadInvalidUtf8 m \<Rightarrow> m
      | RuleLoadTooLarge m \<Rightarrow> m | RuleLoadParse m _ \<Rightarrow> m) = n"

lemma mapped_error_names [simp]:
  "hosts_error_names (id_str i) (map_hosts_file_error i e)" "rule_error_names (id_str i) (map_rule_file_error i e)"
  by (cases e; simp add: hosts_error_names_def rule_error_names_def)+

lemma hosts_input_id:
  "hosts_input files limits resource = Inr (i, format, source, bytes) \<Longrightarrow> i = hosts_resource_id resource"
  "hosts_input files limits resource = Inl e \<Longrightarrow> hosts_error_names (id_str (hosts_resource_id resource)) e"
  by (cases resource; auto simp: and_then_Inl_iff split: prod.splits)+

lemma rule_set_input_id:
  "rule_set_input files limits resource = Inr (i, format, source, bytes) \<Longrightarrow> i = rule_set_id resource"
  "rule_set_input files limits resource = Inl e \<Longrightarrow> rule_error_names (id_str (rule_set_id resource)) e"
  by (cases resource; auto simp: and_then_Inl_iff rule_error_names_def [of _ "RuleLoadUnsupportedSource _ _"] split: prod.splits)+

lemma hosts_parse_choice_ok:
  "(case format of HostsFormatJson \<Rightarrow> hosts_parse_json_with_limits lib yaml_from_str input limits
      | HostsFormatHosts \<Rightarrow> parse_hosts_with_limits lib input limits) = Inr idx \<Longrightarrow> hosts_ok limits idx"
  by (cases format) (auto dest: hosts_parsers_ok)

lemma load_hosts_cases:
  "case load_hosts lib yaml_from_str files now resource limits of
      Inl e \<Rightarrow> hosts_error_names (id_str (hosts_resource_id resource)) e
    | Inr loaded \<Rightarrow> lh_id loaded = hosts_resource_id resource \<and> hosts_ok limits (lh_index loaded) \<and>
        (\<exists>format bytes. hosts_input files limits resource = Inr (lh_id loaded, format, lh_source loaded, bytes) \<and>
          length bytes \<le> hosts_max_input_bytes limits \<and> lh_content_hash loaded = deterministic_hash bytes)"
proof (cases "load_hosts lib yaml_from_str files now resource limits")
  case (Inl e)
  show ?thesis unfolding Inl sum.case using Inl
    by (auto simp: load_hosts_def and_then_Inl_iff hosts_input_id hosts_error_names_def [of _ "LoadTooLarge _"]
        hosts_error_names_def [of _ "LoadInvalidUtf8 _"] hosts_error_names_def [of _ "LoadParse _ _"] split: if_splits dest: hosts_input_id(1))
next
  case (Inr loaded)
  show ?thesis unfolding Inr sum.case using Inr
    by (auto simp: load_hosts_def hosts_input_id split: if_splits dest: hosts_parse_choice_ok)
qed

lemma load_rule_set_cases:
  "case load_rule_set lib json_from_str files now resource limits of
      Inl e \<Rightarrow> rule_error_names (id_str (rule_set_id resource)) e
    | Inr loaded \<Rightarrow> lr_id loaded = rule_set_id resource \<and> rule_index_ok limits (lr_index loaded) \<and>
        (\<exists>format bytes. rule_set_input files limits resource = Inr (lr_id loaded, format, lr_source loaded, bytes) \<and>
          length bytes \<le> max_input_bytes limits \<and> lr_content_hash loaded = deterministic_hash bytes)"
proof (cases "load_rule_set lib json_from_str files now resource limits")
  case (Inl e)
  show ?thesis unfolding Inl sum.case using Inl
    by (auto simp: load_rule_set_def and_then_Inl_iff rule_set_input_id rule_error_names_def [of _ "RuleLoadTooLarge _"]
        rule_error_names_def [of _ "RuleLoadInvalidUtf8 _"] rule_error_names_def [of _ "RuleLoadParse _ _"] split: if_splits dest: rule_set_input_id(1))
next
  case (Inr loaded)
  show ?thesis unfolding Inr sum.case using Inr
    by (auto simp: load_rule_set_def rule_set_input_id split: if_splits dest: parse_bytes_ok parse_with_limits_ok)
qed

section \<open>Properties\<close>

text \<open>
  Property C37: a successful read has the length of the fingerprint, is within the limit, and the path had that
  fingerprint at an inspection before and at one after all the reads. If the file system gives every change of
  the file a later modification time and the fingerprint has one, the bytes are the whole content the path showed
  all the time between the two inspections, however the reads were cut and whatever was changed before or after. Conversely a
  regular file that does not change is read in full, or refused as too large exactly when it exceeds the limit.
\<close>

theorem read_stable_file_untorn:
  assumes "max_bytes < u64_max"
  shows "(read_stable_file history max_bytes = Inr (bytes, fp) \<longrightarrow>
      fp_byte_len fp = length bytes \<and> length bytes \<le> max_bytes \<and>
      (\<exists>t u. t < u \<and> inspect_file (history t) = Inr fp \<and> inspect_file (history u) = Inr fp \<and>
        (stamped stamp history \<and> fp_modified_unix_nanos fp \<noteq> None \<longrightarrow>
          (\<forall>v. t \<le> v \<and> v \<le> u \<longrightarrow> path_content (history v) = Some bytes)))) \<and>
    (settled history 0 content modified \<longrightarrow>
      read_stable_file history max_bytes =
        (if length content \<le> max_bytes
         then Inr (content, \<lparr>fp_byte_len = length content, fp_modified_unix_nanos = Option.bind modified unix_nanos\<rparr>)
         else Inl StableTooLarge))"
proof (intro conjI impI)
  assume "read_stable_file history max_bytes = Inr (bytes, fp)"
  then obtain t u node where run: "inspect_file (history t) = Inr fp" "fs_node (history (t + 1)) = Some node"
    "read_to_end history node (saturating_add max_bytes 1) [] (t + 2) = Inr (bytes, u)" "inspect_file (history u) = Inr fp"
    and len: "fp_byte_len fp = length bytes" "length bytes \<le> max_bytes"
    unfolding read_stable_file_def using read_stable_loop_Inr by blast
  show "fp_byte_len fp = length bytes" "length bytes \<le> max_bytes" by (fact len)+
  have whole: "path_content (history v) = Some bytes"
    if "stamped stamp history" "fp_modified_unix_nanos fp \<noteq> None" "t \<le> v" "v \<le> u" for v
    by (rule stable_read_whole [OF run len(2) assms that])
  have "t < u" using read_to_end_later [OF run(3)] by simp
  with whole run(1,4) show "\<exists>t u. t < u \<and> inspect_file (history t) = Inr fp \<and> inspect_file (history u) = Inr fp \<and>
        (stamped stamp history \<and> fp_modified_unix_nanos fp \<noteq> None \<longrightarrow>
          (\<forall>v. t \<le> v \<and> v \<le> u \<longrightarrow> path_content (history v) = Some bytes))"
    by (intro exI [of _ t] exI [of _ u]) blast
qed (simp add: read_stable_file_def MAX_STABLE_READ_ATTEMPTS_def numeral_2_eq_2 read_settled [OF _ assms] del: read_stable_loop.simps)

lemmas stable_read_simps = read_stable_file_def MAX_STABLE_READ_ATTEMPTS_def numeral_2_eq_2 inspect_file_def unix_nanos_def
  read_to_end_unfold read_size_def saturating_add_def u64_max_def

text \<open>A file that is replaced while it is read for the first time: the second attempt gives the new content.\<close>

definition replaced_history :: file_history where
  "replaced_history t =
     (if t < 4 then \<lparr>fs_entry = EntryFile 3 (Some 7), fs_node = Some 0, fs_data = (\<lambda>_. Some [1, 2, 3]), fs_chunk = 2\<rparr>
      else \<lparr>fs_entry = EntryFile 3 (Some 9), fs_node = Some 1, fs_data = (\<lambda>n. Some (if n = 0 then [1, 2, 3] else [4, 5, 6])), fs_chunk = 2\<rparr>)"

theorem read_stable_file_untorn_witness:
  "read_stable_file replaced_history 10 = Inr ([4, 5, 6], \<lparr>fp_byte_len = 3, fp_modified_unix_nanos = Some 9\<rparr>) \<and>
   (\<exists>t. path_content (replaced_history t) = Some [4, 5, 6] \<and> inspect_file (replaced_history t) = Inr \<lparr>fp_byte_len = 3, fp_modified_unix_nanos = Some 9\<rparr>)"
proof -
  have run: "read_stable_file replaced_history 10 = Inr ([4, 5, 6], \<lparr>fp_byte_len = 3, fp_modified_unix_nanos = Some 9\<rparr>)"
    by (simp add: stable_read_simps replaced_history_def)
  have "(10 :: nat) < u64_max" by (simp add: u64_max_def)
  moreover have "stamped (\<lambda>t. if t < 4 then 7 else 9) replaced_history"
    by (auto simp: stamped_def replaced_history_def path_content_def)
  ultimately obtain t u where "t < u" "inspect_file (replaced_history t) = Inr \<lparr>fp_byte_len = 3, fp_modified_unix_nanos = Some 9\<rparr>"
    "path_content (replaced_history t) = Some [4, 5, 6]"
    using read_stable_file_untorn [of 10 replaced_history "[4, 5, 6]" _ "\<lambda>t. if t < 4 then 7 else 9"] run by fastforce
  with run show ?thesis by blast
qed

text \<open>Without that promise the check cannot notice everything: a write of the same length within one tick of the
  modification time, between two reads, gives a mixture of the two contents.\<close>

lemma same_tick_write_is_torn:
  "read_stable_file (\<lambda>t. \<lparr>fs_entry = EntryFile 2 (Some 7), fs_node = Some 0, fs_data = (\<lambda>_. Some (if t < 3 then [1, 1] else [2, 2])), fs_chunk = 1\<rparr>) 10 =
     Inr ([1, 2], \<lparr>fp_byte_len = 2, fp_modified_unix_nanos = Some 7\<rparr>)"
  by (simp add: stable_read_simps)

text \<open>
  Two contents of the same length that differ in one byte have different fingerprints,
  so that such a change of a resource is always noticed.
\<close>

lemma deterministic_hash_detects_byte:
  "deterministic_hash (xs @ a # ys) = deterministic_hash (xs @ b # ys) \<longleftrightarrow> a = b"
  by (simp add: deterministic_hash_def hex16_inject foldl_fnv_inject fnv_step_inject)

text \<open>
  A loaded resource carries its configured identifier, the fingerprint of the bytes it was
  parsed from, at most the allowed number of them, and an index that satisfies the invariant of its
  parser; and an error always names the resource.
\<close>

lemma loaders_establish_invariants:
  "(case load_hosts lib yaml_from_str files now hosts hosts_limits of
      Inl e \<Rightarrow> hosts_error_names (id_str (hosts_resource_id hosts)) e
    | Inr loaded \<Rightarrow> lh_id loaded = hosts_resource_id hosts \<and> hosts_ok hosts_limits (lh_index loaded) \<and>
        (\<exists>format bytes. hosts_input files hosts_limits hosts = Inr (lh_id loaded, format, lh_source loaded, bytes) \<and>
          length bytes \<le> hosts_max_input_bytes hosts_limits \<and> lh_content_hash loaded = deterministic_hash bytes)) \<and>
   (case load_rule_set lib json_from_str files now rule_set limits of
      Inl e \<Rightarrow> rule_error_names (id_str (rule_set_id rule_set)) e
    | Inr loaded \<Rightarrow> lr_id loaded = rule_set_id rule_set \<and> rule_index_ok limits (lr_index loaded) \<and>
        (\<exists>format bytes. rule_set_input files limits rule_set = Inr (lr_id loaded, format, lr_source loaded, bytes) \<and>
          length bytes \<le> max_input_bytes limits \<and> lr_content_hash loaded = deterministic_hash bytes))"
  by (rule conjI [OF load_hosts_cases load_rule_set_cases])

end
