(* ===== verification/Plan.thy ===== *)
theory Plan
  imports Cache_Namespace Routes Resource_Loader
begin

text \<open>
  The policy index of \<open>backend/src/policy/plan.rs\<close>: compiling the configured resources, and turning a
  request into a resolution plan by route, client, ordered strategy rules, cache pool and ECS
  precedence. The name library, the text decoders and the file system are one record of parameters;
  the network library and SHA-256 are arguments of the request evaluation.
\<close>

section \<open>Data\<close>

datatype policy_build_error =
    BuildClient client_rule_build_error
  | BuildRoutes route_build_error
  | BuildDuplicateClient config_id
  | BuildDuplicateHostsResource config_id
  | BuildDuplicateRuleSet config_id
  | BuildHostsParse config_id hosts_parse_error
  | BuildRuleSetParse config_id rule_parse_error
  | BuildHostsLoad config_id resource_load_error
  | BuildRuleSetLoad config_id rule_resource_load_error
  | BuildUnsupportedHostsResource config_id string
  | BuildUnsupportedRuleSet config_id string
  | BuildUnsupportedRuleSetSelector config_id string

datatype policy_error =
    RouteNotFound config_id "string option"
  | ClientStrategyNotFound config_id config_id
  | CacheStrategyIdInvalid config_id
  | HostsResourceNotFound config_id
  | RuleSetNotFound config_id
  | UnsupportedRuleSetSelector config_id string

record policy_request =
  pr_listener_id :: config_id
  pr_doh_route_id :: "route_id option"
  pr_client_id :: "string option"
  pr_client_addr :: "ip_addr option"
  pr_client_digest :: "client_cache_digest option"
  pr_qname :: "canonical_domain option"

datatype matched_rule_kind =
    MatchedListenerHosts config_id
  | MatchedHosts config_id
  | MatchedRuleSet config_id rule_match

record matched_rule =
  mr_strategy :: config_id
  mr_ordinal :: nat
  mr_kind :: matched_rule_kind

datatype cache_decision =
    CacheDisabled
  | CachePool cache_namespace "duration option" "duration option" "duration option"

record 'net route_decision =
  rd_upstream :: config_id
  rd_ecs :: "'net resolved_ecs"
  rd_hosts :: "config_id option"
  rd_matched_rule :: "matched_rule option"

record 'net policy_context =
  pc_listener_id :: config_id
  pc_route :: "route_match option"
  pc_client :: "'net client_match"
  pc_strategy :: "'net resolved_strategy"
  pc_cache :: cache_decision
  pc_ttl_override :: resolved_ttl_override
  pc_routing :: "'net route_selection"
  pc_client_config :: "'net resolved_client option"

record 'net resolution_plan =
  rp_listener_id :: config_id
  rp_route :: "route_match option"
  rp_client :: "'net client_match"
  rp_strategy :: "'net resolved_strategy"
  rp_upstream :: config_id
  rp_cache :: cache_decision
  rp_ttl_override :: resolved_ttl_override
  rp_ecs :: "'net resolved_ecs"
  rp_hosts :: "config_id option"
  rp_matched_rule :: "matched_rule option"

record 'net policy_index =
  px_routes :: "'net route_index"
  px_clients :: "'net client_index"
  px_client_configs :: "config_id \<rightharpoonup> 'net resolved_client"
  px_upstream_ecs :: "config_id \<rightharpoonup> 'net resolved_ecs"
  px_global_cache :: resolved_global_cache
  px_hosts :: "config_id \<rightharpoonup> hosts_index"
  px_rule_sets :: "config_id \<rightharpoonup> rule_index"

text \<open>The fields of \<open>ResolvedConfig\<close> that the policy index is built from.\<close>

record 'net resolved_config =
  rc_rule_set_max_size_bytes :: nat
  rc_rule_set_max_rules :: nat
  rc_cache :: resolved_global_cache
  rc_listeners :: "'net resolved_listener list"
  rc_upstreams :: "'net resolved_upstream list"
  rc_strategies :: "'net resolved_strategy list"
  rc_hosts :: "resolved_hosts_resource list"
  rc_rule_sets :: "resolved_rule_set list"
  rc_clients :: "'net resolved_client list"

record 'n resource_env =
  env_names :: "'n name_lib"
  env_yaml :: "string \<Rightarrow> (string \<times> json_host_entry) list option"
  env_json :: "string \<Rightarrow> json_rule_document option"
  env_files :: "string \<Rightarrow> file_history"
  env_now :: int

section \<open>Compiling resources\<close>

definition hosts_build_error :: "config_id \<Rightarrow> resource_load_error \<Rightarrow> policy_build_error" where
  "hosts_build_error i source =
     (case source of LoadParse _ e \<Rightarrow> BuildHostsParse i e | _ \<Rightarrow> BuildHostsLoad i source)"

definition rule_set_build_error :: "config_id \<Rightarrow> rule_resource_load_error \<Rightarrow> policy_build_error" where
  "rule_set_build_error i source =
     (case source of
        RuleLoadParse _ e \<Rightarrow> BuildRuleSetParse i e
      | RuleLoadUnsupportedFormat _ \<Rightarrow> BuildUnsupportedRuleSet i ''format''
      | RuleLoadUnsupportedSource _ kind \<Rightarrow> BuildUnsupportedRuleSet i kind
      | _ \<Rightarrow> BuildRuleSetLoad i source)"

definition compile_hosts ::
  "'n resource_env \<Rightarrow> (config_id \<rightharpoonup> hosts_index) \<Rightarrow> resolved_hosts_resource \<Rightarrow> policy_build_error + hosts_index" where
  "compile_hosts env supplied resource =
     (let i = hosts_resource_id resource in
      case supplied i of
        Some index \<Rightarrow> Inr index
      | None \<Rightarrow>
          and_then (map_err (hosts_build_error i)
              (load_hosts (env_names env) (env_yaml env) (env_files env) (env_now env) resource hosts_limits_default))
            (\<lambda>loaded. Inr (lh_index loaded)))"

fun compile_all_hosts ::
  "'n resource_env \<Rightarrow> (config_id \<rightharpoonup> hosts_index) \<Rightarrow> resolved_hosts_resource list \<Rightarrow> (config_id \<rightharpoonup> hosts_index) \<Rightarrow>
     policy_build_error + (config_id \<rightharpoonup> hosts_index)" where
  "compile_all_hosts env supplied [] m = Inr m"
| "compile_all_hosts env supplied (resource # resources) m =
     and_then (compile_hosts env supplied resource) (\<lambda>index.
       if m (hosts_resource_id resource) \<noteq> None then Inl (BuildDuplicateHostsResource (hosts_resource_id resource))
       else compile_all_hosts env supplied resources (m(hosts_resource_id resource \<mapsto> index)))"

definition compile_rule_set ::
  "'n resource_env \<Rightarrow> (config_id \<rightharpoonup> rule_index) \<Rightarrow> rule_limits \<Rightarrow> resolved_rule_set \<Rightarrow> policy_build_error + rule_index" where
  "compile_rule_set env supplied limits resource =
     (let i = rule_set_id resource in
      case supplied i of
        Some index \<Rightarrow> Inr index
      | None \<Rightarrow>
          (case resource of
             RuleSetRemote _ _ _ _ _ _ \<Rightarrow> Inl (BuildUnsupportedRuleSet i ''remote'')
           | _ \<Rightarrow>
               and_then (map_err (rule_set_build_error i)
                   (load_rule_set (env_names env) (env_json env) (env_files env) (env_now env) resource limits))
                 (\<lambda>loaded. Inr (lr_index loaded))))"

fun compile_all_rule_sets ::
  "'n resource_env \<Rightarrow> (config_id \<rightharpoonup> rule_index) \<Rightarrow> rule_limits \<Rightarrow> resolved_rule_set list \<Rightarrow> (config_id \<rightharpoonup> rule_index) \<Rightarrow>
     policy_build_error + (config_id \<rightharpoonup> rule_index)" where
  "compile_all_rule_sets env supplied limits [] m = Inr m"
| "compile_all_rule_sets env supplied limits (resource # resources) m =
     and_then (compile_rule_set env supplied limits resource) (\<lambda>index.
       if m (rule_set_id resource) \<noteq> None then Inl (BuildDuplicateRuleSet (rule_set_id resource))
       else compile_all_rule_sets env supplied limits resources (m(rule_set_id resource \<mapsto> index)))"

definition compile_resources_with_supplied ::
  "'n resource_env \<Rightarrow> resolved_hosts_resource list \<Rightarrow> resolved_rule_set list \<Rightarrow> (config_id \<rightharpoonup> hosts_index) \<Rightarrow>
     (config_id \<rightharpoonup> rule_index) \<Rightarrow> rule_limits \<Rightarrow>
     policy_build_error + ((config_id \<rightharpoonup> hosts_index) \<times> (config_id \<rightharpoonup> rule_index))" where
  "compile_resources_with_supplied env hosts rule_sets supplied_hosts supplied_rule_indexes limits =
     and_then (compile_all_hosts env supplied_hosts hosts Map.empty) (\<lambda>host_indexes.
       and_then (compile_all_rule_sets env supplied_rule_indexes limits rule_sets Map.empty) (\<lambda>rule_indexes.
         Inr (host_indexes, rule_indexes)))"

definition compile_resources ::
  "'n resource_env \<Rightarrow> resolved_hosts_resource list \<Rightarrow> resolved_rule_set list \<Rightarrow> (config_id \<rightharpoonup> rule_index) \<Rightarrow>
     rule_limits \<Rightarrow> policy_build_error + ((config_id \<rightharpoonup> hosts_index) \<times> (config_id \<rightharpoonup> rule_index))" where
  "compile_resources env hosts rule_sets remote_rule_indexes limits =
     compile_resources_with_supplied env hosts rule_sets Map.empty remote_rule_indexes limits"

text \<open>The selector check of one reference and the two nested loops over it.\<close>

definition check_selector ::
  "(config_id \<rightharpoonup> rule_index) \<Rightarrow> resolved_rule_set_ref \<Rightarrow> policy_build_error + unit" where
  "check_selector indexes reference =
     (case indexes (ref_resource reference) of
        None \<Rightarrow> Inr ()
      | Some index \<Rightarrow>
          (case ref_selector reference of
             Some selector \<Rightarrow>
               if is_selector_map index \<and> rule_selector index selector \<noteq> None then Inr ()
               else Inl (BuildUnsupportedRuleSetSelector (ref_resource reference) selector)
           | None \<Rightarrow>
               if is_selector_map index
               then Inl (BuildUnsupportedRuleSetSelector (ref_resource reference) ''<missing>'')
               else Inr ()))"

fun check_rules ::
  "(config_id \<rightharpoonup> rule_index) \<Rightarrow> 'net resolved_strategy_rule list \<Rightarrow> policy_build_error + unit" where
  "check_rules indexes [] = Inr ()"
| "check_rules indexes (rule # rules) =
     and_then (case sr_rule_set rule of None \<Rightarrow> Inr () | Some reference \<Rightarrow> check_selector indexes reference)
       (\<lambda>_. check_rules indexes rules)"

fun validate_rule_set_selectors ::
  "'net resolved_strategy list \<Rightarrow> (config_id \<rightharpoonup> rule_index) \<Rightarrow> policy_build_error + unit" where
  "validate_rule_set_selectors [] indexes = Inr ()"
| "validate_rule_set_selectors (strategy # strategies) indexes =
     and_then (check_rules indexes (st_rules strategy)) (\<lambda>_. validate_rule_set_selectors strategies indexes)"

section \<open>Building the index\<close>

fun collect_upstream_ecs :: "'net resolved_upstream list \<Rightarrow> (config_id \<rightharpoonup> 'net resolved_ecs) \<Rightarrow> (config_id \<rightharpoonup> 'net resolved_ecs)" where
  "collect_upstream_ecs [] m = m"
| "collect_upstream_ecs (UpstreamDoh i _ _ _ _ (Some ecs) # upstreams) m = collect_upstream_ecs upstreams (m(i \<mapsto> ecs))"
| "collect_upstream_ecs (_ # upstreams) m = collect_upstream_ecs upstreams m"

fun client_configs_build ::
  "'net resolved_client list \<Rightarrow> (config_id \<rightharpoonup> 'net resolved_client) \<Rightarrow> policy_build_error + (config_id \<rightharpoonup> 'net resolved_client)" where
  "client_configs_build [] m = Inr m"
| "client_configs_build (client # clients) m =
     (if m (cl_name client) \<noteq> None then Inl (BuildDuplicateClient (cl_name client))
      else client_configs_build clients (m(cl_name client \<mapsto> client)))"

definition build_with_resources ::
  "'net net_lib \<Rightarrow> 'net resolved_listener list \<Rightarrow> 'net resolved_strategy list \<Rightarrow> 'net resolved_client list \<Rightarrow>
     (config_id \<rightharpoonup> 'net resolved_ecs) \<Rightarrow> resolved_global_cache \<Rightarrow> (config_id \<rightharpoonup> hosts_index) \<Rightarrow>
     (config_id \<rightharpoonup> rule_index) \<Rightarrow> policy_build_error + 'net policy_index" where
  "build_with_resources nets listeners strategies clients upstream_ecs global_cache hosts rule_sets =
     and_then (map_err BuildRoutes (route_index_build listeners strategies)) (\<lambda>routes.
       and_then (client_configs_build clients Map.empty) (\<lambda>client_configs.
         and_then (map_err BuildClient (client_index_build nets (map client_rule_from_resolved clients))) (\<lambda>client_index.
           Inr \<lparr>px_routes = routes, px_clients = client_index, px_client_configs = client_configs,
                px_upstream_ecs = upstream_ecs, px_global_cache = global_cache,
                px_hosts = hosts, px_rule_sets = rule_sets\<rparr>)))"

definition policy_index_build ::
  "'net net_lib \<Rightarrow> 'net resolved_listener list \<Rightarrow> 'net resolved_strategy list \<Rightarrow> 'net resolved_client list \<Rightarrow>
     resolved_global_cache \<Rightarrow> policy_build_error + 'net policy_index" where
  "policy_index_build nets listeners strategies clients global_cache =
     build_with_resources nets listeners strategies clients Map.empty global_cache Map.empty Map.empty"

definition from_config_with_resource_indexes ::
  "'n resource_env \<Rightarrow> 'net net_lib \<Rightarrow> 'net resolved_config \<Rightarrow> (config_id \<rightharpoonup> hosts_index) \<Rightarrow> (config_id \<rightharpoonup> rule_index) \<Rightarrow>
     policy_build_error + 'net policy_index" where
  "from_config_with_resource_indexes env nets config supplied_hosts supplied_rule_indexes =
     and_then (compile_resources_with_supplied env (rc_hosts config) (rc_rule_sets config) supplied_hosts supplied_rule_indexes
         (with_max_rules (with_max_input_bytes rule_limits_default (rc_rule_set_max_size_bytes config))
            (rc_rule_set_max_rules config))) (\<lambda>(hosts, rule_sets).
       and_then (validate_rule_set_selectors (rc_strategies config) rule_sets) (\<lambda>_.
         build_with_resources nets (rc_listeners config) (rc_strategies config) (rc_clients config)
           (collect_upstream_ecs (rc_upstreams config) Map.empty) (rc_cache config) hosts rule_sets))"

definition from_config ::
  "'n resource_env \<Rightarrow> 'net net_lib \<Rightarrow> 'net resolved_config \<Rightarrow> policy_build_error + 'net policy_index" where
  "from_config env nets config =
     and_then (compile_resources env (rc_hosts config) (rc_rule_sets config) Map.empty
         (with_max_rules (with_max_input_bytes rule_limits_default (rc_rule_set_max_size_bytes config))
            (rc_rule_set_max_rules config))) (\<lambda>(hosts, rule_sets).
       and_then (validate_rule_set_selectors (rc_strategies config) rule_sets) (\<lambda>_.
         build_with_resources nets (rc_listeners config) (rc_strategies config) (rc_clients config)
           (collect_upstream_ecs (rc_upstreams config) Map.empty) (rc_cache config) hosts rule_sets))"

definition replace_hosts_resource ::
  "'net policy_index \<Rightarrow> config_id \<Rightarrow> hosts_index \<Rightarrow> policy_error + 'net policy_index" where
  "replace_hosts_resource idx resource index =
     (if px_hosts idx resource = None then Inl (HostsResourceNotFound resource)
      else Inr (idx\<lparr>px_hosts := (px_hosts idx)(resource \<mapsto> index)\<rparr>))"

definition replace_rule_set_resource ::
  "'net policy_index \<Rightarrow> config_id \<Rightarrow> rule_index \<Rightarrow> policy_error + 'net policy_index" where
  "replace_rule_set_resource idx resource index =
     (if px_rule_sets idx resource = None then Inl (RuleSetNotFound resource)
      else Inr (idx\<lparr>px_rule_sets := (px_rule_sets idx)(resource \<mapsto> index)\<rparr>))"

section \<open>Evaluating a request\<close>

definition cache_pool :: "cache_namespace \<Rightarrow> resolved_optimistic option \<Rightarrow> cache_decision" where
  "cache_pool namespace optimistic =
     (let optimistic = (case optimistic of None \<Rightarrow> None | Some value \<Rightarrow> if opt_enabled value then Some value else None)
      in CachePool namespace (map_option opt_answer_ttl optimistic) (map_option opt_max_age optimistic)
           (map_option opt_negative_max_age optimistic))"

definition decision_namespace :: "cache_decision \<Rightarrow> cache_namespace option" where
  "decision_namespace d = (case d of CacheDisabled \<Rightarrow> None | CachePool namespace _ _ _ \<Rightarrow> Some namespace)"

definition is_enabled :: "cache_decision \<Rightarrow> bool" where
  "is_enabled d \<longleftrightarrow> d \<noteq> CacheDisabled"

definition optimistic_answer_ttl :: "cache_decision \<Rightarrow> duration option" where
  "optimistic_answer_ttl d = (case d of CacheDisabled \<Rightarrow> None | CachePool _ answer_ttl _ _ \<Rightarrow> answer_ttl)"

definition optimistic_max_age :: "cache_decision \<Rightarrow> duration option" where
  "optimistic_max_age d = (case d of CacheDisabled \<Rightarrow> None | CachePool _ _ max_age _ \<Rightarrow> max_age)"

definition optimistic_negative_max_age :: "cache_decision \<Rightarrow> duration option" where
  "optimistic_negative_max_age d = (case d of CacheDisabled \<Rightarrow> None | CachePool _ _ _ negative_max_age \<Rightarrow> negative_max_age)"

definition strategy_namespace :: "'net resolved_strategy \<Rightarrow> policy_error + cache_strategy_id" where
  "strategy_namespace strategy =
     map_err (\<lambda>_. CacheStrategyIdInvalid (st_id strategy)) (cache_strategy_id_from_config (id_str (st_id strategy)))"

definition select_cache ::
  "'net policy_index \<Rightarrow> 'net resolved_client option \<Rightarrow> 'net resolved_strategy \<Rightarrow> client_cache_digest option \<Rightarrow>
     policy_error + cache_decision" where
  "select_cache idx client strategy digest =
     (case Option.bind client cl_cache of
        Some cache \<Rightarrow>
          if \<not> co_enabled cache then Inr CacheDisabled
          else (case digest of
              None \<Rightarrow> Inr CacheDisabled
            | Some d \<Rightarrow> and_then (strategy_namespace strategy) (\<lambda>s.
                Inr (cache_pool (NamespaceClientStrategy d s) (co_optimistic cache))))
      | None \<Rightarrow>
          (case st_cache strategy of
             Some cache \<Rightarrow>
               if \<not> co_enabled cache then Inr CacheDisabled
               else and_then (strategy_namespace strategy) (\<lambda>s.
                 Inr (cache_pool (NamespaceStrategy s) (co_optimistic cache)))
           | None \<Rightarrow>
               if \<not> gc_enabled (px_global_cache idx) then Inr CacheDisabled
               else Inr (cache_pool NamespaceGlobal (Some (gc_optimistic (px_global_cache idx))))))"

definition select_ecs ::
  "'net resolved_ecs \<Rightarrow> 'net resolved_client option \<Rightarrow> 'net resolved_ecs option \<Rightarrow> 'net resolved_ecs" where
  "select_ecs strategy_ecs client upstream_ecs =
     (if ecs_source strategy_ecs = SourceRule \<or> ecs_source strategy_ecs = SourceStrategy then strategy_ecs
      else
        case (case client of None \<Rightarrow> None
              | Some c \<Rightarrow> if ecs_source (cl_ecs c) = SourceClient then Some (cl_ecs c) else None) of
          Some client_ecs \<Rightarrow> client_ecs
        | None \<Rightarrow> (case upstream_ecs of None \<Rightarrow> strategy_ecs | Some ecs \<Rightarrow> ecs))"

definition select_route :: "'net route_index \<Rightarrow> policy_request \<Rightarrow> policy_error + 'net route_selection" where
  "select_route routes request =
     (case pr_doh_route_id request of
        Some route_id \<Rightarrow>
          ok_or (RouteNotFound (pr_listener_id request) (Some route_id)) (select_doh routes (pr_listener_id request) route_id)
      | None \<Rightarrow>
          map_err (\<lambda>_. RouteNotFound (pr_listener_id request) None) (select_stream routes (pr_listener_id request)))"

definition client_config_of :: "'net policy_index \<Rightarrow> 'net client_match \<Rightarrow> 'net resolved_client option" where
  "client_config_of idx m = (case m of Matched client _ \<Rightarrow> px_client_configs idx (cr_name client) | Unknown \<Rightarrow> None)"

definition effective_strategy ::
  "'net policy_index \<Rightarrow> 'net resolved_client option \<Rightarrow> 'net route_selection \<Rightarrow> policy_error + 'net resolved_strategy" where
  "effective_strategy idx client_config routing =
     (case client_config of
        Some client \<Rightarrow>
          (case cl_strategy client of
             Some strategy \<Rightarrow> ok_or (ClientStrategyNotFound (cl_name client) strategy) (route_strategy (px_routes idx) strategy)
           | None \<Rightarrow> Inr (rs_strategy routing))
      | None \<Rightarrow> Inr (rs_strategy routing))"

definition request_digest ::
  "(byte list \<Rightarrow> byte list) \<Rightarrow> policy_request \<Rightarrow> 'net client_match \<Rightarrow> client_cache_digest option" where
  "request_digest sha256 request client =
     (case pr_client_digest request of
        Some d \<Rightarrow> Some d
      | None \<Rightarrow> cache_digest sha256 client (pr_client_id request) (pr_client_addr request))"

definition prepare_context ::
  "'net net_lib \<Rightarrow> (byte list \<Rightarrow> byte list) \<Rightarrow> 'net policy_index \<Rightarrow> policy_request \<Rightarrow> policy_error + 'net policy_context" where
  "prepare_context nets sha256 idx request =
     and_then (select_route (px_routes idx) request) (\<lambda>routing.
       let client = match_client nets (px_clients idx) (pr_client_id request) (pr_client_addr request);
           client_config = client_config_of idx client
       in and_then (effective_strategy idx client_config routing) (\<lambda>strategy.
         and_then (select_cache idx client_config strategy (request_digest sha256 request client)) (\<lambda>cache.
           Inr \<lparr>pc_listener_id = rs_listener_id routing, pc_route = rs_route routing, pc_client = client,
                pc_strategy = strategy, pc_cache = cache,
                pc_ttl_override =
                  (case client_config of
                     Some c \<Rightarrow> if ttl_source (cl_ttl_override c) = SourceClient then cl_ttl_override c else st_ttl_override strategy
                   | None \<Rightarrow> st_ttl_override strategy),
                pc_routing = routing, pc_client_config = client_config\<rparr>)))"

text \<open>The outcome of the rule evaluation: hosts resource, matched rule, upstream, ECS.\<close>

type_synonym 'net rule_outcome = "config_id option \<times> matched_rule option \<times> config_id \<times> 'net resolved_ecs"

definition select_rule_index :: "'net policy_index \<Rightarrow> resolved_rule_set_ref \<Rightarrow> policy_error + rule_index" where
  "select_rule_index idx rule_set =
     and_then (ok_or (RuleSetNotFound (ref_resource rule_set)) (px_rule_sets idx (ref_resource rule_set))) (\<lambda>index.
       case ref_selector rule_set of
         Some selector \<Rightarrow> ok_or (UnsupportedRuleSetSelector (ref_resource rule_set) selector) (rule_selector index selector)
       | None \<Rightarrow>
           if is_selector_map index then Inl (UnsupportedRuleSetSelector (ref_resource rule_set) ''<missing>'')
           else Inr index)"

fun evaluate_rule_list ::
  "'n name_lib \<Rightarrow> 'net policy_index \<Rightarrow> 'net resolved_strategy \<Rightarrow> canonical_domain \<Rightarrow> 'net resolved_ecs \<Rightarrow> nat \<Rightarrow>
     'net resolved_strategy_rule list \<Rightarrow> policy_error + 'net rule_outcome" where
  "evaluate_rule_list names idx strategy qname inherited_ecs ordinal [] =
     Inr (None, None, st_default_upstream strategy, inherited_ecs)"
| "evaluate_rule_list names idx strategy qname inherited_ecs ordinal (rule # rules) =
     (case sr_hosts rule of
        Some resource \<Rightarrow>
          and_then (ok_or (HostsResourceNotFound resource) (px_hosts idx resource)) (\<lambda>index.
            if hosts_lookup index qname \<noteq> None
            then Inr (Some resource,
                Some \<lparr>mr_strategy = st_id strategy, mr_ordinal = ordinal, mr_kind = MatchedHosts resource\<rparr>,
                st_default_upstream strategy, sr_ecs rule)
            else evaluate_rule_list names idx strategy qname inherited_ecs (Suc ordinal) rules)
      | None \<Rightarrow>
          (case sr_rule_set rule of
             None \<Rightarrow> evaluate_rule_list names idx strategy qname inherited_ecs (Suc ordinal) rules
           | Some rule_set \<Rightarrow>
               and_then (select_rule_index idx rule_set) (\<lambda>index.
                 case rule_matches names index qname of
                   Some matcher \<Rightarrow>
                     Inr (None,
                       Some \<lparr>mr_strategy = st_id strategy, mr_ordinal = ordinal,
                             mr_kind = MatchedRuleSet (ref_resource rule_set) matcher\<rparr>,
                       (case sr_upstream rule of Some upstream \<Rightarrow> upstream | None \<Rightarrow> st_default_upstream strategy),
                       sr_ecs rule)
                 | None \<Rightarrow> evaluate_rule_list names idx strategy qname inherited_ecs (Suc ordinal) rules)))"

definition evaluate_rules ::
  "'n name_lib \<Rightarrow> 'net policy_index \<Rightarrow> 'net route_selection \<Rightarrow> 'net resolved_strategy \<Rightarrow> canonical_domain option \<Rightarrow>
     'net resolved_ecs \<Rightarrow> policy_error + 'net rule_outcome" where
  "evaluate_rules names idx routing strategy qname inherited_ecs =
     (case qname of
        None \<Rightarrow> Inr (None, None, st_default_upstream strategy, inherited_ecs)
      | Some name \<Rightarrow>
          (case rs_listener_hosts routing of
             None \<Rightarrow> evaluate_rule_list names idx strategy name inherited_ecs 0 (st_rules strategy)
           | Some resource \<Rightarrow>
               and_then (ok_or (HostsResourceNotFound resource) (px_hosts idx resource)) (\<lambda>index.
                 if hosts_lookup index name \<noteq> None
                 then Inr (Some resource,
                     Some \<lparr>mr_strategy = st_id strategy, mr_ordinal = u64_max, mr_kind = MatchedListenerHosts resource\<rparr>,
                     st_default_upstream strategy, inherited_ecs)
                 else evaluate_rule_list names idx strategy name inherited_ecs 0 (st_rules strategy))))"

definition evaluate_route ::
  "'n name_lib \<Rightarrow> 'net policy_index \<Rightarrow> 'net policy_context \<Rightarrow> canonical_domain option \<Rightarrow> policy_error + 'net route_decision" where
  "evaluate_route names idx context qname =
     and_then (evaluate_rules names idx (pc_routing context) (pc_strategy context) qname (st_ecs (pc_strategy context)))
       (\<lambda>(hosts, matched_rule, upstream, strategy_ecs).
         Inr \<lparr>rd_upstream = upstream,
              rd_ecs = select_ecs strategy_ecs (pc_client_config context) (px_upstream_ecs idx upstream),
              rd_hosts = hosts, rd_matched_rule = matched_rule\<rparr>)"

definition into_resolution_plan :: "'net policy_context \<Rightarrow> 'net route_decision \<Rightarrow> 'net resolution_plan" where
  "into_resolution_plan context decision =
     \<lparr>rp_listener_id = pc_listener_id context, rp_route = pc_route context, rp_client = pc_client context,
      rp_strategy = pc_strategy context, rp_upstream = rd_upstream decision, rp_cache = pc_cache context,
      rp_ttl_override = pc_ttl_override context, rp_ecs = rd_ecs decision, rp_hosts = rd_hosts decision,
      rp_matched_rule = rd_matched_rule decision\<rparr>"

definition policy_evaluate ::
  "'n name_lib \<Rightarrow> 'net net_lib \<Rightarrow> (byte list \<Rightarrow> byte list) \<Rightarrow> 'net policy_index \<Rightarrow> policy_request \<Rightarrow>
     policy_error + 'net resolution_plan" where
  "policy_evaluate names nets sha256 idx request =
     and_then (prepare_context nets sha256 idx request) (\<lambda>context.
       and_then (evaluate_route names idx context (pr_qname request)) (\<lambda>decision.
         Inr (into_resolution_plan context decision)))"

end
