(* ===== verification/Plan_Laws.thy ===== *)
theory Plan_Laws
  imports Plan
begin

text \<open>
  What the policy index promises: rules are evaluated in order and the first hit decides, an index
  built from a configuration whose references are closed never fails on a reference at run time,
  cache pools keep clients apart, and replacing a resource changes no other decision.
\<close>

section \<open>The compiled resources\<close>

interpretation hosts_resources: unique_index "compile_all_hosts env supplied" hosts_resource_id
  "compile_hosts env supplied" "\<lambda>r. BuildDuplicateHostsResource (hosts_resource_id r)" for env supplied
  by unfold_locales simp_all

interpretation rule_set_resources: unique_index "compile_all_rule_sets env supplied limits" rule_set_id
  "compile_rule_set env supplied limits" "\<lambda>r. BuildDuplicateRuleSet (rule_set_id r)" for env supplied limits
  by unfold_locales simp_all

interpretation client_configs: unique_index client_configs_build cl_name Inr "\<lambda>c. BuildDuplicateClient (cl_name c)"
  by unfold_locales simp_all

lemma check_rules_iff:
  "check_rules indexes rules = Inr () \<longleftrightarrow>
     (\<forall>rule \<in> set rules. \<forall>ref. sr_rule_set rule = Some ref \<longrightarrow> check_selector indexes ref = Inr ())"
  by (induction rules) (auto split: option.splits)

lemma validate_rule_set_selectors_iff:
  "validate_rule_set_selectors strategies indexes = Inr () \<longleftrightarrow>
     (\<forall>strategy \<in> set strategies. check_rules indexes (st_rules strategy) = Inr ())"
  by (induction strategies) auto

text \<open>A selector that was checked against the compiled indexes resolves at run time.\<close>

lemma check_selector_resolves:
  assumes "check_selector (px_rule_sets idx) ref = Inr ()" "px_rule_sets idx (ref_resource ref) \<noteq> None"
  shows "\<exists>index. select_rule_index idx ref = Inr index"
  using assms by (auto simp: check_selector_def select_rule_index_def split: option.splits if_splits)

section \<open>First match\<close>

definition rule_resolved :: "'net policy_index \<Rightarrow> 'net resolved_strategy_rule \<Rightarrow> bool" where
  "rule_resolved idx rule \<longleftrightarrow>
     (case sr_hosts rule of
        Some resource \<Rightarrow> px_hosts idx resource \<noteq> None
      | None \<Rightarrow> (case sr_rule_set rule of None \<Rightarrow> True | Some ref \<Rightarrow> (\<exists>index. select_rule_index idx ref = Inr index)))"

text \<open>What a rule says of a name: nothing, or the kind of its match.\<close>

definition rule_hit :: "'n name_lib \<Rightarrow> 'net policy_index \<Rightarrow> canonical_domain \<Rightarrow> 'net resolved_strategy_rule \<Rightarrow> matched_rule_kind option" where
  "rule_hit names idx qname rule =
     (case sr_hosts rule of
        Some resource \<Rightarrow>
          (case px_hosts idx resource of
             Some index \<Rightarrow> if hosts_lookup index qname \<noteq> None then Some (MatchedHosts resource) else None
           | None \<Rightarrow> None)
      | None \<Rightarrow>
          (case sr_rule_set rule of
             None \<Rightarrow> None
           | Some ref \<Rightarrow>
               (case select_rule_index idx ref of
                  Inl _ \<Rightarrow> None
                | Inr index \<Rightarrow> map_option (MatchedRuleSet (ref_resource ref)) (rule_matches names index qname))))"

definition listener_hit :: "'net policy_index \<Rightarrow> 'net route_selection \<Rightarrow> canonical_domain \<Rightarrow> config_id option" where
  "listener_hit idx routing qname =
     (case rs_listener_hosts routing of
        None \<Rightarrow> None
      | Some resource \<Rightarrow>
          (case px_hosts idx resource of
             Some index \<Rightarrow> if hosts_lookup index qname \<noteq> None then Some resource else None
           | None \<Rightarrow> None))"

definition rule_upstream :: "'net resolved_strategy \<Rightarrow> 'net resolved_strategy_rule \<Rightarrow> config_id" where
  "rule_upstream strategy rule =
     (case (sr_hosts rule, sr_upstream rule) of (None, Some upstream) \<Rightarrow> upstream | _ \<Rightarrow> st_default_upstream strategy)"

lemma evaluate_rule_step:
  assumes "rule_resolved idx rule"
  shows "evaluate_rule_list names idx strategy qname ecs n (rule # rules) =
    (case rule_hit names idx qname rule of
       Some kind \<Rightarrow> Inr (sr_hosts rule, Some \<lparr>mr_strategy = st_id strategy, mr_ordinal = n, mr_kind = kind\<rparr>,
         rule_upstream strategy rule, sr_ecs rule)
     | None \<Rightarrow> evaluate_rule_list names idx strategy qname ecs (Suc n) rules)"
  using assms
  by (auto simp: rule_resolved_def rule_hit_def rule_upstream_def split: option.splits)

lemma evaluate_rule_list_first:
  "\<forall>rule \<in> set rules. rule_resolved idx rule \<Longrightarrow>
   evaluate_rule_list names idx strategy qname ecs n rules =
    (case find_index (\<lambda>rule. rule_hit names idx qname rule \<noteq> None) rules of
       None \<Rightarrow> Inr (None, None, st_default_upstream strategy, ecs)
     | Some i \<Rightarrow> Inr (sr_hosts (rules ! i),
         Some \<lparr>mr_strategy = st_id strategy, mr_ordinal = n + i, mr_kind = the (rule_hit names idx qname (rules ! i))\<rparr>,
         rule_upstream strategy (rules ! i), sr_ecs (rules ! i)))"
proof (induction rules arbitrary: n)
  case (Cons rule rules)
  have step: "evaluate_rule_list names idx strategy qname ecs n (rule # rules) =
    (case rule_hit names idx qname rule of
       Some kind \<Rightarrow> Inr (sr_hosts rule, Some \<lparr>mr_strategy = st_id strategy, mr_ordinal = n, mr_kind = kind\<rparr>,
         rule_upstream strategy rule, sr_ecs rule)
     | None \<Rightarrow> evaluate_rule_list names idx strategy qname ecs (Suc n) rules)"
    by (rule evaluate_rule_step) (use Cons.prems in simp)
  show ?case
  proof (cases "rule_hit names idx qname rule")
    case None
    with Cons show ?thesis unfolding step by (simp add: find_index_Cons split: option.splits)
  next
    case (Some kind)
    then show ?thesis unfolding step by (simp add: find_index_Cons)
  qed
qed simp

section \<open>Errors\<close>

lemma evaluate_rule_list_resolved:
  "\<forall>rule \<in> set rules. rule_resolved idx rule \<Longrightarrow> \<exists>out. evaluate_rule_list names idx strategy qname ecs n rules = Inr out"
  by (simp add: evaluate_rule_list_first split: option.splits)

definition listener_hosts_ok :: "'net policy_index \<Rightarrow> 'net route_selection \<Rightarrow> bool" where
  "listener_hosts_ok idx routing \<longleftrightarrow>
     (case rs_listener_hosts routing of None \<Rightarrow> True | Some resource \<Rightarrow> px_hosts idx resource \<noteq> None)"

lemma evaluate_route_resolved:
  assumes "listener_hosts_ok idx (pc_routing ctx)" "\<forall>rule \<in> set (st_rules (pc_strategy ctx)). rule_resolved idx rule"
  shows "\<exists>d. evaluate_route names idx ctx qname = Inr d"
proof (cases qname)
  case (Some name)
  obtain a b c d where "evaluate_rule_list names idx (pc_strategy ctx) name (st_ecs (pc_strategy ctx)) 0 (st_rules (pc_strategy ctx)) =
      Inr (a, b, c, d)"
    using evaluate_rule_list_resolved [OF assms(2)] by (metis prod_cases4)
  note list = this
  show ?thesis
  proof (cases "rs_listener_hosts (pc_routing ctx)")
    case None
    then show ?thesis by (simp add: evaluate_route_def evaluate_rules_def Some list)
  next
    case (Some resource)
    with assms(1) obtain index where "px_hosts idx resource = Some index" by (auto simp: listener_hosts_ok_def)
    with Some \<open>qname = Some name\<close> list show ?thesis
      by (cases "hosts_lookup index name") (simp_all add: evaluate_route_def evaluate_rules_def)
  qed
qed (simp add: evaluate_route_def evaluate_rules_def)

lemma select_cache_error:
  "select_cache idx client strategy digest = Inl e \<Longrightarrow>
     e = CacheStrategyIdInvalid (st_id strategy) \<and> (\<exists>x. cache_strategy_id_from_config (id_str (st_id strategy)) = Inl x)"
  by (auto simp: select_cache_def strategy_namespace_def and_then_Inl_iff split: option.splits if_splits)

text \<open>The references of a configuration that point outside of their own section.\<close>

fun listener_hosts_ref :: "'net resolved_listener \<Rightarrow> config_id option" where
  "listener_hosts_ref (ListenerUdp _ _ _ _ hosts) = hosts"
| "listener_hosts_ref (ListenerTcp _ _ _ _ hosts) = hosts"
| "listener_hosts_ref (ListenerDoh _ _ _) = None"

definition references_closed :: "'net resolved_config \<Rightarrow> bool" where
  "references_closed config \<longleftrightarrow>
     (\<forall>l \<in> set (rc_listeners config). \<forall>h. listener_hosts_ref l = Some h \<longrightarrow> h \<in> hosts_resource_id ` set (rc_hosts config)) \<and>
     (\<forall>s \<in> set (rc_strategies config). \<forall>rule \<in> set (st_rules s).
        (\<forall>h. sr_hosts rule = Some h \<longrightarrow> h \<in> hosts_resource_id ` set (rc_hosts config)) \<and>
        (\<forall>ref. sr_rule_set rule = Some ref \<longrightarrow> ref_resource ref \<in> rule_set_id ` set (rc_rule_sets config))) \<and>
     (\<forall>c \<in> set (rc_clients config). \<forall>s. cl_strategy c = Some s \<longrightarrow> s \<in> st_id ` set (rc_strategies config))"

lemma from_config_eq:
  "from_config env nets config = from_config_with_resource_indexes env nets config Map.empty Map.empty"
  by (simp add: from_config_def from_config_with_resource_indexes_def compile_resources_def)

text \<open>What a successful build leaves in the index.\<close>

lemma from_config_facts:
  assumes "from_config_with_resource_indexes env nets config sh sr = Inr idx"
  shows "route_index_build (rc_listeners config) (rc_strategies config) = Inr (px_routes idx)"
    and "dom (px_hosts idx) = hosts_resource_id ` set (rc_hosts config)"
    and "dom (px_rule_sets idx) = rule_set_id ` set (rc_rule_sets config)"
    and "validate_rule_set_selectors (rc_strategies config) (px_rule_sets idx) = Inr ()"
    and "client_configs_build (rc_clients config) Map.empty = Inr (px_client_configs idx)"
    and "client_index_build nets (map client_rule_from_resolved (rc_clients config)) = Inr (px_clients idx)"
proof -
  let ?limits = "with_max_rules (with_max_input_bytes rule_limits_default (rc_rule_set_max_size_bytes config))
    (rc_rule_set_max_rules config)"
  show rest: "route_index_build (rc_listeners config) (rc_strategies config) = Inr (px_routes idx)"
    "validate_rule_set_selectors (rc_strategies config) (px_rule_sets idx) = Inr ()"
    "client_configs_build (rc_clients config) Map.empty = Inr (px_client_configs idx)"
    "client_index_build nets (map client_rule_from_resolved (rc_clients config)) = Inr (px_clients idx)"
    using assms
    by (auto simp: from_config_with_resource_indexes_def compile_resources_with_supplied_def build_with_resources_def)
  have "compile_all_hosts env sh (rc_hosts config) Map.empty = Inr (px_hosts idx)"
    and "compile_all_rule_sets env sr ?limits (rc_rule_sets config) Map.empty = Inr (px_rule_sets idx)"
    using assms
    by (auto simp: from_config_with_resource_indexes_def compile_resources_with_supplied_def build_with_resources_def)
  then show "dom (px_hosts idx) = hosts_resource_id ` set (rc_hosts config)"
    "dom (px_rule_sets idx) = rule_set_id ` set (rc_rule_sets config)"
    using hosts_resources.build_dom rule_set_resources.build_dom by metis+
qed

lemma select_route_strategy:
  assumes "route_index_build ls ss = Inr routes" "select_route routes request = Inr sel"
  shows "rs_strategy sel \<in> set ss"
    and "rs_listener_hosts sel = Some h \<Longrightarrow> \<exists>l \<in> set ls. listener_hosts_ref l = Some h"
proof -
  have sb: "strategy_index_build ss Map.empty = Inr (rx_strategies routes)"
    and lb: "listeners_build (rx_strategies routes) ls Map.empty = Inr (rx_listeners routes)"
    using assms(1) by (simp_all add: route_index_build_Inr)
  show "rs_strategy sel \<in> set ss"
    using assms(2)
    by (auto simp: select_route_def select_stream_def select_doh_def strategy_index_lookup [OF sb]
        split: option.splits listener_routes.splits)
  assume "rs_listener_hosts sel = Some h"
  with assms(2) obtain strategy where "rx_listeners routes (pr_listener_id request) = Some (Stream strategy (Some h))"
    by (auto simp: select_route_def select_stream_def select_doh_def split: option.splits listener_routes.splits)
  then show "\<exists>l \<in> set ls. listener_hosts_ref l = Some h"
    unfolding listeners_stream [OF lb] by (metis listener_hosts_ref.simps(1,2))
qed

lemma client_config_listed:
  assumes "client_configs_build clients Map.empty = Inr (px_client_configs idx)" "client_config_of idx m = Some c"
  shows "c \<in> set clients"
  using assms(2) client_configs.build_lookup [OF assms(1)]
  by (auto simp: client_config_of_def split: client_match.splits)

lemma effective_strategy_listed:
  assumes "from_config_with_resource_indexes env nets config sh sr = Inr idx" "references_closed config"
    and "rs_strategy routing \<in> set (rc_strategies config)"
  shows "\<exists>s \<in> set (rc_strategies config). effective_strategy idx (client_config_of idx m) routing = Inr s"
proof (cases "Option.bind (client_config_of idx m) cl_strategy")
  case None
  with assms(3) show ?thesis by (auto simp: effective_strategy_def split: option.splits bind_splits)
next
  case (Some name)
  then obtain c where c: "client_config_of idx m = Some c" "cl_strategy c = Some name" by (auto split: bind_splits)
  have "c \<in> set (rc_clients config)" using client_config_listed [OF from_config_facts(5) [OF assms(1)] c(1)] .
  with assms(2) c(2) have "name \<in> st_id ` set (rc_strategies config)" by (simp add: references_closed_def)
  then obtain s where s: "s \<in> set (rc_strategies config)" "st_id s = name" by blast
  have "strategy_index_build (rc_strategies config) Map.empty = Inr (rx_strategies (px_routes idx))"
    using from_config_facts(1) [OF assms(1)] by (simp add: route_index_build_Inr)
  from strategy_index_lookup [OF this, of name s] s c show ?thesis
    by (auto simp: effective_strategy_def route_strategy_def)
qed

lemma closed_rules_resolved:
  assumes "from_config_with_resource_indexes env nets config sh sr = Inr idx" "references_closed config"
    and "s \<in> set (rc_strategies config)" "rule \<in> set (st_rules s)"
  shows "rule_resolved idx rule"
proof -
  note facts = from_config_facts [OF assms(1)]
  have hosts: "px_hosts idx h \<noteq> None" if "sr_hosts rule = Some h" for h
    using assms(2-4) that facts(2) by (auto simp: references_closed_def)
  have sets: "\<exists>index. select_rule_index idx ref = Inr index" if "sr_rule_set rule = Some ref" for ref
  proof (rule check_selector_resolves)
    show "check_selector (px_rule_sets idx) ref = Inr ()"
      using facts(4) assms(3,4) that by (auto simp: validate_rule_set_selectors_iff check_rules_iff)
    show "px_rule_sets idx (ref_resource ref) \<noteq> None"
      using assms(2-4) that facts(3) by (fastforce simp: references_closed_def domIff [symmetric])
  qed
  show ?thesis using hosts sets by (auto simp: rule_resolved_def split: option.splits)
qed

lemma closed_listener_hosts:
  assumes "from_config_with_resource_indexes env nets config sh sr = Inr idx" "references_closed config"
    and "select_route (px_routes idx) request = Inr routing"
  shows "listener_hosts_ok idx routing"
proof (cases "rs_listener_hosts routing")
  case (Some h)
  with select_route_strategy(2) [OF from_config_facts(1) [OF assms(1)] assms(3)] assms(2)
  have "h \<in> hosts_resource_id ` set (rc_hosts config)" by (auto simp: references_closed_def)
  with from_config_facts(2) [OF assms(1)] have "h \<in> dom (px_hosts idx)" by simp
  with Some show ?thesis by (auto simp: listener_hosts_ok_def)
qed (simp add: listener_hosts_ok_def)

lemma prepare_context_Inr:
  assumes "prepare_context nets sha256 idx request = Inr ctx"
  shows "select_route (px_routes idx) request = Inr (pc_routing ctx)"
    and "pc_client ctx = match_client nets (px_clients idx) (pr_client_id request) (pr_client_addr request)"
    and "pc_client_config ctx = client_config_of idx (pc_client ctx)"
    and "effective_strategy idx (pc_client_config ctx) (pc_routing ctx) = Inr (pc_strategy ctx)"
    and "select_cache idx (pc_client_config ctx) (pc_strategy ctx) (request_digest sha256 request (pc_client ctx)) = Inr (pc_cache ctx)"
  using assms by (auto simp: prepare_context_def Let_def)

section \<open>Cache pools\<close>

lemma decision_namespace_pool [simp]: "decision_namespace (cache_pool ns optimistic) = Some ns"
  by (simp add: decision_namespace_def cache_pool_def Let_def)

lemma strategy_namespace_Inr: "strategy_namespace s = Inr n \<Longrightarrow> n = CacheStrategyId (id_str (st_id s))"
  by (simp add: strategy_namespace_def cache_strategy_id_Inr)

lemma select_cache_namespace:
  assumes "select_cache idx client strategy digest = Inr d" "decision_namespace d = Some ns"
  shows "case Option.bind client cl_cache of
      Some cache \<Rightarrow> co_enabled cache \<and> (\<exists>x. digest = Some x \<and> ns = NamespaceClientStrategy x (CacheStrategyId (id_str (st_id strategy))))
    | None \<Rightarrow> (case st_cache strategy of
        Some cache \<Rightarrow> co_enabled cache \<and> ns = NamespaceStrategy (CacheStrategyId (id_str (st_id strategy)))
      | None \<Rightarrow> gc_enabled (px_global_cache idx) \<and> ns = NamespaceGlobal)"
  using assms
  by (auto simp: select_cache_def decision_namespace_def [of CacheDisabled] dest: strategy_namespace_Inr
      split: option.splits if_splits)

section \<open>Replacing a resource\<close>

definition uses_hosts :: "'net policy_context \<Rightarrow> config_id set" where
  "uses_hosts ctx = set_option (rs_listener_hosts (pc_routing ctx)) \<union>
     (\<Union>rule \<in> set (st_rules (pc_strategy ctx)). set_option (sr_hosts rule))"

definition uses_rule_sets :: "'net policy_context \<Rightarrow> config_id set" where
  "uses_rule_sets ctx = (\<Union>rule \<in> set (st_rules (pc_strategy ctx)). ref_resource ` set_option (sr_rule_set rule))"

lemma evaluate_rule_list_frame:
  "(\<And>rule h. rule \<in> set rules \<Longrightarrow> sr_hosts rule = Some h \<Longrightarrow> px_hosts idx' h = px_hosts idx h) \<Longrightarrow>
   (\<And>rule ref. rule \<in> set rules \<Longrightarrow> sr_rule_set rule = Some ref \<Longrightarrow>
      px_rule_sets idx' (ref_resource ref) = px_rule_sets idx (ref_resource ref)) \<Longrightarrow>
   evaluate_rule_list names idx' strategy qname ecs n rules = evaluate_rule_list names idx strategy qname ecs n rules"
proof (induction rules arbitrary: n)
  case (Cons rule rules)
  have IH: "evaluate_rule_list names idx' strategy qname ecs m rules = evaluate_rule_list names idx strategy qname ecs m rules" for m
    by (rule Cons.IH) (use Cons.prems in auto)
  have "select_rule_index idx' ref = select_rule_index idx ref" if "sr_rule_set rule = Some ref" for ref
    using Cons.prems(2) [of rule ref] that by (simp add: select_rule_index_def)
  moreover have "px_hosts idx' h = px_hosts idx h" if "sr_hosts rule = Some h" for h
    using Cons.prems(1) [of rule h] that by simp
  ultimately show ?case unfolding evaluate_rule_list.simps IH by (simp split: option.split)
qed simp

text \<open>The context of a request does not depend on the resources.\<close>

lemma prepare_context_frame:
  assumes "px_routes idx' = px_routes idx" "px_clients idx' = px_clients idx"
    "px_client_configs idx' = px_client_configs idx" "px_global_cache idx' = px_global_cache idx"
  shows "prepare_context nets sha256 idx' request = prepare_context nets sha256 idx request"
proof -
  have "client_config_of idx' = client_config_of idx" "effective_strategy idx' = effective_strategy idx"
    "select_cache idx' = select_cache idx"
    unfolding client_config_of_def effective_strategy_def select_cache_def assms by (rule refl)+
  then show ?thesis unfolding prepare_context_def assms by simp
qed

lemma evaluate_route_frame:
  assumes "\<And>h. h \<in> uses_hosts ctx \<Longrightarrow> px_hosts idx' h = px_hosts idx h"
    and "\<And>r. r \<in> uses_rule_sets ctx \<Longrightarrow> px_rule_sets idx' r = px_rule_sets idx r"
    and "px_upstream_ecs idx' = px_upstream_ecs idx"
  shows "evaluate_route names idx' ctx qname = evaluate_route names idx ctx qname"
proof -
  have rules: "evaluate_rule_list names idx' (pc_strategy ctx) name ecs n (st_rules (pc_strategy ctx)) =
      evaluate_rule_list names idx (pc_strategy ctx) name ecs n (st_rules (pc_strategy ctx))" for name ecs n
    by (rule evaluate_rule_list_frame) (use assms in \<open>force simp: uses_hosts_def uses_rule_sets_def\<close>)+
  have "px_hosts idx' h = px_hosts idx h" if "rs_listener_hosts (pc_routing ctx) = Some h" for h
    using assms(1) that by (simp add: uses_hosts_def)
  then show ?thesis unfolding evaluate_route_def evaluate_rules_def rules assms(3) by (simp split: option.split)
qed

section \<open>A small configuration\<close>

text \<open>One UDP listener, one strategy with a hosts rule and a rule set, one client that owns a cache; the
  network type has one element, which contains every address.\<close>

definition sample_nets :: "unit net_lib" where
  "sample_nets = \<lparr>net_contains = (\<lambda>_ _. True), net_prefix_len = (\<lambda>_. 0)\<rparr>"

definition sample_ecs :: "unit resolved_ecs" where
  "sample_ecs = \<lparr>ecs_mode = EcsDisabled, ecs_custom_ip = None, ecs_source = SourceGlobal\<rparr>"

definition sample_ttl :: resolved_ttl_override where
  "sample_ttl = \<lparr>ttl_enabled = False, ttl_min = None, ttl_max = None, ttl_source = SourceDefault\<rparr>"

definition sample_override :: resolved_cache_override where
  "sample_override = \<lparr>co_enabled = True, co_optimistic = None, co_source = SourceStrategy\<rparr>"

definition sample_rules :: "unit resolved_strategy_rule list" where
  "sample_rules =
     [\<lparr>sr_rule_set = None, sr_hosts = Some (ConfigId ''h''), sr_upstream = None, sr_ecs = sample_ecs\<rparr>,
      \<lparr>sr_rule_set = Some \<lparr>ref_resource = ConfigId ''r'', ref_selector = None\<rparr>, sr_hosts = None,
       sr_upstream = Some (ConfigId ''v''), sr_ecs = sample_ecs\<rparr>]"

definition sample_strategy :: "string \<Rightarrow> unit resolved_strategy" where
  "sample_strategy name =
     \<lparr>st_id = ConfigId name, st_rules = sample_rules, st_default_upstream = ConfigId ''u'',
      st_cache = Some sample_override, st_ttl_override = sample_ttl, st_ecs = sample_ecs\<rparr>"

definition sample_clients :: "unit resolved_client list" where
  "sample_clients =
     [\<lparr>cl_name = ConfigId ''c'', cl_client_ids = [''k''], cl_ips = [], cl_strategy = None, cl_cache = Some sample_override,
       cl_ttl_override = sample_ttl, cl_ecs = sample_ecs\<rparr>]"

definition sample_config :: "string \<Rightarrow> unit resolved_config" where
  "sample_config name =
     \<lparr>rc_rule_set_max_size_bytes = 100, rc_rule_set_max_rules = 10,
      rc_cache = \<lparr>gc_enabled = True, gc_memory_max_size_bytes = 0, gc_failure_ttl = 0, gc_negative_ttl_max = 0,
        gc_optimistic = \<lparr>opt_enabled = False, opt_answer_ttl = 0, opt_max_age = 0, opt_negative_max_age = 0\<rparr>,
        gc_persistence_enabled = False, gc_persistence_path = [], gc_snapshot_interval = 0\<rparr>,
      rc_listeners = [ListenerUdp (ConfigId ''l'') [] 53 (ConfigId name) None],
      rc_upstreams = [], rc_strategies = [sample_strategy name],
      rc_hosts = [HostsConst (ConfigId ''h'') HostsFormatHosts ''1.2.3.4 a.b''],
      rc_rule_sets = [RuleSetConst (ConfigId ''r'') FormatClash ''DOMAIN,b.c''],
      rc_clients = sample_clients\<rparr>"

definition sample_hosts :: hosts_index where
  "sample_hosts = \<lparr>hosts_exact = [(CanonicalDomain ''a.b'', [Address (V4 0x01020304)])], hosts_wildcard = [], hosts_record_count = 1\<rparr>"

definition sample_rule_index :: rule_index where
  "sample_rule_index = RuleIndex [CanonicalDomain ''b.c''] [] [] [] [] 1 0"

definition sample_env :: "string resource_env" where
  "sample_env = \<lparr>env_names = text_name_lib, env_yaml = (\<lambda>_. None), env_json = (\<lambda>_. None),
     env_files = (\<lambda>_ _. \<lparr>fs_entry = EntryError, fs_node = None, fs_data = (\<lambda>_. None), fs_chunk = 0\<rparr>), env_now = 0\<rparr>"

definition sample_index :: "string \<Rightarrow> unit policy_index" where
  "sample_index name =
     \<lparr>px_routes = \<lparr>rx_strategies = [ConfigId name \<mapsto> sample_strategy name],
        rx_listeners = [ConfigId ''l'' \<mapsto> Stream (ConfigId name) None]\<rparr>,
      px_clients = \<lparr>ci_rules = map client_rule_from_resolved sample_clients, ci_names = [ConfigId ''c'' \<mapsto> 0],
        ci_exact_ids = [''k'' \<mapsto> 0], ci_cidrs = []\<rparr>,
      px_client_configs = [ConfigId ''c'' \<mapsto> sample_clients ! 0], px_upstream_ecs = Map.empty,
      px_global_cache = rc_cache (sample_config name), px_hosts = [ConfigId ''h'' \<mapsto> sample_hosts],
      px_rule_sets = [ConfigId ''r'' \<mapsto> sample_rule_index]\<rparr>"

definition sample_request :: "string option \<Rightarrow> policy_request" where
  "sample_request client_id =
     \<lparr>pr_listener_id = ConfigId ''l'', pr_doh_route_id = None, pr_client_id = client_id, pr_client_addr = None,
      pr_client_digest = None, pr_qname = Some (CanonicalDomain ''b.c'')\<rparr>"

lemmas sample_defs = sample_nets_def sample_ecs_def sample_ttl_def sample_override_def sample_rules_def
  sample_strategy_def sample_clients_def sample_config_def sample_hosts_def sample_rule_index_def sample_env_def
  sample_index_def sample_request_def

lemma sample_loads:
  "load_hosts text_name_lib (\<lambda>_. None) files 0 (HostsConst (ConfigId ''h'') HostsFormatHosts ''1.2.3.4 a.b'') hosts_limits_default =
     Inr \<lparr>lh_id = ConfigId ''h'', lh_source = SourceConst, lh_content_hash = deterministic_hash (as_bytes ''1.2.3.4 a.b''),
          lh_fetched_at = 0, lh_index = sample_hosts\<rparr>"
  "load_rule_set text_name_lib (\<lambda>_. None) files 0 (RuleSetConst (ConfigId ''r'') FormatClash ''DOMAIN,b.c'')
     (with_max_rules (with_max_input_bytes rule_limits_default 100) 10) =
     Inr \<lparr>lr_id = ConfigId ''r'', lr_source = SourceConst, lr_content_hash = deterministic_hash (as_bytes ''DOMAIN,b.c''),
          lr_fetched_at = 0, lr_index = sample_rule_index\<rparr>"
  by code_simp+

lemma sample_build:
  "from_config_with_resource_indexes sample_env sample_nets (sample_config name) Map.empty Map.empty = Inr (sample_index name)"
proof -
  have "compile_hosts sample_env Map.empty (HostsConst (ConfigId ''h'') HostsFormatHosts ''1.2.3.4 a.b'') = Inr sample_hosts"
    by (simp add: compile_hosts_def sample_env_def sample_loads)
  moreover have "compile_rule_set sample_env Map.empty (with_max_rules (with_max_input_bytes rule_limits_default 100) 10)
      (RuleSetConst (ConfigId ''r'') FormatClash ''DOMAIN,b.c'') = Inr sample_rule_index"
    by (simp add: compile_rule_set_def sample_env_def sample_loads)
  ultimately show ?thesis
    by (simp add: from_config_with_resource_indexes_def compile_resources_with_supplied_def build_with_resources_def
        check_selector_def is_selector_map_def route_index_build_def ensure_strategy_def client_index_build_def
        client_index_default_def add_client_rule_def sort_cidrs_def client_rule_from_resolved_def
        sample_nets_def sample_config_def sample_clients_def sample_index_def sample_strategy_def sample_rules_def sample_rule_index_def)
qed

lemma sample_closed: "references_closed (sample_config name)"
  by (auto simp: references_closed_def sample_defs)

lemma sample_route:
  "select_route (px_routes (sample_index name)) (sample_request c) =
     Inr \<lparr>rs_listener_id = ConfigId ''l'', rs_route = None, rs_strategy = sample_strategy name, rs_listener_hosts = None\<rparr>"
  by (simp add: select_route_def select_stream_def sample_index_def sample_request_def)

definition sample_owner_request :: "policy_request \<Rightarrow> bool" where
  "sample_owner_request r \<longleftrightarrow> pr_listener_id r = ConfigId ''l'' \<and> pr_doh_route_id r = None \<and>
     pr_client_id r = Some ''k'' \<and> pr_client_digest r = None"

definition sample_pool :: cache_namespace where
  "sample_pool = NamespaceClientStrategy
     (ClientCacheDigest (as_bytes (''fluxdns/client-cache/v1'' @ [CHR 0x00]) @ as_bytes (''id'' @ [CHR 0x00]) @ as_bytes ''k''))
     (CacheStrategyId ''s'')"

lemma sample_context:
  assumes "sample_owner_request r"
  shows "\<exists>ctx. prepare_context sample_nets (\<lambda>x. x) (sample_index ''s'') r = Inr ctx \<and>
    pc_client_config ctx = Some (sample_clients ! 0) \<and> decision_namespace (pc_cache ctx) = Some sample_pool"
proof -
  let ?routing = "\<lparr>rs_listener_id = ConfigId ''l'', rs_route = None, rs_strategy = sample_strategy ''s'', rs_listener_hosts = None\<rparr>"
  let ?m = "Matched (client_rule_from_resolved (sample_clients ! 0)) ExactId"
  have route: "select_route (px_routes (sample_index ''s'')) r = Inr ?routing"
    using assms by (simp add: sample_owner_request_def select_route_def select_stream_def sample_index_def)
  have match: "match_client sample_nets (px_clients (sample_index ''s'')) (pr_client_id r) (pr_client_addr r) = ?m"
    using assms by (simp add: sample_owner_request_def match_client_def get_by_client_id_def sample_index_def sample_clients_def)
  have config: "client_config_of (sample_index ''s'') ?m = Some (sample_clients ! 0)"
    by (simp add: client_config_of_def client_rule_from_resolved_def sample_index_def sample_clients_def)
  have strategy: "effective_strategy (sample_index ''s'') (Some (sample_clients ! 0)) ?routing = Inr (sample_strategy ''s'')"
    by (simp add: effective_strategy_def sample_clients_def)
  have valid: "cache_strategy_id_from_config ''s'' = Inr (CacheStrategyId ''s'')" by code_simp
  have digest: "request_digest (\<lambda>x. x) r ?m = Some
    (ClientCacheDigest (as_bytes (''fluxdns/client-cache/v1'' @ [CHR 0x00]) @ as_bytes (''id'' @ [CHR 0x00]) @ as_bytes ''k''))"
    using assms by (simp add: sample_owner_request_def request_digest_def cache_digest_def digest_input_def)
  have "select_cache (sample_index ''s'') (Some (sample_clients ! 0)) (sample_strategy ''s'') (request_digest (\<lambda>x. x) r ?m) =
      Inr (cache_pool sample_pool None)"
    unfolding digest
    by (simp add: select_cache_def sample_clients_def sample_override_def strategy_namespace_def sample_strategy_def valid sample_pool_def)
  then show ?thesis by (simp add: prepare_context_def route match config strategy Let_def)
qed

section \<open>Properties\<close>

text \<open>
  Property C34: with every reference of the strategy resolved, the rules are tried in their order: a hit
  of the listener's hosts resource decides first; otherwise the first rule that hits decides, giving its
  own position, hosts resource, upstream and ECS; and if no rule hits, the default upstream is used.
\<close>

theorem evaluate_rules_first_match:
  assumes "\<forall>rule \<in> set (st_rules strategy). rule_resolved idx rule" "listener_hosts_ok idx routing"
  shows "evaluate_rules names idx routing strategy (Some qname) ecs =
    (case listener_hit idx routing qname of
       Some resource \<Rightarrow> Inr (Some resource,
         Some \<lparr>mr_strategy = st_id strategy, mr_ordinal = u64_max, mr_kind = MatchedListenerHosts resource\<rparr>,
         st_default_upstream strategy, ecs)
     | None \<Rightarrow>
        (case find_index (\<lambda>rule. rule_hit names idx qname rule \<noteq> None) (st_rules strategy) of
           None \<Rightarrow> Inr (None, None, st_default_upstream strategy, ecs)
         | Some i \<Rightarrow> Inr (sr_hosts (st_rules strategy ! i),
             Some \<lparr>mr_strategy = st_id strategy, mr_ordinal = i,
               mr_kind = the (rule_hit names idx qname (st_rules strategy ! i))\<rparr>,
             rule_upstream strategy (st_rules strategy ! i), sr_ecs (st_rules strategy ! i))))"
proof -
  note list = evaluate_rule_list_first [OF assms(1), of names strategy qname ecs 0, unfolded add_0]
  show ?thesis
  proof (cases "rs_listener_hosts routing")
    case None
    then show ?thesis by (simp add: evaluate_rules_def listener_hit_def list)
  next
    case (Some resource)
    with assms(2) obtain index where "px_hosts idx resource = Some index" by (auto simp: listener_hosts_ok_def)
    with Some show ?thesis
      by (cases "hosts_lookup index qname") (simp_all add: evaluate_rules_def listener_hit_def list)
  qed
qed

theorem evaluate_rules_first_match_witness:
  "evaluate_rules text_name_lib (sample_index ''s'')
     \<lparr>rs_listener_id = ConfigId ''l'', rs_route = None, rs_strategy = sample_strategy ''s'', rs_listener_hosts = None\<rparr>
     (sample_strategy ''s'') (Some (CanonicalDomain ''b.c'')) sample_ecs =
   Inr (None, Some \<lparr>mr_strategy = ConfigId ''s'', mr_ordinal = 1, mr_kind = MatchedRuleSet (ConfigId ''r'') MatchExact\<rparr>,
     ConfigId ''v'', sample_ecs)"
proof -
  let ?routing = "\<lparr>rs_listener_id = ConfigId ''l'', rs_route = None, rs_strategy = sample_strategy ''s'', rs_listener_hosts = None\<rparr>"
  have "\<forall>rule \<in> set (st_rules (sample_strategy ''s'')). rule_resolved (sample_index ''s'') rule" "listener_hosts_ok (sample_index ''s'') ?routing"
    by (simp_all add: rule_resolved_def listener_hosts_ok_def sample_strategy_def sample_rules_def sample_index_def
        select_rule_index_def sample_rule_index_def is_selector_map_def)
  note rules = evaluate_rules_first_match [OF this, of text_name_lib "CanonicalDomain ''b.c''" sample_ecs]
  show ?thesis unfolding rules
    by (simp add: listener_hit_def sample_strategy_def sample_rules_def sample_index_def find_index_Cons rule_hit_def sample_hosts_def
        hosts_lookup_def is_wildcard_def starts_with_def select_rule_index_def sample_rule_index_def is_selector_map_def
        rule_matches_def rule_upstream_def)
qed

text \<open>
  Property C25: an index built from a configuration with closed references never fails on a reference:
  the only errors of a request are an unknown route, and a cache pool whose strategy name is not a valid
  pool name.
\<close>

theorem policy_evaluate_errors:
  assumes build: "from_config_with_resource_indexes env nets config sh sr = Inr idx"
    and closed: "references_closed config"
  shows "case policy_evaluate names nets sha256 idx request of
      Inr plan \<Rightarrow> rp_strategy plan \<in> set (rc_strategies config)
    | Inl e \<Rightarrow> (\<exists>path. e = RouteNotFound (pr_listener_id request) path) \<or>
        (\<exists>s \<in> set (rc_strategies config). e = CacheStrategyIdInvalid (st_id s) \<and>
           (\<exists>x. cache_strategy_id_from_config (id_str (st_id s)) = Inl x))"
proof (cases "select_route (px_routes idx) request")
  case (Inl e)
  then have "\<exists>path. e = RouteNotFound (pr_listener_id request) path"
    by (auto simp: select_route_def split: option.splits)
  with Inl show ?thesis by (simp add: policy_evaluate_def prepare_context_def)
next
  case (Inr routing)
  let ?client = "match_client nets (px_clients idx) (pr_client_id request) (pr_client_addr request)"
  note route = select_route_strategy [OF from_config_facts(1) [OF build] Inr]
  obtain s where s: "s \<in> set (rc_strategies config)" "effective_strategy idx (client_config_of idx ?client) routing = Inr s"
    using effective_strategy_listed [OF build closed route(1)] by blast
  show ?thesis
  proof (cases "select_cache idx (client_config_of idx ?client) s (request_digest sha256 request ?client)")
    case (Inl e)
    from select_cache_error [OF this] s(1) Inl Inr s(2) show ?thesis
      by (auto simp: policy_evaluate_def prepare_context_def Let_def)
  next
    case (Inr cache)
    with \<open>select_route (px_routes idx) request = Inr routing\<close> s(2) obtain ctx where
      ctx: "prepare_context nets sha256 idx request = Inr ctx" "pc_routing ctx = routing" "pc_strategy ctx = s"
      by (auto simp: prepare_context_def Let_def)
    have "listener_hosts_ok idx routing"
      by (rule closed_listener_hosts [OF build closed \<open>select_route (px_routes idx) request = Inr routing\<close>])
    with closed_rules_resolved [OF build closed s(1)] ctx(2,3)
    obtain d where "evaluate_route names idx ctx (pr_qname request) = Inr d"
      using evaluate_route_resolved [of idx ctx] by blast
    with ctx s(1) show ?thesis by (simp add: policy_evaluate_def into_resolution_plan_def)
  qed
qed

theorem policy_evaluate_errors_witness:
  "case policy_evaluate text_name_lib sample_nets (\<lambda>x. x) (sample_index ''s'') (sample_request None) of
      Inr plan \<Rightarrow> rp_strategy plan \<in> set (rc_strategies (sample_config ''s''))
    | Inl e \<Rightarrow> (\<exists>path. e = RouteNotFound (pr_listener_id (sample_request None)) path) \<or>
        (\<exists>s \<in> set (rc_strategies (sample_config ''s'')). e = CacheStrategyIdInvalid (st_id s) \<and>
           (\<exists>x. cache_strategy_id_from_config (id_str (st_id s)) = Inl x))"
  by (rule policy_evaluate_errors [OF sample_build sample_closed])

text \<open>
  Property C16: cache pools keep clients apart. If two requests are given the same pool and the client of
  one of them has a cache of its own, then both run under the same strategy name and were identified by
  the same client id or the same (unmapped) address, as long as SHA-256 has no collision on their inputs.
\<close>

theorem cache_pools_isolate_clients:
  assumes ctx: "prepare_context nets sha256 idx r = Inr ctx" "prepare_context nets sha256 idx r' = Inr ctx'"
    and pool: "decision_namespace (pc_cache ctx) = Some ns" "decision_namespace (pc_cache ctx') = Some ns"
    and own: "Option.bind (pc_client_config ctx) cl_cache \<noteq> None"
    and derived: "pr_client_digest r = None" "pr_client_digest r' = None"
    and no_collision: "\<And>x y. digest_input (pc_client ctx) (pr_client_id r) (pr_client_addr r) = Some x \<Longrightarrow>
      digest_input (pc_client ctx') (pr_client_id r') (pr_client_addr r') = Some y \<Longrightarrow> sha256 x = sha256 y \<Longrightarrow> x = y"
  shows "id_str (st_id (pc_strategy ctx)) = id_str (st_id (pc_strategy ctx')) \<and>
     ((\<exists>c. pr_client_id r = Some c \<and> pr_client_id r' = Some c) \<or>
      (\<exists>a a'. pr_client_addr r = Some a \<and> pr_client_addr r' = Some a' \<and> normalize_client_addr a = normalize_client_addr a'))"
proof -
  note one = select_cache_namespace [OF prepare_context_Inr(5) [OF ctx(1)] pool(1)]
  note two = select_cache_namespace [OF prepare_context_Inr(5) [OF ctx(2)] pool(2)]
  from one own obtain d where d: "request_digest sha256 r (pc_client ctx) = Some d"
    and ns: "ns = NamespaceClientStrategy d (CacheStrategyId (id_str (st_id (pc_strategy ctx))))"
    by (auto split: option.splits)
  with two have d': "request_digest sha256 r' (pc_client ctx') = Some d"
    and names: "id_str (st_id (pc_strategy ctx)) = id_str (st_id (pc_strategy ctx'))"
    by (auto split: option.splits)
  from d d' derived obtain x y where xy:
    "digest_input (pc_client ctx) (pr_client_id r) (pr_client_addr r) = Some x"
    "digest_input (pc_client ctx') (pr_client_id r') (pr_client_addr r') = Some y" "sha256 x = sha256 y"
    by (auto simp: request_digest_def cache_digest_def)
  with no_collision have "x = y" by blast
  with digest_input_identity [OF xy(1)] xy(2) names show ?thesis by blast
qed

theorem cache_pools_isolate_clients_witness:
  "\<exists>c. pr_client_id (sample_request (Some ''k'')) = Some c \<and>
     pr_client_id ((sample_request (Some ''k''))\<lparr>pr_client_addr := Some (V4 1)\<rparr>) = Some c"
proof -
  let ?r = "sample_request (Some ''k'')"
  have r: "sample_owner_request ?r" "sample_owner_request (?r\<lparr>pr_client_addr := Some (V4 1)\<rparr>)"
    by (simp_all add: sample_owner_request_def sample_request_def)
  from sample_context [OF r(1)] sample_context [OF r(2)] obtain ctx ctx' where
    ctx: "prepare_context sample_nets (\<lambda>x. x) (sample_index ''s'') ?r = Inr ctx"
      "prepare_context sample_nets (\<lambda>x. x) (sample_index ''s'') (?r\<lparr>pr_client_addr := Some (V4 1)\<rparr>) = Inr ctx'"
    and ns: "decision_namespace (pc_cache ctx) = Some sample_pool" "decision_namespace (pc_cache ctx') = Some sample_pool"
    and own: "Option.bind (pc_client_config ctx) cl_cache \<noteq> None" by (auto simp: sample_clients_def)
  have "pr_client_digest ?r = None" "pr_client_digest (?r\<lparr>pr_client_addr := Some (V4 1)\<rparr>) = None"
    by (simp_all add: sample_request_def)
  from cache_pools_isolate_clients [OF ctx ns own this] show ?thesis by (simp add: sample_request_def)
qed

text \<open>
  Property C35: replacing a hosts resource or a rule set leaves the contexts of all requests as they are,
  and changes no decision of a context that does not use the resource.
\<close>

theorem replace_resource_frame:
  "(replace_hosts_resource idx resource hosts_index = Inr idx' \<longrightarrow>
      prepare_context nets sha256 idx' request = prepare_context nets sha256 idx request \<and>
      (resource \<notin> uses_hosts ctx \<longrightarrow> evaluate_route names idx' ctx qname = evaluate_route names idx ctx qname)) \<and>
   (replace_rule_set_resource idx resource rule_index = Inr idx'' \<longrightarrow>
      prepare_context nets sha256 idx'' request = prepare_context nets sha256 idx request \<and>
      (resource \<notin> uses_rule_sets ctx \<longrightarrow> evaluate_route names idx'' ctx qname = evaluate_route names idx ctx qname))"
  by (auto simp: replace_hosts_resource_def replace_rule_set_resource_def split: if_splits
      intro!: evaluate_route_frame prepare_context_frame)

theorem replace_resource_frame_witness:
  "\<exists>idx'. replace_hosts_resource (sample_index ''s'') (ConfigId ''h'') hosts_empty = Inr idx' \<and>
     prepare_context sample_nets (\<lambda>x. x) idx' (sample_request None) =
     prepare_context sample_nets (\<lambda>x. x) (sample_index ''s'') (sample_request None)"
proof -
  obtain idx' where "replace_hosts_resource (sample_index ''s'') (ConfigId ''h'') hosts_empty = Inr idx'"
    by (simp add: replace_hosts_resource_def sample_index_def)
  with replace_resource_frame [of "sample_index ''s''" "ConfigId ''h''" hosts_empty idx'] show ?thesis by blast
qed

text \<open>The rules never report a name the cache refuses.\<close>

lemma select_rule_index_names: "select_rule_index idx rule_set \<noteq> Inl (CacheStrategyIdInvalid i)"
  by (auto simp: select_rule_index_def and_then_Inl_iff split: option.splits if_splits)

lemma evaluate_rule_list_names: "evaluate_rule_list names idx strategy qname ecs k rules \<noteq> Inl (CacheStrategyIdInvalid i)"
  by (induction rules arbitrary: k) (auto simp: and_then_Inl_iff select_rule_index_names split: option.splits if_splits)

lemma evaluate_route_names: "evaluate_route names idx context qname \<noteq> Inl (CacheStrategyIdInvalid i)"
  by (auto simp: evaluate_route_def evaluate_rules_def and_then_Inl_iff evaluate_rule_list_names split: option.splits if_splits)

text \<open>
  Property C36: the configuration accepts strategy names of up to 128 characters and with an exclamation
  mark, the cache accepts neither more than 64 characters nor that mark. A request that runs under such a
  strategy is refused for its name exactly when its answers would go into a pool named after the strategy: when its
  client has a cache of its own, that this cache is enabled and the request has an identity, and otherwise that
  the strategy has an enabled cache of its own.
\<close>

theorem long_strategy_name_refused:
  assumes "config_id_new name = Inr (st_id strategy)" "64 < length name \<or> CHR ''!'' \<in> set name"
    and "select_route (px_routes idx) request = Inr routing"
    and "client = match_client nets (px_clients idx) (pr_client_id request) (pr_client_addr request)"
    and "effective_strategy idx (client_config_of idx client) routing = Inr strategy"
  shows "policy_evaluate names nets sha256 idx request = Inl (CacheStrategyIdInvalid (st_id strategy)) \<longleftrightarrow>
    (case Option.bind (client_config_of idx client) cl_cache of
       Some cache \<Rightarrow> co_enabled cache \<and> request_digest sha256 request client \<noteq> None
     | None \<Rightarrow> (case st_cache strategy of Some cache \<Rightarrow> co_enabled cache | None \<Rightarrow> False))"
proof -
  have st: "id_str (st_id strategy) = name" using assms(1) by (auto simp: config_id_new_Inr)
  have "\<not> namespace_char (CHR ''!'')" by code_simp
  with assms(2) have "\<not> (name \<noteq> [] \<and> length name \<le> 64 \<and> list_all namespace_char name)"
    by (auto simp: list_all_iff)
  then obtain e where "cache_strategy_id_from_config name = Inl e" using cache_strategy_id_total by blast
  then have refused: "strategy_namespace strategy = Inl (CacheStrategyIdInvalid (st_id strategy))"
    by (simp add: strategy_namespace_def st)
  have "policy_evaluate names nets sha256 idx request = Inl (CacheStrategyIdInvalid (st_id strategy)) \<longleftrightarrow>
      select_cache idx (client_config_of idx client) strategy (request_digest sha256 request client) =
        Inl (CacheStrategyIdInvalid (st_id strategy))"
    using assms(3,5) unfolding assms(4)
    by (auto simp: policy_evaluate_def prepare_context_def and_then_Inl_iff evaluate_route_names Let_def)
  then show ?thesis by (auto simp: select_cache_def refused split: option.splits)
qed

text \<open>A request of no client is refused; one of a client that has its cache disabled is not.\<close>

definition cautious_index :: "unit policy_index" where
  "cautious_index = (sample_index ''s!'')\<lparr>px_client_configs :=
     [ConfigId ''c'' \<mapsto> (sample_clients ! 0)\<lparr>cl_cache := Some (sample_override\<lparr>co_enabled := False\<rparr>)\<rparr>]\<rparr>"

theorem long_strategy_name_refused_witness:
  "policy_evaluate text_name_lib sample_nets (\<lambda>x. x) (sample_index ''s!'') (sample_request None) =
     Inl (CacheStrategyIdInvalid (ConfigId ''s!'')) \<and>
   policy_evaluate text_name_lib sample_nets (\<lambda>x. x) cautious_index (sample_request (Some ''k'')) \<noteq>
     Inl (CacheStrategyIdInvalid (ConfigId ''s!''))"
proof -
  let ?s = "sample_strategy ''s!''"
  have name: "config_id_new ''s!'' = Inr (st_id ?s)" "64 < length ''s!'' \<or> CHR ''!'' \<in> set ''s!''"
    unfolding sample_strategy_def by (code_simp, simp)
  have unknown: "client_config_of (sample_index ''s!'') (match_client sample_nets (px_clients (sample_index ''s!''))
      (pr_client_id (sample_request None)) (pr_client_addr (sample_request None))) = None"
    by (simp add: client_config_of_def match_client_def sample_request_def)
  have known: "client_config_of cautious_index (match_client sample_nets (px_clients cautious_index)
      (pr_client_id (sample_request (Some ''k''))) (pr_client_addr (sample_request (Some ''k'')))) =
      Some ((sample_clients ! 0)\<lparr>cl_cache := Some (sample_override\<lparr>co_enabled := False\<rparr>)\<rparr>)"
    by (simp add: client_config_of_def match_client_def cautious_index_def sample_index_def sample_request_def sample_clients_def
        client_rule_from_resolved_def get_by_client_id_def)
  have route: "select_route (px_routes cautious_index) (sample_request (Some ''k'')) =
      Inr \<lparr>rs_listener_id = ConfigId ''l'', rs_route = None, rs_strategy = ?s, rs_listener_hosts = None\<rparr>"
    using sample_route [of "''s!''" "Some ''k''"] by (simp add: cautious_index_def)
  show ?thesis
    using long_strategy_name_refused [OF name sample_route [of "''s!''" None] refl, of sample_nets text_name_lib "\<lambda>x. x"]
      long_strategy_name_refused [OF name route refl, of sample_nets text_name_lib "\<lambda>x. x"]
    unfolding unknown known
    by (simp add: effective_strategy_def sample_strategy_def sample_override_def sample_clients_def)
qed

end
