(* ===== verification/Dns_Message.thy ===== *)
theory Dns_Message
  imports Config_Types
begin

text \<open>
  Canonical queries and responses (\<open>backend/src/dns/message.rs\<close>). A DNS message is seen through the
  fields that the back end reads and writes; names, record contents and EDNS blocks are type
  parameters, and the functions of the DNS library on them (wire encoding, name case, EDNS options,
  fresh messages) are a record of parameters with their documented behaviour in \<open>message_lib_ok\<close>.
  The lemmas show that canonical messages are fixed points of their own construction, that every
  operation on a response keeps the derived class and TTL data in step with the message, and what
  each TTL operation does to the records.
\<close>

section \<open>Messages\<close>

datatype message_type = MessageQuery | MessageResponse

datatype op_code = OpQuery | OpOther nat

datatype response_code = RcNoError | RcNXDomain | RcRefused | RcServFail | RcOther nat

record message_metadata =
  md_id :: "16 word"
  md_message_type :: message_type
  md_op_code :: op_code
  md_authoritative :: bool
  md_truncation :: bool
  md_recursion_desired :: bool
  md_recursion_available :: bool
  md_authentic_data :: bool
  md_checking_disabled :: bool
  md_response_code :: response_code

record 'n dns_query =
  q_name :: 'n
  q_type :: "16 word"
  q_class :: "16 word"

text \<open>A resource record: its TTL, the \<open>MINIMUM\<close> field if it is an SOA, and the rest.\<close>

record 'd dns_record =
  rr_ttl :: "32 word"
  rr_soa_minimum :: "32 word option"
  rr_rest :: 'd

record ('n, 'd, 'e) message =
  msg_metadata :: message_metadata
  msg_queries :: "'n dns_query list"
  msg_answers :: "'d dns_record list"
  msg_authorities :: "'d dns_record list"
  msg_additionals :: "'d dns_record list"
  msg_edns :: "'e option"

record ('n, 'd, 'e, 's) message_lib =
  lib_new :: "16 word \<Rightarrow> message_type \<Rightarrow> op_code \<Rightarrow> ('n, 'd, 'e) message"
  lib_to_vec :: "('n, 'd, 'e) message \<Rightarrow> byte list option"
  lib_from_vec :: "byte list \<Rightarrow> ('n, 'd, 'e) message option"
  lib_to_lowercase :: "'n \<Rightarrow> 'n"
  lib_set_fqdn :: "'n \<Rightarrow> bool \<Rightarrow> 'n"
  lib_edns_version :: "'e \<Rightarrow> 8 word"
  lib_edns_new :: 'e
  lib_edns_subnet :: "'e \<Rightarrow> 's option"
  lib_edns_remove_subnet :: "'e \<Rightarrow> 'e"
  lib_edns_insert_subnet :: "'s \<Rightarrow> 'e \<Rightarrow> 'e"

text \<open>What the back end relies on: a new message has the given header and nothing else set, the two
  name operations are idempotent, and inserting or removing the client subnet is seen by the getter and
  keeps the EDNS version.\<close>

definition message_lib_ok :: "('n, 'd, 'e, 's) message_lib \<Rightarrow> bool" where
  "message_lib_ok lib \<longleftrightarrow>
     (\<forall>i t p. lib_new lib i t p =
        \<lparr>msg_metadata = \<lparr>md_id = i, md_message_type = t, md_op_code = p, md_authoritative = False,
           md_truncation = False, md_recursion_desired = False, md_recursion_available = False,
           md_authentic_data = False, md_checking_disabled = False, md_response_code = RcNoError\<rparr>,
         msg_queries = [], msg_answers = [], msg_authorities = [], msg_additionals = [], msg_edns = None\<rparr>) \<and>
     (\<forall>n. lib_set_fqdn lib (lib_to_lowercase lib (lib_set_fqdn lib (lib_to_lowercase lib n) True)) True =
        lib_set_fqdn lib (lib_to_lowercase lib n) True) \<and>
     lib_edns_version lib (lib_edns_new lib) = 0 \<and>
     (\<forall>e. lib_edns_subnet lib (lib_edns_remove_subnet lib e) = None \<and>
        lib_edns_version lib (lib_edns_remove_subnet lib e) = lib_edns_version lib e) \<and>
     (\<forall>s e. lib_edns_subnet lib e = None \<longrightarrow> lib_edns_subnet lib (lib_edns_insert_subnet lib s e) = Some s) \<and>
     (\<forall>s e. lib_edns_version lib (lib_edns_insert_subnet lib s e) = lib_edns_version lib e) \<and>
     lib_edns_subnet lib (lib_edns_new lib) = None"

section \<open>Queries\<close>

record 'n canonical_question =
  cq_name :: 'n
  cq_query_type :: "16 word"
  cq_query_class :: "16 word"

record ('n, 'd, 'e) canonical_query =
  query_message :: "('n, 'd, 'e) message"
  query_question :: "'n canonical_question"

datatype canonical_message_error =
    UnexpectedMessageType message_type message_type
  | UnsupportedOpCode op_code
  | QuestionCount nat
  | UnsupportedEdnsVersion "8 word"
  | MessageIdMismatch "16 word" "16 word"
  | QuestionMismatch

definition question_from_query :: "('n, 'd, 'e, 's) message_lib \<Rightarrow> 'n dns_query \<Rightarrow> 'n canonical_question" where
  "question_from_query lib query =
     \<lparr>cq_name = lib_set_fqdn lib (lib_to_lowercase lib (q_name query)) True,
      cq_query_type = q_type query, cq_query_class = q_class query\<rparr>"

definition question_to_query :: "'n canonical_question \<Rightarrow> 'n dns_query" where
  "question_to_query question =
     \<lparr>q_name = cq_name question, q_type = cq_query_type question, q_class = cq_query_class question\<rparr>"

definition validate_common ::
  "('n, 'd, 'e, 's) message_lib \<Rightarrow> ('n, 'd, 'e) message \<Rightarrow> message_type \<Rightarrow> canonical_message_error + unit" where
  "validate_common lib message expected_type =
     (let md = msg_metadata message in
      if md_message_type md \<noteq> expected_type then Inl (UnexpectedMessageType expected_type (md_message_type md))
      else if md_op_code md \<noteq> OpQuery then Inl (UnsupportedOpCode (md_op_code md))
      else if length (msg_queries message) \<noteq> 1 then Inl (QuestionCount (length (msg_queries message)))
      else case msg_edns message of
          Some edns \<Rightarrow>
            if lib_edns_version lib edns \<noteq> 0 then Inl (UnsupportedEdnsVersion (lib_edns_version lib edns)) else Inr ()
        | None \<Rightarrow> Inr ())"

definition query_from_message ::
  "('n, 'd, 'e, 's) message_lib \<Rightarrow> ('n, 'd, 'e) message \<Rightarrow> canonical_message_error + ('n, 'd, 'e) canonical_query" where
  "query_from_message lib message =
     and_then (validate_common lib message MessageQuery) (\<lambda>_.
       let question = question_from_query lib (msg_queries message ! 0);
           canonical = lib_new lib 0 MessageQuery OpQuery;
           md = msg_metadata message;
           canonical = canonical\<lparr>msg_metadata := (msg_metadata canonical)
             \<lparr>md_recursion_desired := md_recursion_desired md, md_authentic_data := md_authentic_data md,
              md_checking_disabled := md_checking_disabled md\<rparr>\<rparr>;
           canonical = canonical\<lparr>msg_queries := msg_queries canonical @ [question_to_query question]\<rparr>;
           canonical = (case msg_edns message of Some edns \<Rightarrow> canonical\<lparr>msg_edns := Some edns\<rparr> | None \<Rightarrow> canonical)
       in Inr \<lparr>query_message = canonical, query_question = question\<rparr>)"

definition query_edns_client_subnet ::
  "('n, 'd, 'e, 's) message_lib \<Rightarrow> ('n, 'd, 'e) canonical_query \<Rightarrow> 's option" where
  "query_edns_client_subnet lib query = Option.bind (msg_edns (query_message query)) (lib_edns_subnet lib)"

definition with_edns_client_subnet ::
  "('n, 'd, 'e, 's) message_lib \<Rightarrow> ('n, 'd, 'e) canonical_query \<Rightarrow> 's option \<Rightarrow> ('n, 'd, 'e) canonical_query" where
  "with_edns_client_subnet lib query subnet =
     (let message = query_message query;
          message = message\<lparr>msg_edns := map_option (lib_edns_remove_subnet lib) (msg_edns message)\<rparr>;
          message =
            (case subnet of
               None \<Rightarrow> message
             | Some s \<Rightarrow>
                 message\<lparr>msg_edns := Some (lib_edns_insert_subnet lib s
                   (case msg_edns message of Some edns \<Rightarrow> edns | None \<Rightarrow> lib_edns_new lib))\<rparr>)
      in query\<lparr>query_message := message\<rparr>)"

definition message_with_id :: "('n, 'd, 'e) canonical_query \<Rightarrow> 16 word \<Rightarrow> ('n, 'd, 'e) message" where
  "message_with_id query i =
     (query_message query)\<lparr>msg_metadata := (msg_metadata (query_message query))\<lparr>md_id := i\<rparr>\<rparr>"

section \<open>Responses\<close>

datatype response_class = ClassPositive | ClassNoData | ClassNxDomain | ClassRefused | ClassServFail | ClassTruncated
  | ClassOther response_code

record ttl_metadata =
  tm_min_ttl :: "32 word option"
  tm_negative_ttl :: "32 word option"

record ('n, 'd, 'e) canonical_response =
  resp_message :: "('n, 'd, 'e) message"
  resp_class :: response_class
  resp_ttl :: ttl_metadata

definition classify_response :: "('n, 'd, 'e) message \<Rightarrow> response_class" where
  "classify_response message =
     (if md_truncation (msg_metadata message) then ClassTruncated
      else case md_response_code (msg_metadata message) of
          RcNoError \<Rightarrow> if msg_answers message = [] then ClassNoData else ClassPositive
        | RcNXDomain \<Rightarrow> ClassNxDomain
        | RcRefused \<Rightarrow> ClassRefused
        | RcServFail \<Rightarrow> ClassServFail
        | RcOther n \<Rightarrow> ClassOther (RcOther n))"

text \<open>\<open>Iterator::min\<close>.\<close>

definition iter_min :: "'a::linorder list \<Rightarrow> 'a option" where
  "iter_min xs = (case xs of [] \<Rightarrow> None | x # rest \<Rightarrow> Some (fold min rest x))"

definition all_records :: "('n, 'd, 'e) message \<Rightarrow> 'd dns_record list" where
  "all_records message = msg_answers message @ msg_authorities message @ msg_additionals message"

definition soa_ttls :: "'d dns_record list \<Rightarrow> 32 word list" where
  "soa_ttls records = List.map_filter (\<lambda>r. map_option (min (rr_ttl r)) (rr_soa_minimum r)) records"

definition negative_class :: "response_class \<Rightarrow> bool" where
  "negative_class c \<longleftrightarrow> c = ClassNoData \<or> c = ClassNxDomain"

definition extract_ttl_metadata :: "('n, 'd, 'e) message \<Rightarrow> response_class \<Rightarrow> ttl_metadata" where
  "extract_ttl_metadata message c =
     \<lparr>tm_min_ttl = iter_min (map rr_ttl (all_records message)),
      tm_negative_ttl = (if negative_class c then iter_min (soa_ttls (msg_authorities message)) else None)\<rparr>"

definition response_from_message ::
  "('n, 'd, 'e, 's) message_lib \<Rightarrow> ('n, 'd, 'e) message \<Rightarrow> ('n, 'd, 'e) canonical_query \<Rightarrow> 16 word \<Rightarrow>
     canonical_message_error + ('n, 'd, 'e) canonical_response" where
  "response_from_message lib message expected_query expected_id =
     and_then (validate_common lib message MessageResponse) (\<lambda>_.
       if md_id (msg_metadata message) \<noteq> expected_id
       then Inl (MessageIdMismatch expected_id (md_id (msg_metadata message)))
       else
         let actual_question = question_from_query lib (msg_queries message ! 0) in
         if actual_question \<noteq> query_question expected_query then Inl QuestionMismatch
         else
           let message = message\<lparr>msg_metadata := (msg_metadata message)\<lparr>md_id := 0\<rparr>,
                 msg_queries := (msg_queries message)[0 := question_to_query actual_question]\<rparr>;
               c = classify_response message
           in Inr \<lparr>resp_message = message, resp_class = c, resp_ttl = extract_ttl_metadata message c\<rparr>)"

definition response_with_code ::
  "('n, 'd, 'e, 's) message_lib \<Rightarrow> ('n, 'd, 'e) canonical_query \<Rightarrow> response_code \<Rightarrow> 'd dns_record list \<Rightarrow>
     canonical_message_error + ('n, 'd, 'e) canonical_response" where
  "response_with_code lib query rcode answers =
     (let message = lib_new lib 0 MessageResponse OpQuery;
          md = msg_metadata (query_message query);
          message = message\<lparr>msg_metadata := (msg_metadata message)
            \<lparr>md_recursion_desired := md_recursion_desired md, md_checking_disabled := md_checking_disabled md,
             md_response_code := rcode\<rparr>,
            msg_queries := msg_queries message @ [question_to_query (query_question query)],
            msg_answers := msg_answers message @ answers\<rparr>
      in response_from_message lib message query 0)"

definition response_with_answers ::
  "('n, 'd, 'e, 's) message_lib \<Rightarrow> ('n, 'd, 'e) canonical_query \<Rightarrow> 'd dns_record list \<Rightarrow>
     canonical_message_error + ('n, 'd, 'e) canonical_response" where
  "response_with_answers lib query answers = response_with_code lib query RcNoError answers"

definition empty_response ::
  "('n, 'd, 'e, 's) message_lib \<Rightarrow> ('n, 'd, 'e) canonical_query \<Rightarrow> response_code \<Rightarrow>
     canonical_message_error + ('n, 'd, 'e) canonical_response" where
  "empty_response lib query rcode = response_with_code lib query rcode []"

text \<open>\<open>u32::try_from(d.as_secs()).unwrap_or(u32::MAX)\<close>.\<close>

definition secs_u32 :: "duration \<Rightarrow> 32 word" where
  "secs_u32 d = (let s = d div 1000000000 in if s \<le> u32_max then of_nat s else of_nat u32_max)"

definition ttl_bound_seconds :: "duration option \<Rightarrow> 32 word option" where
  "ttl_bound_seconds value = (case value of None \<Rightarrow> None | Some d \<Rightarrow> if d = 0 then None else Some (secs_u32 d))"

text \<open>The loop over the three sections with an update of every TTL, and the refresh after it.\<close>

definition update_ttls :: "(32 word \<Rightarrow> 32 word) \<Rightarrow> ('n, 'd, 'e) canonical_response \<Rightarrow> ('n, 'd, 'e) canonical_response" where
  "update_ttls f response =
     (let upd = map (\<lambda>r. r\<lparr>rr_ttl := f (rr_ttl r)\<rparr>);
          m = resp_message response;
          m = m\<lparr>msg_answers := upd (msg_answers m), msg_authorities := upd (msg_authorities m),
                msg_additionals := upd (msg_additionals m)\<rparr>
      in response\<lparr>resp_message := m, resp_ttl := extract_ttl_metadata m (resp_class response)\<rparr>)"

definition clamp_value :: "32 word option \<Rightarrow> 32 word option \<Rightarrow> 32 word \<Rightarrow> 32 word" where
  "clamp_value lower upper ttl =
     (let ttl = (case lower of Some m \<Rightarrow> max ttl m | None \<Rightarrow> ttl)
      in case upper of Some m \<Rightarrow> min ttl m | None \<Rightarrow> ttl)"

definition clamp_ttl ::
  "duration option \<Rightarrow> duration option \<Rightarrow> ('n, 'd, 'e) canonical_response \<Rightarrow> ('n, 'd, 'e) canonical_response" where
  "clamp_ttl lower upper response = update_ttls (clamp_value (ttl_bound_seconds lower) (ttl_bound_seconds upper)) response"

definition saturating_sub_u32 :: "32 word \<Rightarrow> 32 word \<Rightarrow> 32 word" where
  "saturating_sub_u32 a b = (if b \<le> a then a - b else 0)"

definition age_ttl :: "duration \<Rightarrow> ('n, 'd, 'e) canonical_response \<Rightarrow> ('n, 'd, 'e) canonical_response" where
  "age_ttl elapsed response = update_ttls (\<lambda>ttl. saturating_sub_u32 ttl (secs_u32 elapsed)) response"

definition set_ttl :: "duration \<Rightarrow> ('n, 'd, 'e) canonical_response \<Rightarrow> ('n, 'd, 'e) canonical_response" where
  "set_ttl ttl response = update_ttls (\<lambda>_. secs_u32 ttl) response"

definition is_negative :: "('n, 'd, 'e) canonical_response \<Rightarrow> bool" where
  "is_negative response \<longleftrightarrow> negative_class (resp_class response)"

definition cap_negative_ttl :: "duration \<Rightarrow> ('n, 'd, 'e) canonical_response \<Rightarrow> ('n, 'd, 'e) canonical_response" where
  "cap_negative_ttl upper response =
     (if \<not> is_negative response then response else update_ttls (\<lambda>ttl. min ttl (secs_u32 upper)) response)"

definition matches_query ::
  "('n, 'd, 'e, 's) message_lib \<Rightarrow> ('n, 'd, 'e) canonical_response \<Rightarrow> ('n, 'd, 'e) canonical_query \<Rightarrow> bool" where
  "matches_query lib response query \<longleftrightarrow>
     question_from_query lib (msg_queries (resp_message response) ! 0) = query_question query"

section \<open>Canonical messages are fixed points\<close>

lemma question_roundtrip:
  assumes "message_lib_ok lib"
  shows "question_from_query lib (question_to_query (question_from_query lib query)) = question_from_query lib query"
  using assms by (simp add: question_from_query_def question_to_query_def message_lib_ok_def)

lemma validate_common_Inr:
  "validate_common lib message t = Inr () \<longleftrightarrow>
     md_message_type (msg_metadata message) = t \<and> md_op_code (msg_metadata message) = OpQuery \<and>
     length (msg_queries message) = 1 \<and> (\<forall>edns. msg_edns message = Some edns \<longrightarrow> lib_edns_version lib edns = 0)"
  by (auto simp: validate_common_def Let_def split: option.splits if_splits)

text \<open>The form of a canonical query: header with ID zero and three flags, one canonical question, EDNS of
  version zero, no records.\<close>

definition plain_metadata :: "16 word \<Rightarrow> message_type \<Rightarrow> op_code \<Rightarrow> message_metadata" where
  "plain_metadata i t p = \<lparr>md_id = i, md_message_type = t, md_op_code = p, md_authoritative = False,
     md_truncation = False, md_recursion_desired = False, md_recursion_available = False,
     md_authentic_data = False, md_checking_disabled = False, md_response_code = RcNoError\<rparr>"

definition canonical_message ::
  "bool \<Rightarrow> bool \<Rightarrow> bool \<Rightarrow> 'n canonical_question \<Rightarrow> 'e option \<Rightarrow> ('n, 'd, 'e) message" where
  "canonical_message rd ad cd question edns =
     \<lparr>msg_metadata = (plain_metadata 0 MessageQuery OpQuery)
        \<lparr>md_recursion_desired := rd, md_authentic_data := ad, md_checking_disabled := cd\<rparr>,
      msg_queries = [question_to_query question], msg_answers = [], msg_authorities = [], msg_additionals = [],
      msg_edns = edns\<rparr>"

definition canonical_query_ok :: "('n, 'd, 'e, 's) message_lib \<Rightarrow> ('n, 'd, 'e) canonical_query \<Rightarrow> bool" where
  "canonical_query_ok lib q \<longleftrightarrow>
     (\<exists>rd ad cd. query_message q = canonical_message rd ad cd (query_question q) (msg_edns (query_message q))) \<and>
     question_from_query lib (question_to_query (query_question q)) = query_question q \<and>
     (\<forall>edns. msg_edns (query_message q) = Some edns \<longrightarrow> lib_edns_version lib edns = 0)"

lemma canonical_message_sel [simp]:
  "msg_edns (canonical_message rd ad cd question edns) = edns"
  "(canonical_message rd ad cd question edns)\<lparr>msg_edns := edns'\<rparr> = canonical_message rd ad cd question edns'"
  by (simp_all add: canonical_message_def)

lemma lib_new_eq:
  assumes "message_lib_ok lib"
  shows "lib_new lib i t p = \<lparr>msg_metadata = plain_metadata i t p, msg_queries = [], msg_answers = [],
    msg_authorities = [], msg_additionals = [], msg_edns = None\<rparr>"
  using assms by (simp add: message_lib_ok_def plain_metadata_def)

lemma query_from_message_eq:
  assumes "message_lib_ok lib"
  shows "query_from_message lib m = and_then (validate_common lib m MessageQuery) (\<lambda>_.
    Inr \<lparr>query_message = canonical_message (md_recursion_desired (msg_metadata m)) (md_authentic_data (msg_metadata m))
           (md_checking_disabled (msg_metadata m)) (question_from_query lib (msg_queries m ! 0)) (msg_edns m),
         query_question = question_from_query lib (msg_queries m ! 0)\<rparr>)"
  unfolding query_from_message_def lib_new_eq [OF assms] canonical_message_def Let_def
  by (cases "msg_edns m") simp_all

lemma query_from_message_ok:
  assumes "message_lib_ok lib" "query_from_message lib m = Inr q"
  shows "canonical_query_ok lib q"
proof -
  let ?question = "question_from_query lib (msg_queries m ! 0)"
  have v: "validate_common lib m MessageQuery = Inr ()"
    and q: "query_message q = canonical_message (md_recursion_desired (msg_metadata m)) (md_authentic_data (msg_metadata m))
      (md_checking_disabled (msg_metadata m)) ?question (msg_edns m)" "query_question q = ?question"
    using assms(2) by (auto simp: query_from_message_eq [OF assms(1)])
  have "\<exists>rd ad cd. query_message q = canonical_message rd ad cd (query_question q) (msg_edns (query_message q))"
    unfolding q canonical_message_sel by blast
  moreover have "question_from_query lib (question_to_query (query_question q)) = query_question q"
    unfolding q by (rule question_roundtrip [OF assms(1)])
  moreover have "\<forall>edns. msg_edns (query_message q) = Some edns \<longrightarrow> lib_edns_version lib edns = 0"
    using v unfolding q canonical_message_sel validate_common_Inr by blast
  ultimately show ?thesis unfolding canonical_query_ok_def by blast
qed

lemma canonical_query_reparse:
  assumes "message_lib_ok lib" "canonical_query_ok lib q"
  shows "query_from_message lib (message_with_id q i) = Inr q"
proof -
  from assms(2) obtain rd ad cd where m: "query_message q = canonical_message rd ad cd (query_question q) (msg_edns (query_message q))"
    and question: "question_from_query lib (question_to_query (query_question q)) = query_question q"
    and edns: "\<forall>edns. msg_edns (query_message q) = Some edns \<longrightarrow> lib_edns_version lib edns = 0"
    by (auto simp: canonical_query_ok_def)
  define e where "e = msg_edns (query_message q)"
  define qu where "qu = query_question q"
  have "query_message q = canonical_message rd ad cd qu e" unfolding e_def qu_def by (fact m)
  then have q: "q = \<lparr>query_message = canonical_message rd ad cd qu e, query_question = qu\<rparr>"
    unfolding qu_def by (cases q) simp
  have msg: "message_with_id q i = (let c = canonical_message rd ad cd qu e in c\<lparr>msg_metadata := (msg_metadata c)\<lparr>md_id := i\<rparr>\<rparr>)"
    by (simp add: message_with_id_def q Let_def)
  have "validate_common lib (message_with_id q i) MessageQuery = Inr ()"
    using edns unfolding msg by (simp add: validate_common_Inr canonical_message_def plain_metadata_def e_def Let_def)
  moreover have "question_from_query lib (question_to_query qu) = qu" unfolding qu_def by (fact question)
  ultimately show ?thesis
    unfolding query_from_message_eq [OF assms(1)] msg
    by (simp add: canonical_message_def plain_metadata_def q Let_def)
qed

lemma with_edns_client_subnet_ok:
  assumes "message_lib_ok lib" "canonical_query_ok lib q"
  shows "canonical_query_ok lib (with_edns_client_subnet lib q subnet)"
    and "query_edns_client_subnet lib (with_edns_client_subnet lib q subnet) = subnet"
    and "query_question (with_edns_client_subnet lib q subnet) = query_question q"
proof -
  from assms(2) obtain rd ad cd where m: "query_message q = canonical_message rd ad cd (query_question q) (msg_edns (query_message q))"
    by (auto simp: canonical_query_ok_def)
  have lib: "lib_edns_version lib (lib_edns_new lib) = 0" "lib_edns_subnet lib (lib_edns_new lib) = None"
    "\<And>e. lib_edns_subnet lib (lib_edns_remove_subnet lib e) = None"
    "\<And>e. lib_edns_version lib (lib_edns_remove_subnet lib e) = lib_edns_version lib e"
    "\<And>s e. lib_edns_subnet lib e = None \<Longrightarrow> lib_edns_subnet lib (lib_edns_insert_subnet lib s e) = Some s"
    "\<And>s e. lib_edns_version lib (lib_edns_insert_subnet lib s e) = lib_edns_version lib e"
    using assms(1) by (simp_all add: message_lib_ok_def)
  show "query_question (with_edns_client_subnet lib q subnet) = query_question q"
    by (simp add: with_edns_client_subnet_def Let_def)
  show "query_edns_client_subnet lib (with_edns_client_subnet lib q subnet) = subnet"
    by (cases "msg_edns (query_message q)"; cases subnet)
      (simp_all add: query_edns_client_subnet_def with_edns_client_subnet_def Let_def lib)
  have edns: "lib_edns_version lib e = 0" if "msg_edns (query_message q) = Some e" for e
    using that assms(2) by (simp add: canonical_query_ok_def)
  have "\<exists>e. query_message (with_edns_client_subnet lib q subnet) = (query_message q)\<lparr>msg_edns := e\<rparr> \<and>
      (\<forall>x. e = Some x \<longrightarrow> lib_edns_version lib x = 0)"
    using edns by (auto simp: with_edns_client_subnet_def Let_def lib split: option.splits)
  then obtain e where "query_message (with_edns_client_subnet lib q subnet) = (query_message q)\<lparr>msg_edns := e\<rparr>"
    and version: "\<forall>x. e = Some x \<longrightarrow> lib_edns_version lib x = 0" by blast
  then have e: "query_message (with_edns_client_subnet lib q subnet) = canonical_message rd ad cd (query_question q) e"
    by (metis m canonical_message_sel(2))
  have question: "question_from_query lib (question_to_query (query_question q)) = query_question q"
    using assms(2) unfolding canonical_query_ok_def by blast
  have same: "query_question (with_edns_client_subnet lib q subnet) = query_question q"
    by (simp add: with_edns_client_subnet_def Let_def)
  show "canonical_query_ok lib (with_edns_client_subnet lib q subnet)"
    unfolding canonical_query_ok_def same e canonical_message_sel using question version by blast
qed

section \<open>The response invariant\<close>

definition response_ok :: "('n, 'd, 'e, 's) message_lib \<Rightarrow> ('n, 'd, 'e) canonical_response \<Rightarrow> bool" where
  "response_ok lib r \<longleftrightarrow>
     md_id (msg_metadata (resp_message r)) = 0 \<and>
     md_message_type (msg_metadata (resp_message r)) = MessageResponse \<and>
     md_op_code (msg_metadata (resp_message r)) = OpQuery \<and>
     (\<exists>question. msg_queries (resp_message r) = [question_to_query question] \<and>
        question_from_query lib (question_to_query question) = question) \<and>
     (\<forall>edns. msg_edns (resp_message r) = Some edns \<longrightarrow> lib_edns_version lib edns = 0) \<and>
     resp_class r = classify_response (resp_message r) \<and>
     resp_ttl r = extract_ttl_metadata (resp_message r) (resp_class r)"

lemma response_from_message_ok:
  assumes "message_lib_ok lib" "response_from_message lib m q i = Inr r"
  shows "response_ok lib r" and "matches_query lib r q"
proof -
  let ?question = "question_from_query lib (msg_queries m ! 0)"
  have v: "validate_common lib m MessageResponse = Inr ()" and q: "?question = query_question q"
    and r: "r = (let m = m\<lparr>msg_metadata := (msg_metadata m)\<lparr>md_id := 0\<rparr>,
        msg_queries := (msg_queries m)[0 := question_to_query ?question]\<rparr>; c = classify_response m
      in \<lparr>resp_message = m, resp_class = c, resp_ttl = extract_ttl_metadata m c\<rparr>)"
    using assms(2) by (auto simp: response_from_message_def Let_def split: if_splits)
  from v have one: "length (msg_queries m) = 1" by (simp add: validate_common_Inr)
  then have queries: "(msg_queries m)[0 := question_to_query ?question] = [question_to_query ?question]"
    by (cases "msg_queries m") simp_all
  show "response_ok lib r"
    using v question_roundtrip [OF assms(1)]
    by (auto simp: r Let_def response_ok_def queries validate_common_Inr)
  show "matches_query lib r q"
    using question_roundtrip [OF assms(1)] by (simp add: matches_query_def r Let_def queries q [symmetric])
qed

lemma update_ttls_sel [simp]:
  "msg_metadata (resp_message (update_ttls f r)) = msg_metadata (resp_message r)"
  "msg_queries (resp_message (update_ttls f r)) = msg_queries (resp_message r)"
  "msg_edns (resp_message (update_ttls f r)) = msg_edns (resp_message r)"
  "resp_class (update_ttls f r) = resp_class r"
  by (simp_all add: update_ttls_def Let_def)

lemma update_ttls_records:
  "all_records (resp_message (update_ttls f r)) = map (\<lambda>x. x\<lparr>rr_ttl := f (rr_ttl x)\<rparr>) (all_records (resp_message r))"
  by (simp add: update_ttls_def Let_def all_records_def)

lemma update_ttls_ok: "response_ok lib r \<Longrightarrow> response_ok lib (update_ttls f r)"
  by (auto simp: response_ok_def classify_response_def)
    (simp_all add: update_ttls_def Let_def)

lemma ttl_operations_update:
  "clamp_ttl lower upper r = update_ttls (clamp_value (ttl_bound_seconds lower) (ttl_bound_seconds upper)) r"
  "age_ttl elapsed r = update_ttls (\<lambda>ttl. saturating_sub_u32 ttl (secs_u32 elapsed)) r"
  "set_ttl d r = update_ttls (\<lambda>_. secs_u32 d) r"
  "cap_negative_ttl d r = (if is_negative r then update_ttls (\<lambda>ttl. min ttl (secs_u32 d)) r else r)"
  by (simp_all add: clamp_ttl_def age_ttl_def set_ttl_def cap_negative_ttl_def)

section \<open>The minimal TTL\<close>

lemma iter_min_map:
  assumes "mono f"
  shows "iter_min (map f xs) = map_option f (iter_min xs)"
proof (cases xs)
  case (Cons x rest)
  have "fold min (map f ys) (f y) = f (fold min ys y)" for ys y
  proof (induction ys arbitrary: y)
    case (Cons z ys)
    have "min (f z) (f y) = f (min z y)" using assms by (simp add: min_of_mono)
    then show ?case using Cons.IH [of "min z y"] by simp
  qed simp
  with Cons show ?thesis by (simp add: iter_min_def)
qed (simp add: iter_min_def)

lemma update_ttls_min:
  assumes "mono f" "response_ok lib r"
  shows "tm_min_ttl (resp_ttl (update_ttls f r)) = map_option f (tm_min_ttl (resp_ttl r))"
proof -
  have "tm_min_ttl (resp_ttl (update_ttls f r)) = iter_min (map rr_ttl (all_records (resp_message (update_ttls f r))))"
    using update_ttls_ok [OF assms(2), of f] by (simp add: response_ok_def extract_ttl_metadata_def)
  also have "\<dots> = iter_min (map f (map rr_ttl (all_records (resp_message r))))"
    by (simp add: update_ttls_records comp_def)
  also have "\<dots> = map_option f (tm_min_ttl (resp_ttl r))"
    using assms(2) by (simp only: iter_min_map [OF assms(1)]) (simp add: response_ok_def extract_ttl_metadata_def)
  finally show ?thesis .
qed

lemma ttl_updates_mono:
  "mono (clamp_value lower upper)" "mono (\<lambda>ttl. saturating_sub_u32 ttl s)" "mono (\<lambda>ttl :: 32 word. min ttl s)"
proof -
  show "mono (clamp_value lower upper)"
    by (intro monoI) (auto simp: clamp_value_def Let_def max_def min_def split: option.splits)
  show "mono (\<lambda>ttl. saturating_sub_u32 ttl s)"
    by (intro monoI) (auto simp: saturating_sub_u32_def word_le_nat_alt unat_sub)
  show "mono (\<lambda>ttl :: 32 word. min ttl s)" by (intro monoI) (auto simp: min_def)
qed

section \<open>A concrete library\<close>

text \<open>Names are their text, an EDNS block is its client subnet (a number), the wire form is left out.\<close>

definition text_message_lib :: "(string, unit, nat option, nat) message_lib" where
  "text_message_lib = \<lparr>lib_new = (\<lambda>i t p. \<lparr>msg_metadata = plain_metadata i t p, msg_queries = [], msg_answers = [],
       msg_authorities = [], msg_additionals = [], msg_edns = None\<rparr>),
     lib_to_vec = (\<lambda>_. Some []), lib_from_vec = (\<lambda>_. None), lib_to_lowercase = to_ascii_lowercase,
     lib_set_fqdn = (\<lambda>n _. n), lib_edns_version = (\<lambda>_. 0), lib_edns_new = None, lib_edns_subnet = (\<lambda>e. e),
     lib_edns_remove_subnet = (\<lambda>_. None), lib_edns_insert_subnet = (\<lambda>s _. Some s)\<rparr>"

lemma text_message_lib_ok: "message_lib_ok text_message_lib"
  by (simp add: message_lib_ok_def text_message_lib_def plain_metadata_def to_ascii_lowercase_idem)

definition sample_question :: "string \<Rightarrow> string dns_query" where
  "sample_question name = \<lparr>q_name = name, q_type = 1, q_class = 1\<rparr>"

definition sample_message :: "message_type \<Rightarrow> string \<Rightarrow> 32 word list \<Rightarrow> (string, unit, nat option) message" where
  "sample_message t name ttls = \<lparr>msg_metadata = plain_metadata 7 t OpQuery, msg_queries = [sample_question name],
     msg_answers = map (\<lambda>ttl. \<lparr>rr_ttl = ttl, rr_soa_minimum = None, rr_rest = ()\<rparr>) ttls,
     msg_authorities = [], msg_additionals = [], msg_edns = None\<rparr>"

definition sample_query :: "(string, unit, nat option) canonical_query" where
  "sample_query = \<lparr>query_message = canonical_message False False False
       \<lparr>cq_name = ''a.b'', cq_query_type = 1, cq_query_class = 1\<rparr> None,
     query_question = \<lparr>cq_name = ''a.b'', cq_query_type = 1, cq_query_class = 1\<rparr>\<rparr>"

lemma sample_query_parsed: "query_from_message text_message_lib (sample_message MessageQuery ''A.b'' []) = Inr sample_query"
  by code_simp

definition sample_response :: "(string, unit, nat option) canonical_response" where
  "sample_response = \<lparr>resp_message = (sample_message MessageResponse ''a.b'' [30, 20])\<lparr>msg_metadata := plain_metadata 0 MessageResponse OpQuery\<rparr>,
     resp_class = ClassPositive, resp_ttl = \<lparr>tm_min_ttl = Some 20, tm_negative_ttl = None\<rparr>\<rparr>"

lemma sample_response_parsed:
  "response_from_message text_message_lib (sample_message MessageResponse ''a.B'' [30, 20]) sample_query 7 = Inr sample_response"
  by code_simp

section \<open>Properties\<close>

text \<open>
  A canonical query is independent of the message ID and is its own canonical form: parsing
  it again under any ID gives the same query. Replacing its client subnet keeps the question and this
  form, and the subnet read back is the one that was set.
\<close>

lemma canonical_query_fixed_point:
  assumes "message_lib_ok lib" "query_from_message lib m = Inr q"
  shows "query_from_message lib (m\<lparr>msg_metadata := (msg_metadata m)\<lparr>md_id := i\<rparr>\<rparr>) = Inr q \<and>
    query_from_message lib (message_with_id q i) = Inr q \<and>
    (let q' = with_edns_client_subnet lib q subnet in
       query_from_message lib (message_with_id q' i) = Inr q' \<and>
       query_edns_client_subnet lib q' = subnet \<and> query_question q' = query_question q)"
proof -
  have ok: "canonical_query_ok lib q" by (rule query_from_message_ok [OF assms])
  have "validate_common lib (m\<lparr>msg_metadata := (msg_metadata m)\<lparr>md_id := i\<rparr>\<rparr>) MessageQuery = validate_common lib m MessageQuery"
    by (simp add: validate_common_def Let_def)
  then have "query_from_message lib (m\<lparr>msg_metadata := (msg_metadata m)\<lparr>md_id := i\<rparr>\<rparr>) = Inr q"
    using assms(2) by (simp add: query_from_message_eq [OF assms(1)])
  with canonical_query_reparse [OF assms(1) ok] with_edns_client_subnet_ok [OF assms(1) ok]
    canonical_query_reparse [OF assms(1) with_edns_client_subnet_ok(1) [OF assms(1) ok]]
  show ?thesis by (simp add: Let_def)
qed

lemma canonical_query_fixed_point_witness:
  "query_from_message text_message_lib (message_with_id sample_query 9) = Inr sample_query \<and>
   query_edns_client_subnet text_message_lib (with_edns_client_subnet text_message_lib sample_query (Some 24)) = Some 24"
  using canonical_query_fixed_point [OF text_message_lib_ok sample_query_parsed, of 9 "Some 24"] by (simp add: Let_def)

text \<open>
  Every response built from a message is canonical, answers the expected question, and keeps
  its class and TTL data in step with its message under all four TTL operations.
\<close>

lemma response_invariant:
  assumes "message_lib_ok lib" "response_from_message lib m q i = Inr r"
  shows "response_ok lib r \<and> matches_query lib r q \<and> response_ok lib (clamp_ttl lower upper r) \<and>
    response_ok lib (age_ttl d r) \<and> response_ok lib (set_ttl d r) \<and> response_ok lib (cap_negative_ttl d r)"
  using response_from_message_ok [OF assms] by (simp add: ttl_operations_update update_ttls_ok)

lemma response_invariant_witness:
  "\<exists>r. response_from_message text_message_lib (sample_message MessageResponse ''a.B'' [30, 20]) sample_query 7 = Inr r \<and>
     response_ok text_message_lib (age_ttl 5000000000 r)"
  using response_invariant [OF text_message_lib_ok sample_response_parsed, of None None 5000000000] sample_response_parsed by blast

text \<open>
  The refreshed minimal TTL is the old one under the same operation: raised and lowered to the
  bounds, aged by the elapsed seconds but not below zero, or capped, the cap touching negative responses
  only.
\<close>

lemma ttl_operations_minimum:
  assumes "response_ok lib r"
  shows "tm_min_ttl (resp_ttl (clamp_ttl lower upper r)) =
      map_option (clamp_value (ttl_bound_seconds lower) (ttl_bound_seconds upper)) (tm_min_ttl (resp_ttl r)) \<and>
    tm_min_ttl (resp_ttl (age_ttl d r)) =
      map_option (\<lambda>ttl. of_nat (unat ttl - unat (secs_u32 d))) (tm_min_ttl (resp_ttl r)) \<and>
    tm_min_ttl (resp_ttl (cap_negative_ttl d r)) =
      (if is_negative r then map_option (\<lambda>ttl. min ttl (secs_u32 d)) (tm_min_ttl (resp_ttl r))
       else tm_min_ttl (resp_ttl r))"
proof -
  have sub: "saturating_sub_u32 a b = of_nat (unat a - unat b)" for a b
    by (auto simp: saturating_sub_u32_def word_le_nat_alt not_le of_nat_diff)
  show ?thesis
    using update_ttls_min [OF ttl_updates_mono(1) assms] update_ttls_min [OF ttl_updates_mono(2) assms]
      update_ttls_min [OF ttl_updates_mono(3) assms]
    by (simp add: ttl_operations_update sub)
qed

lemma ttl_operations_minimum_witness:
  "tm_min_ttl (resp_ttl (age_ttl 25000000000 sample_response)) = Some 0 \<and>
   tm_min_ttl (resp_ttl (clamp_ttl (Some 60000000000) None sample_response)) = Some 60"
proof -
  have "response_ok text_message_lib sample_response"
    by (rule response_from_message_ok(1) [OF text_message_lib_ok sample_response_parsed])
  note ttl = ttl_operations_minimum [OF this, of "Some 60000000000" None 25000000000]
  have "tm_min_ttl (resp_ttl sample_response) = Some 20" "secs_u32 25000000000 = 25"
    "clamp_value (ttl_bound_seconds (Some 60000000000)) (ttl_bound_seconds None) 20 = 60" by code_simp+
  with ttl show ?thesis by simp
qed

end
