(* ===== verification/Cache_Types.thy ===== *)
theory Cache_Types
  imports Cache_Namespace Dns_Message
begin

text \<open>
  The values of the cache port (\<open>backend/src/ports/cache.rs\<close>): keys, entries, records, conditions,
  outcomes, invalidation scopes and statistics, with the retention deadline and the invalidation test;
  and the port errors and deadlines (\<open>backend/src/ports/mod.rs\<close>, \<open>backend/src/dns/context.rs\<close>) that
  the stores use. An \<open>Instant\<close> is its number of nanoseconds, with the range of the Unix time type
  (64-bit seconds); a clock reading is an argument of the operation that makes it.
\<close>

section \<open>Instants and deadlines\<close>

type_synonym instant = int

definition instant_max :: instant where
  "instant_max = (2 ^ 63 - 1) * 1000000000 + 999999999"

definition instant_min :: instant where
  "instant_min = - (2 ^ 63) * 1000000000"

definition instant_checked_add :: "instant \<Rightarrow> duration \<Rightarrow> instant option" where
  "instant_checked_add at d = (if at + int d \<le> instant_max then Some (at + int d) else None)"

definition instant_checked_sub :: "instant \<Rightarrow> duration \<Rightarrow> instant option" where
  "instant_checked_sub at d = (if instant_min \<le> at - int d then Some (at - int d) else None)"

definition saturating_duration_since :: "instant \<Rightarrow> instant \<Rightarrow> duration" where
  "saturating_duration_since at earlier = nat (at - earlier)"

type_synonym deadline = instant

definition is_expired :: "deadline \<Rightarrow> instant \<Rightarrow> bool" where
  "is_expired deadline now \<longleftrightarrow> deadline \<le> now"

section \<open>Errors of a port\<close>

datatype cancel_reason = ClientDisconnected | DeadlineExceeded | CancelShutdown | GroupPolicy | UpstreamCancelled

datatype port_error_class =
    InvalidInput | PortTimeout | PortCancelled cancel_reason | PortUnavailable | PermissionDenied
  | ResourceExhausted | ProtocolViolation | CorruptData | PortInternal

record port_error =
  pe_class :: port_error_class
  pe_operation :: string
  pe_safe_context :: "string option"

abbreviation port_error_new :: "port_error_class \<Rightarrow> string \<Rightarrow> port_error" where
  "port_error_new c operation \<equiv> \<lparr>pe_class = c, pe_operation = operation, pe_safe_context = None\<rparr>"

definition with_safe_context :: "string \<Rightarrow> port_error \<Rightarrow> port_error" where
  "with_safe_context info err = err\<lparr>pe_safe_context := Some info\<rparr>"

section \<open>Entries\<close>

definition CACHE_ENTRY_FORMAT_VERSION :: "16 word" where
  "CACHE_ENTRY_FORMAT_VERSION = 2"

definition EXPIRED_ENTRY_RETENTION :: duration where
  "EXPIRED_ENTRY_RETENTION = 60 * 1000000000"

record cache_key =
  ck_namespace :: cache_namespace
  ck_encoded :: "byte list"
  ck_format_version :: "16 word"

datatype cache_quality = QualityFailure | QualityNegative | QualityComplete

fun quality_rank :: "cache_quality \<Rightarrow> nat" where
  "quality_rank QualityFailure = 0"
| "quality_rank QualityNegative = 1"
| "quality_rank QualityComplete = 2"

instantiation cache_quality :: linorder
begin

definition less_eq_cache_quality :: "cache_quality \<Rightarrow> cache_quality \<Rightarrow> bool" where
  "less_eq_cache_quality a b \<longleftrightarrow> quality_rank a \<le> quality_rank b"

definition less_cache_quality :: "cache_quality \<Rightarrow> cache_quality \<Rightarrow> bool" where
  "less_cache_quality a b \<longleftrightarrow> quality_rank a < quality_rank b"

instance
proof
  fix a b c :: cache_quality
  show "a < b \<longleftrightarrow> a \<le> b \<and> \<not> b \<le> a" "a \<le> a" "a \<le> b \<or> b \<le> a"
    by (auto simp: less_eq_cache_quality_def less_cache_quality_def)
  show "a \<le> b \<Longrightarrow> b \<le> c \<Longrightarrow> a \<le> c" by (simp add: less_eq_cache_quality_def)
  show "a \<le> b \<Longrightarrow> b \<le> a \<Longrightarrow> a = b" by (cases a; cases b) (simp_all add: less_eq_cache_quality_def)
qed

end

datatype cache_response_class = CacheNoError | CacheNoData | CacheNxDomain | CacheServFail | CacheTruncated

record ('n, 'd, 'e) cache_entry =
  ce_response :: "('n, 'd, 'e) canonical_response"
  ce_upstream :: cache_upstream_provenance
  ce_inserted_at :: instant
  ce_expires_at :: instant
  ce_stale_until :: "instant option"
  ce_response_class :: cache_response_class
  ce_producer_revision :: "64 word"
  ce_quality :: cache_quality
  ce_checksum :: "64 word"
  ce_format_version :: "16 word"

record ('n, 'd, 'e) cache_record =
  cr_version :: "64 word"
  cr_entry :: "('n, 'd, 'e) cache_entry"

datatype cache_condition = ConditionAbsent | ConditionVersion "64 word"

datatype cache_write_outcome = Inserted "64 word" | Replaced "64 word" | Conflict "64 word option" | RejectedQuality

datatype cache_invalidation_predicate = ProducerRevision cache_namespace "64 word"

datatype cache_invalidation =
    InvalidateExact cache_key
  | InvalidateNamespace cache_namespace
  | InvalidatePredicate cache_invalidation_predicate
  | InvalidateAll

record cache_store_stats =
  cs_entries :: nat
  cs_weighted_size :: nat
  cs_hits :: nat
  cs_misses :: nat
  cs_conflicts :: nat
  cs_evictions :: nat

datatype cache_load_failure =
    LoadAbandoned | LoadTimeout | LoadCancelled cancel_reason | LoadUnavailable | LoadResourceExhausted | LoadInternal

datatype ('n, 'd, 'e) cache_load_completion =
    LoadReady "('n, 'd, 'e) cache_record"
  | LoadMiss
  | LoadFailed cache_load_failure

definition retention_deadline :: "('n, 'd, 'e) cache_entry \<Rightarrow> instant" where
  "retention_deadline entry =
     (let answerable_until =
        (case ce_stale_until entry of None \<Rightarrow> ce_expires_at entry | Some stale_until \<Rightarrow> max (ce_expires_at entry) stale_until)
      in case instant_checked_add answerable_until EXPIRED_ENTRY_RETENTION of
           Some at \<Rightarrow> at
         | None \<Rightarrow> answerable_until)"

fun predicate_matches :: "cache_invalidation_predicate \<Rightarrow> cache_key \<Rightarrow> ('n, 'd, 'e) cache_entry \<Rightarrow> bool" where
  "predicate_matches (ProducerRevision namespace revision) key entry \<longleftrightarrow>
     namespace = ck_namespace key \<and> ce_producer_revision entry = revision"

fun invalidation_matches :: "cache_invalidation \<Rightarrow> cache_key \<Rightarrow> ('n, 'd, 'e) cache_entry \<Rightarrow> bool" where
  "invalidation_matches (InvalidateExact expected) key entry \<longleftrightarrow> expected = key"
| "invalidation_matches (InvalidateNamespace namespace) key entry \<longleftrightarrow> namespace = ck_namespace key"
| "invalidation_matches (InvalidatePredicate predicate) key entry \<longleftrightarrow> predicate_matches predicate key entry"
| "invalidation_matches InvalidateAll key entry \<longleftrightarrow> True"

text \<open>An entry stays visible at least as long as it can be answered.\<close>

lemma retention_covers:
  "ce_expires_at entry \<le> retention_deadline entry"
  "ce_stale_until entry = Some u \<Longrightarrow> u \<le> retention_deadline entry"
  by (auto simp: retention_deadline_def Let_def instant_checked_add_def split: option.splits if_splits)

end
