(* ===== verification/Cache_Memory.thy ===== *)
theory Cache_Memory
  imports Cache_Types "HOL-Library.AList"
begin

text \<open>
  The in-memory cache store (\<open>backend/src/cache/memory.rs\<close>) and the tokens of its single-flight loads
  (\<open>backend/src/ports/cache.rs\<close>). A hash map is an association list with distinct keys; the two atomic
  counters are 64-bit words; the mutex is the flag that says whether it is poisoned; a waker is a
  number, equal when \<open>will_wake\<close> holds. Every operation takes the readings of the clock it makes, in the
  order it makes them, and returns its result with the new store.
\<close>

section \<open>State\<close>

record ('n, 'd, 'e) memory_load =
  ml_generation :: "64 word"
  ml_completion :: "('n, 'd, 'e) cache_load_completion option"
  ml_followers :: nat
  ml_waiters :: "nat list"

record ('n, 'd, 'e) memory_state =
  ms_records :: "(cache_key \<times> ('n, 'd, 'e) cache_record) list"
  ms_loads :: "(cache_key \<times> ('n, 'd, 'e) memory_load) list"
  ms_stats :: cache_store_stats
  ms_shutting_down :: bool

record ('n, 'd, 'e) memory_store =
  st_poisoned :: bool
  st_state :: "('n, 'd, 'e) memory_state"
  st_next_version :: "64 word"
  st_next_generation :: "64 word"
  st_max_weight :: "nat option"

datatype memory_build_error = ZeroMaxWeight

definition stats_default :: cache_store_stats where
  "stats_default = \<lparr>cs_entries = 0, cs_weighted_size = 0, cs_hits = 0, cs_misses = 0, cs_conflicts = 0, cs_evictions = 0\<rparr>"

definition with_limit :: "nat option \<Rightarrow> ('n, 'd, 'e) memory_store" where
  "with_limit max_weight =
     \<lparr>st_poisoned = False,
      st_state = \<lparr>ms_records = [], ms_loads = [], ms_stats = stats_default, ms_shutting_down = False\<rparr>,
      st_next_version = 0, st_next_generation = 0, st_max_weight = max_weight\<rparr>"

definition with_max_weight :: "nat \<Rightarrow> memory_build_error + ('n, 'd, 'e) memory_store" where
  "with_max_weight max_weight = (if max_weight = 0 then Inl ZeroMaxWeight else Inr (with_limit (Some max_weight)))"

definition lock :: "string \<Rightarrow> ('n, 'd, 'e) memory_store \<Rightarrow> port_error + ('n, 'd, 'e) memory_state" where
  "lock operation store =
     (if st_poisoned store then Inl (port_error_new PortInternal operation) else Inr (st_state store))"

abbreviation timeout :: "string \<Rightarrow> port_error" where
  "timeout operation \<equiv> port_error_new PortTimeout operation"

abbreviation unavailable :: "string \<Rightarrow> port_error" where
  "unavailable operation \<equiv> port_error_new PortUnavailable operation"

section \<open>Weight and capacity\<close>

definition weighted_size ::
  "('n, 'd, 'e, 's) message_lib \<Rightarrow> cache_key \<Rightarrow> ('n, 'd, 'e) cache_record \<Rightarrow> nat" where
  "weighted_size lib key rec =
     (let response_size =
        (case lib_to_vec lib (resp_message (ce_response (cr_entry rec))) of Some bytes \<Rightarrow> length bytes | None \<Rightarrow> 0)
      in saturating_add (saturating_add (length (ck_encoded key)) 64) response_size)"

definition total_weight ::
  "('n, 'd, 'e, 's) message_lib \<Rightarrow> (cache_key \<times> ('n, 'd, 'e) cache_record) list \<Rightarrow> nat" where
  "total_weight lib records = foldl saturating_add 0 (map (\<lambda>(key, rec). weighted_size lib key rec) records)"

definition refresh_stats ::
  "('n, 'd, 'e, 's) message_lib \<Rightarrow> ('n, 'd, 'e) memory_state \<Rightarrow> ('n, 'd, 'e) memory_state" where
  "refresh_stats lib state =
     state\<lparr>ms_stats := (ms_stats state)
       \<lparr>cs_entries := length (ms_records state), cs_weighted_size := total_weight lib (ms_records state)\<rparr>\<rparr>"

text \<open>The order of byte slices.\<close>

fun bytes_less :: "byte list \<Rightarrow> byte list \<Rightarrow> bool" where
  "bytes_less _ [] \<longleftrightarrow> False"
| "bytes_less [] (_ # _) \<longleftrightarrow> True"
| "bytes_less (a # as) (b # bs) \<longleftrightarrow> a < b \<or> a = b \<and> bytes_less as bs"

text \<open>The comparison of the eviction order, and \<open>Iterator::min_by\<close> (the first minimal element).\<close>

definition older :: "cache_key \<times> ('n, 'd, 'e) cache_record \<Rightarrow> cache_key \<times> ('n, 'd, 'e) cache_record \<Rightarrow> bool" where
  "older left right \<longleftrightarrow>
     (let li = ce_inserted_at (cr_entry (snd left)); ri = ce_inserted_at (cr_entry (snd right));
          lv = cr_version (snd left); rv = cr_version (snd right)
      in li < ri \<or> li = ri \<and> (lv < rv \<or> lv = rv \<and>
           bytes_less (ck_encoded (fst left)) (ck_encoded (fst right))))"

fun min_by :: "('a \<Rightarrow> 'a \<Rightarrow> bool) \<Rightarrow> 'a list \<Rightarrow> 'a option" where
  "min_by lt [] = None"
| "min_by lt (x # xs) = Some (foldl (\<lambda>best y. if lt y best then y else best) x xs)"

lemma min_by_mem: "min_by lt xs = Some m \<Longrightarrow> m \<in> set xs"
proof -
  have "foldl (\<lambda>best y. if lt y best then y else best) x ys \<in> insert x (set ys)" for x ys
    by (induction ys arbitrary: x) fastforce+
  then show "min_by lt xs = Some m \<Longrightarrow> m \<in> set xs" by (cases xs) auto
qed

function enforce_loop ::
  "('n, 'd, 'e, 's) message_lib \<Rightarrow> nat \<Rightarrow> (cache_key \<times> ('n, 'd, 'e) cache_record) list \<Rightarrow> nat \<Rightarrow>
     (cache_key \<times> ('n, 'd, 'e) cache_record) list \<times> nat" where
  "enforce_loop lib max_weight records evictions =
     (if total_weight lib records \<le> max_weight then (records, evictions)
      else case min_by older records of
          Some victim \<Rightarrow> enforce_loop lib max_weight (AList.delete (fst victim) records) (saturating_add evictions 1)
        | None \<Rightarrow> (records, evictions))"
  by pat_completeness auto

lemma length_delete_less: "k \<in> fst ` set al \<Longrightarrow> length (AList.delete k al) < length al"
  by (induction al) (auto simp: AList.delete_eq length_filter_le le_imp_less_Suc)

termination enforce_loop
  by (relation "measure (\<lambda>(_, _, records, _). length records)")
    (auto dest!: min_by_mem intro!: length_delete_less intro: rev_image_eqI)

declare enforce_loop.simps [simp del]

definition enforce_capacity ::
  "('n, 'd, 'e, 's) message_lib \<Rightarrow> nat option \<Rightarrow> ('n, 'd, 'e) memory_state \<Rightarrow> ('n, 'd, 'e) memory_state" where
  "enforce_capacity lib max_weight state =
     (case max_weight of
        None \<Rightarrow> refresh_stats lib state
      | Some limit \<Rightarrow>
          let (records, evictions) = enforce_loop lib limit (ms_records state) (cs_evictions (ms_stats state))
          in refresh_stats lib (state\<lparr>ms_records := records, ms_stats := (ms_stats state)\<lparr>cs_evictions := evictions\<rparr>\<rparr>))"

definition is_visible :: "('n, 'd, 'e) cache_record \<Rightarrow> instant \<Rightarrow> bool" where
  "is_visible rec now \<longleftrightarrow> now < retention_deadline (cr_entry rec)"

definition is_answerable :: "('n, 'd, 'e) cache_record \<Rightarrow> instant \<Rightarrow> bool" where
  "is_answerable rec now \<longleftrightarrow>
     now < ce_expires_at (cr_entry rec) \<or>
     (case ce_stale_until (cr_entry rec) of Some stale_until \<Rightarrow> now < stale_until | None \<Rightarrow> False)"

definition is_fresh :: "('n, 'd, 'e) cache_record \<Rightarrow> instant \<Rightarrow> bool" where
  "is_fresh rec now \<longleftrightarrow> now < ce_expires_at (cr_entry rec)"

section \<open>Records\<close>

definition memory_get ::
  "('n, 'd, 'e, 's) message_lib \<Rightarrow> cache_key \<Rightarrow> deadline \<Rightarrow> instant \<Rightarrow> instant \<Rightarrow> ('n, 'd, 'e) memory_store \<Rightarrow>
     (port_error + ('n, 'd, 'e) cache_record option) \<times> ('n, 'd, 'e) memory_store" where
  "memory_get lib key deadline at now store =
     (if is_expired deadline at then (Inl (timeout ''memory_cache.get''), store)
      else case lock ''memory_cache.get'' store of
          Inl err \<Rightarrow> (Inl err, store)
        | Inr state \<Rightarrow>
            if ms_shutting_down state then (Inl (unavailable ''memory_cache.get''), store)
            else
              let stats = ms_stats state;
                  missed = stats\<lparr>cs_misses := saturating_add (cs_misses stats) 1\<rparr>
              in case map_of (ms_records state) key of
                  Some rec \<Rightarrow>
                    if is_visible rec now then
                      (let stats = (if is_answerable rec now
                             then stats\<lparr>cs_hits := saturating_add (cs_hits stats) 1\<rparr> else missed)
                       in (Inr (Some rec), store\<lparr>st_state := state\<lparr>ms_stats := stats\<rparr>\<rparr>))
                    else
                      (Inr None, store\<lparr>st_state := refresh_stats lib
                         (state\<lparr>ms_records := AList.delete key (ms_records state), ms_stats := missed\<rparr>)\<rparr>)
                | None \<Rightarrow> (Inr None, store\<lparr>st_state := state\<lparr>ms_stats := missed\<rparr>\<rparr>))"

fun condition_matches :: "cache_condition \<Rightarrow> 64 word option \<Rightarrow> bool" where
  "condition_matches ConditionAbsent current \<longleftrightarrow> current = None"
| "condition_matches (ConditionVersion expected) current \<longleftrightarrow> current = Some expected"

definition drop_invisible ::
  "('n, 'd, 'e, 's) message_lib \<Rightarrow> cache_key \<Rightarrow> instant \<Rightarrow> ('n, 'd, 'e) memory_state \<Rightarrow> ('n, 'd, 'e) memory_state" where
  "drop_invisible lib key now state =
     (case map_of (ms_records state) key of
        Some rec \<Rightarrow>
          if \<not> is_visible rec now
          then refresh_stats lib (state\<lparr>ms_records := AList.delete key (ms_records state)\<rparr>) else state
      | None \<Rightarrow> state)"

definition memory_compare_and_swap ::
  "('n, 'd, 'e, 's) message_lib \<Rightarrow> cache_key \<Rightarrow> cache_condition \<Rightarrow> ('n, 'd, 'e) cache_entry \<Rightarrow> deadline \<Rightarrow>
     instant \<Rightarrow> instant \<Rightarrow> ('n, 'd, 'e) memory_store \<Rightarrow>
     (port_error + cache_write_outcome) \<times> ('n, 'd, 'e) memory_store" where
  "memory_compare_and_swap lib key condition entry deadline at now store =
     (if is_expired deadline at then (Inl (timeout ''memory_cache.compare_and_swap''), store)
      else case lock ''memory_cache.compare_and_swap'' store of
          Inl err \<Rightarrow> (Inl err, store)
        | Inr state \<Rightarrow>
            if ms_shutting_down state then (Inl (unavailable ''memory_cache.compare_and_swap''), store)
            else
              let state = drop_invisible lib key now state;
                  found = map_of (ms_records state) key;
                  current = map_option cr_version found
              in
              if \<not> condition_matches condition current then
                (Inr (Conflict current),
                 store\<lparr>st_state := state\<lparr>ms_stats := (ms_stats state)
                   \<lparr>cs_conflicts := saturating_add (cs_conflicts (ms_stats state)) 1\<rparr>\<rparr>\<rparr>)
              else if (case found of
                  Some rec \<Rightarrow> ce_quality entry < ce_quality (cr_entry rec) \<and> is_fresh rec now
                | None \<Rightarrow> False)
              then (Inr RejectedQuality, store\<lparr>st_state := state\<rparr>)
              else if (case st_max_weight store of
                  Some limit \<Rightarrow> limit < weighted_size lib key \<lparr>cr_version = 0, cr_entry = entry\<rparr>
                | None \<Rightarrow> False)
              then (Inl (port_error_new ResourceExhausted ''memory_cache.compare_and_swap''), store\<lparr>st_state := state\<rparr>)
              else
                let version = st_next_version store + 1;
                    outcome = (if current \<noteq> None then Replaced version else Inserted version);
                    state = state\<lparr>ms_records :=
                      AList.update key \<lparr>cr_version = version, cr_entry = entry\<rparr> (ms_records state)\<rparr>;
                    state = enforce_capacity lib (st_max_weight store) state
                in (Inr outcome, store\<lparr>st_next_version := version, st_state := state\<rparr>))"

definition memory_invalidate ::
  "('n, 'd, 'e, 's) message_lib \<Rightarrow> cache_invalidation \<Rightarrow> deadline \<Rightarrow> instant \<Rightarrow> ('n, 'd, 'e) memory_store \<Rightarrow>
     (port_error + nat) \<times> ('n, 'd, 'e) memory_store" where
  "memory_invalidate lib scope deadline at store =
     (if is_expired deadline at then (Inl (timeout ''memory_cache.invalidate''), store)
      else case lock ''memory_cache.invalidate'' store of
          Inl err \<Rightarrow> (Inl err, store)
        | Inr state \<Rightarrow>
            if ms_shutting_down state then (Inl (unavailable ''memory_cache.invalidate''), store)
            else
              let before = length (ms_records state);
                  state = state\<lparr>ms_records :=
                    filter (\<lambda>(key, rec). \<not> invalidation_matches scope key (cr_entry rec)) (ms_records state)\<rparr>;
                  removed = before - length (ms_records state)
              in (Inr removed, store\<lparr>st_state := refresh_stats lib state\<rparr>))"

definition memory_stats :: "('n, 'd, 'e) memory_store \<Rightarrow> cache_store_stats" where
  "memory_stats store = ms_stats (st_state store)"

definition memory_len :: "('n, 'd, 'e) memory_store \<Rightarrow> nat" where
  "memory_len store = length (ms_records (st_state store))"

section \<open>Single-flight loads\<close>

text \<open>A lease or a waiter is its key and generation; whether its guard is armed is kept with the token.\<close>

record load_token =
  tok_key :: cache_key
  tok_generation :: "64 word"

datatype cache_load_reservation = Leader load_token | Follower load_token

datatype 'a poll = Ready 'a | Pending

definition complete_load ::
  "cache_key \<Rightarrow> 64 word \<Rightarrow> ('n, 'd, 'e) cache_load_completion \<Rightarrow> ('n, 'd, 'e) memory_store \<Rightarrow>
     (port_error + nat list) \<times> ('n, 'd, 'e) memory_store" where
  "complete_load key generation completion store =
     (case lock ''memory_cache.complete_load'' store of
        Inl err \<Rightarrow> (Inl err, store)
      | Inr state \<Rightarrow>
          (case map_of (ms_loads state) key of
             None \<Rightarrow> (Inl (port_error_new ProtocolViolation ''memory_cache.complete_load''), store)
           | Some load \<Rightarrow>
               if ml_generation load \<noteq> generation \<or> ml_completion load \<noteq> None
               then (Inl (port_error_new ProtocolViolation ''memory_cache.complete_load''), store)
               else
                 let waiters = ml_waiters load;
                     loads = AList.update key (load\<lparr>ml_completion := Some completion, ml_waiters := []\<rparr>) (ms_loads state);
                     loads = (if ml_followers load = 0 then AList.delete key loads else loads)
                 in (Inr waiters, store\<lparr>st_state := state\<lparr>ms_loads := loads\<rparr>\<rparr>)))"

definition release_waiter :: "cache_key \<Rightarrow> 64 word \<Rightarrow> ('n, 'd, 'e) memory_store \<Rightarrow> ('n, 'd, 'e) memory_store" where
  "release_waiter key generation store =
     (if st_poisoned store then store
      else
        let state = st_state store in
        case map_of (ms_loads state) key of
          None \<Rightarrow> store
        | Some load \<Rightarrow>
            if ml_generation load \<noteq> generation \<or> ml_followers load = 0 then store
            else
              let load = load\<lparr>ml_followers := ml_followers load - 1\<rparr>;
                  loads = AList.update key load (ms_loads state);
                  loads = (if ml_completion load \<noteq> None \<and> ml_followers load = 0 then AList.delete key loads else loads)
              in store\<lparr>st_state := state\<lparr>ms_loads := loads\<rparr>\<rparr>)"

definition poll_load ::
  "load_token \<Rightarrow> deadline \<Rightarrow> nat \<Rightarrow> instant \<Rightarrow> ('n, 'd, 'e) memory_store \<Rightarrow>
     (port_error + ('n, 'd, 'e) cache_load_completion) poll \<times> ('n, 'd, 'e) memory_store" where
  "poll_load waiter deadline waker at store =
     (case lock ''memory_cache.wait_load'' store of
        Inl err \<Rightarrow> (Ready (Inl err), store)
      | Inr state \<Rightarrow>
          (case map_of (ms_loads state) (tok_key waiter) of
             None \<Rightarrow> (Ready (Inl (port_error_new ProtocolViolation ''memory_cache.wait_load'')), store)
           | Some load \<Rightarrow>
               if ml_generation load \<noteq> tok_generation waiter
               then (Ready (Inl (port_error_new ProtocolViolation ''memory_cache.wait_load'')), store)
               else case ml_completion load of
                   Some completion \<Rightarrow> (Ready (Inr completion), store)
                 | None \<Rightarrow>
                     if is_expired deadline at then (Ready (Inl (timeout ''memory_cache.wait_load'')), store)
                     else
                       let load = (if waker \<in> set (ml_waiters load) then load
                             else load\<lparr>ml_waiters := ml_waiters load @ [waker]\<rparr>)
                       in (Pending, store\<lparr>st_state := state\<lparr>ms_loads :=
                             AList.update (tok_key waiter) load (ms_loads state)\<rparr>\<rparr>)))"

definition memory_reserve_load ::
  "cache_key \<Rightarrow> deadline \<Rightarrow> instant \<Rightarrow> ('n, 'd, 'e) memory_store \<Rightarrow>
     (port_error + cache_load_reservation) \<times> ('n, 'd, 'e) memory_store" where
  "memory_reserve_load key deadline at store =
     (if is_expired deadline at then (Inl (timeout ''memory_cache.reserve_load''), store)
      else case lock ''memory_cache.reserve_load'' store of
          Inl err \<Rightarrow> (Inl err, store)
        | Inr state \<Rightarrow>
            if ms_shutting_down state then (Inl (unavailable ''memory_cache.reserve_load''), store)
            else case map_of (ms_loads state) key of
                Some load \<Rightarrow>
                  (Inr (Follower \<lparr>tok_key = key, tok_generation = ml_generation load\<rparr>),
                   store\<lparr>st_state := state\<lparr>ms_loads := AList.update key
                     (load\<lparr>ml_followers := saturating_add (ml_followers load) 1\<rparr>) (ms_loads state)\<rparr>\<rparr>)
              | None \<Rightarrow>
                  let generation = st_next_generation store + 1;
                      load = \<lparr>ml_generation = generation, ml_completion = None, ml_followers = 0, ml_waiters = []\<rparr>
                  in (Inr (Leader \<lparr>tok_key = key, tok_generation = generation\<rparr>),
                      store\<lparr>st_next_generation := generation,
                        st_state := state\<lparr>ms_loads := AList.update key load (ms_loads state)\<rparr>\<rparr>))"

text \<open>\<open>publish_load\<close> and \<open>abandon_load\<close>: on success the guard of the lease is disarmed and the wakers of
  the followers are woken; the drop of an armed lease does the same and ignores a failure.\<close>

definition memory_publish_load ::
  "load_token \<Rightarrow> ('n, 'd, 'e) cache_load_completion \<Rightarrow> ('n, 'd, 'e) memory_store \<Rightarrow>
     (port_error + nat list) \<times> ('n, 'd, 'e) memory_store" where
  "memory_publish_load lease completion store = complete_load (tok_key lease) (tok_generation lease) completion store"

definition memory_abandon_load ::
  "load_token \<Rightarrow> cache_load_failure \<Rightarrow> ('n, 'd, 'e) memory_store \<Rightarrow>
     (port_error + nat list) \<times> ('n, 'd, 'e) memory_store" where
  "memory_abandon_load lease failure store =
     complete_load (tok_key lease) (tok_generation lease) (LoadFailed failure) store"

definition drop_lease :: "load_token \<Rightarrow> ('n, 'd, 'e) memory_store \<Rightarrow> nat list \<times> ('n, 'd, 'e) memory_store" where
  "drop_lease lease store =
     (case complete_load (tok_key lease) (tok_generation lease) (LoadFailed LoadAbandoned) store of
        (Inr waiters, store') \<Rightarrow> (waiters, store')
      | (Inl _, store') \<Rightarrow> ([], store'))"

definition drop_waiter :: "load_token \<Rightarrow> ('n, 'd, 'e) memory_store \<Rightarrow> ('n, 'd, 'e) memory_store" where
  "drop_waiter waiter store = release_waiter (tok_key waiter) (tok_generation waiter) store"

definition shutdown_load :: "('n, 'd, 'e) memory_load \<Rightarrow> ('n, 'd, 'e) memory_load" where
  "shutdown_load load =
     (let load = (if ml_completion load = None
        then load\<lparr>ml_completion := Some (LoadFailed (LoadCancelled CancelShutdown))\<rparr> else load)
      in load\<lparr>ml_waiters := []\<rparr>)"

definition memory_shutdown ::
  "('n, 'd, 'e, 's) message_lib \<Rightarrow> ('n, 'd, 'e) memory_store \<Rightarrow> (port_error + nat list) \<times> ('n, 'd, 'e) memory_store" where
  "memory_shutdown lib store =
     (case lock ''memory_cache.shutdown'' store of
        Inl err \<Rightarrow> (Inl err, store)
      | Inr state \<Rightarrow>
          let state = refresh_stats lib (state\<lparr>ms_shutting_down := True, ms_records := []\<rparr>);
              waiters = concat (map (\<lambda>(_, load). ml_waiters load) (ms_loads state));
              loads = map (\<lambda>(key, load). (key, shutdown_load load)) (ms_loads state);
              loads = filter (\<lambda>(_, load). 0 < ml_followers load) loads
          in (Inr waiters, store\<lparr>st_state := state\<lparr>ms_loads := loads\<rparr>\<rparr>))"

end
