(* ===== verification/Cache_Memory_Laws.thy ===== *)
theory Cache_Memory_Laws
  imports Cache_Memory
begin

text \<open>
  What the in-memory store does with its records: the eviction loop meets the weight limit and drops the
  oldest records first; every operation keeps the store well formed; and the store implements an
  abstract versioned map (\<open>spec_step\<close>) whose only freedom is what the weight limit evicts.
\<close>

section \<open>Weights\<close>

lemma foldl_saturating_add: "a \<le> u64_max \<Longrightarrow> foldl saturating_add a xs = min (a + sum_list xs) u64_max"
proof (induction xs arbitrary: a)
  case (Cons x xs)
  then show ?case using Cons.IH [of "saturating_add a x"] by (auto simp: saturating_add_def)
qed simp

lemma total_weight_eq:
  "total_weight lib records = min (\<Sum>(key, rec)\<leftarrow>records. weighted_size lib key rec) u64_max"
  by (simp add: total_weight_def foldl_saturating_add)

lemma weighted_size_le: "weighted_size lib key rec \<le> u64_max"
  by (simp add: weighted_size_def saturating_add_def Let_def)

lemma weighted_size_entry: "weighted_size lib key \<lparr>cr_version = v, cr_entry = e\<rparr> = weighted_size lib key \<lparr>cr_version = 0, cr_entry = e\<rparr>"
  by (simp add: weighted_size_def)

lemma total_weight_single: "total_weight lib [(key, rec)] = weighted_size lib key rec"
  using weighted_size_le [of lib key rec] by (simp add: total_weight_eq)

section \<open>The eviction order\<close>

lemma bytes_less_trans: "bytes_less a b \<Longrightarrow> bytes_less b c \<Longrightarrow> bytes_less a c"
proof (induction a b arbitrary: c rule: bytes_less.induct)
  case (3 x xs y ys)
  then show ?case by (cases c) auto
next
  case (2 y ys)
  then show ?case by (cases c) auto
qed simp

lemma bytes_less_irrefl: "\<not> bytes_less a a"
  by (induction a) simp_all

lemma bytes_less_total: "bytes_less a b \<or> a = b \<or> bytes_less b a"
proof (induction a b rule: bytes_less.induct)
  case (1 a)
  then show ?case by (cases a) auto
qed auto

lemma bytes_less_asym: "bytes_less a b \<Longrightarrow> \<not> bytes_less b a"
  using bytes_less_trans bytes_less_irrefl by blast

lemma older_trans: "older a b \<Longrightarrow> older b c \<Longrightarrow> older a c"
  unfolding older_def Let_def using bytes_less_trans by (smt (verit) order.strict_trans)

lemma older_asym: "older a b \<Longrightarrow> \<not> older b a"
  unfolding older_def Let_def using bytes_less_asym by (smt (verit) order.asym)

lemma older_irrefl: "\<not> older a a"
  using older_asym by blast

lemma not_older_trans: "\<not> older a b \<Longrightarrow> \<not> older b c \<Longrightarrow> \<not> older a c"
  unfolding older_def Let_def using bytes_less_total bytes_less_trans
  by (smt (verit) linorder_less_linear order.strict_trans)

lemma min_by_least:
  assumes "min_by older xs = Some m" "x \<in> set xs"
  shows "\<not> older x m"
proof -
  have "\<not> older y (foldl (\<lambda>best y. if older y best then y else best) b ys)" if "y \<in> insert b (set ys)" for y b ys
    using that
  proof (induction ys arbitrary: b y)
    case (Cons z ys)
    let ?b = "if older z b then z else b"
    have "\<not> older ?b (foldl (\<lambda>best y. if older y best then y else best) ?b ys)" by (rule Cons.IH) simp
    moreover have "\<not> older b ?b" "\<not> older z ?b" 
      using older_asym [of z b] older_irrefl [of b] older_irrefl [of z] by auto
    moreover have "y = b \<or> y = z \<or> y \<in> set ys" using Cons.prems by auto
    ultimately have "\<not> older y (foldl (\<lambda>best y. if older y best then y else best) ?b ys)"
      using Cons.IH [of y ?b] not_older_trans by blast
    then show ?case by simp
  qed (simp add: older_irrefl)
  with assms show ?thesis by (cases xs) (simp_all, blast)
qed

section \<open>The eviction loop\<close>

lemma min_by_None: "min_by lt xs = None \<longleftrightarrow> xs = []"
  by (cases xs) auto

lemma set_delete: "distinct (map fst al) \<Longrightarrow> (k, v) \<in> set al \<Longrightarrow> set (AList.delete k al) = set al - {(k, v)}"
  by (auto simp: AList.delete_eq dest: map_of_eq_Some_iff [THEN iffD2] eq_key_imp_eq_value)

lemma distinct_delete_keys: "distinct (map fst al) \<Longrightarrow> distinct (map fst (AList.delete k al))"
  by (simp add: AList.delete_eq distinct_map_filter)

lemma distinct_update_keys: "distinct (map fst al) \<Longrightarrow> distinct (map fst (AList.update k v al))"
  by (simp add: distinct_update)

lemma enforce_loop_bound: "total_weight lib (fst (enforce_loop lib limit records n)) \<le> limit"
proof (induction lib limit records n rule: enforce_loop.induct)
  case (1 lib limit records n)
  show ?case
  proof (cases "total_weight lib records \<le> limit")
    case False
    then obtain victim where "min_by older records = Some victim"
      by (cases records) (auto simp: total_weight_eq)
    with 1 False show ?thesis by (subst enforce_loop.simps) simp
  qed (subst enforce_loop.simps, simp)
qed

lemma enforce_loop_oldest_first:
  assumes "distinct (map fst records)"
  shows "distinct (map fst (fst (enforce_loop lib limit records n))) \<and>
    set (fst (enforce_loop lib limit records n)) \<subseteq> set records \<and>
    (\<forall>x \<in> set (fst (enforce_loop lib limit records n)). \<forall>y \<in> set records - set (fst (enforce_loop lib limit records n)).
       \<not> older x y)"
  using assms
proof (induction lib limit records n rule: enforce_loop.induct)
  case (1 lib limit records n)
  show ?case
  proof (cases "total_weight lib records \<le> limit \<or> records = []")
    case True
    then have "enforce_loop lib limit records n = (records, n)" by (subst enforce_loop.simps) auto
    with "1.prems" show ?thesis by simp
  next
    case False
    then obtain victim where victim: "min_by older records = Some victim" by (cases records) auto
    let ?rest = "AList.delete (fst victim) records"
    have mem: "victim \<in> set records" by (rule min_by_mem [OF victim])
    then have rest: "set ?rest = set records - {victim}" "distinct (map fst ?rest)"
      using set_delete [OF "1.prems", of "fst victim" "snd victim"] distinct_delete_keys [OF "1.prems"] by auto
    have step: "enforce_loop lib limit records n = enforce_loop lib limit ?rest (saturating_add n 1)"
      using False victim by (subst enforce_loop.simps) simp
    have IH: "distinct (map fst (fst (enforce_loop lib limit ?rest (saturating_add n 1)))) \<and>
      set (fst (enforce_loop lib limit ?rest (saturating_add n 1))) \<subseteq> set ?rest \<and>
      (\<forall>x \<in> set (fst (enforce_loop lib limit ?rest (saturating_add n 1))).
         \<forall>y \<in> set ?rest - set (fst (enforce_loop lib limit ?rest (saturating_add n 1))). \<not> older x y)"
      using "1.IH" [OF _ victim rest(2)] False by simp
    then show ?thesis unfolding step using rest(1) min_by_least [OF victim] by blast
  qed
qed

lemmas enforce_loop_keys = enforce_loop_oldest_first [THEN conjunct1]
lemmas enforce_loop_subset = enforce_loop_oldest_first [THEN conjunct2, THEN conjunct1]

text \<open>The newest record stays when it fits alone.\<close>

lemma enforce_loop_newest:
  assumes "distinct (map fst records)" "(key, rec) \<in> set records" "weighted_size lib key rec \<le> limit"
    and "\<And>x. x \<in> set records \<Longrightarrow> x \<noteq> (key, rec) \<Longrightarrow> older x (key, rec)"
  shows "(key, rec) \<in> set (fst (enforce_loop lib limit records n))"
  using assms
proof (induction lib limit records n rule: enforce_loop.induct)
  case (1 lib limit records n)
  show ?case
  proof (cases "total_weight lib records \<le> limit")
    case True
    with "1.prems" show ?thesis by (subst enforce_loop.simps) simp
  next
    case False
    obtain victim where victim: "min_by older records = Some victim" using "1.prems"(2) by (cases records) auto
    note mem = min_by_mem [OF victim]
    have "victim \<noteq> (key, rec)"
    proof
      assume v: "victim = (key, rec)"
      have "set records = {(key, rec)}"
        using min_by_least [OF victim] "1.prems"(2,4) unfolding v by blast
      moreover have "distinct records" using "1.prems"(1) by (simp add: distinct_map)
      ultimately have "records = [(key, rec)]"
        by (cases records) (auto simp: subset_singleton_iff)
      with False "1.prems"(3) show False by (simp add: total_weight_single)
    qed
    let ?rest = "AList.delete (fst victim) records"
    have rest: "set ?rest = set records - {victim}" "distinct (map fst ?rest)"
      using set_delete [OF "1.prems"(1), of "fst victim" "snd victim"] distinct_delete_keys [OF "1.prems"(1)] mem by auto
    have step: "enforce_loop lib limit records n = enforce_loop lib limit ?rest (saturating_add n 1)"
      using False victim by (subst enforce_loop.simps) simp
    show ?thesis
      unfolding step using "1.IH" [OF False victim rest(2)] "1.prems"(2-4) rest(1) \<open>victim \<noteq> (key, rec)\<close> by auto
  qed
qed

section \<open>The store invariant\<close>

definition state_ok :: "('n, 'd, 'e, 's) message_lib \<Rightarrow> nat option \<Rightarrow> ('n, 'd, 'e) memory_state \<Rightarrow> bool" where
  "state_ok lib limit state \<longleftrightarrow>
     distinct (map fst (ms_records state)) \<and> distinct (map fst (ms_loads state)) \<and>
     cs_entries (ms_stats state) = length (ms_records state) \<and>
     cs_weighted_size (ms_stats state) = total_weight lib (ms_records state) \<and>
     (\<forall>w. limit = Some w \<longrightarrow> total_weight lib (ms_records state) \<le> w) \<and>
     (ms_shutting_down state \<longrightarrow> ms_records state = [])"

definition store_ok :: "('n, 'd, 'e, 's) message_lib \<Rightarrow> ('n, 'd, 'e) memory_store \<Rightarrow> bool" where
  "store_ok lib store \<longleftrightarrow> state_ok lib (st_max_weight store) (st_state store)"

lemma sum_list_filter_le: "(\<Sum>x\<leftarrow>filter P xs. f x) \<le> (\<Sum>x\<leftarrow>xs. f x :: nat)"
  by (induction xs) auto

lemma total_weight_filter: "total_weight lib (filter P records) \<le> total_weight lib records"
  unfolding total_weight_eq using sum_list_filter_le [where f = "\<lambda>(k, r). weighted_size lib k r"]
  by (intro min.mono) auto

lemma refresh_stats_sel [simp]:
  "ms_records (refresh_stats lib state) = ms_records state"
  "ms_loads (refresh_stats lib state) = ms_loads state"
  "ms_shutting_down (refresh_stats lib state) = ms_shutting_down state"
  "cs_entries (ms_stats (refresh_stats lib state)) = length (ms_records state)"
  "cs_weighted_size (ms_stats (refresh_stats lib state)) = total_weight lib (ms_records state)"
  by (simp_all add: refresh_stats_def)

lemma enforce_capacity_sel [simp]:
  "ms_loads (enforce_capacity lib limit state) = ms_loads state"
  "ms_shutting_down (enforce_capacity lib limit state) = ms_shutting_down state"
  by (simp_all add: enforce_capacity_def split: option.splits prod.splits)

lemma enforce_capacity_records:
  "ms_records (enforce_capacity lib limit state) =
    (case limit of
       None \<Rightarrow> ms_records state
     | Some w \<Rightarrow> fst (enforce_loop lib w (ms_records state) (cs_evictions (ms_stats state))))"
  by (simp add: enforce_capacity_def split: option.splits prod.splits)

lemma enforce_capacity_ok:
  assumes "distinct (map fst (ms_records state))" "distinct (map fst (ms_loads state))" "\<not> ms_shutting_down state"
  shows "state_ok lib limit (enforce_capacity lib limit state)"
proof (cases limit)
  case None
  with assms show ?thesis by (simp add: state_ok_def enforce_capacity_def)
next
  case (Some w)
  obtain records n where loop: "enforce_loop lib w (ms_records state) (cs_evictions (ms_stats state)) = (records, n)"
    by fastforce
  have "total_weight lib records \<le> w" "distinct (map fst records)"
    using enforce_loop_bound [of lib w "ms_records state" "cs_evictions (ms_stats state)"]
      enforce_loop_keys [OF assms(1), of lib w "cs_evictions (ms_stats state)"] by (simp_all add: loop)
  with assms show ?thesis by (simp add: state_ok_def enforce_capacity_def Some loop)
qed

lemma state_ok_filter:
  "state_ok lib limit state \<Longrightarrow> state_ok lib limit (refresh_stats lib (state\<lparr>ms_records := filter P (ms_records state), ms_stats := st\<rparr>))"
  "state_ok lib limit state \<Longrightarrow> state_ok lib limit (refresh_stats lib (state\<lparr>ms_records := filter P (ms_records state)\<rparr>))"
  using total_weight_filter [of lib P "ms_records state"]
  by (auto simp: state_ok_def distinct_map_filter intro: order_trans split: option.splits)

lemma state_ok_loads:
  "state_ok lib limit state \<Longrightarrow> distinct (map fst loads) \<Longrightarrow> state_ok lib limit (state\<lparr>ms_loads := loads\<rparr>)"
  by (simp add: state_ok_def)

lemma drop_invisible_ok: "state_ok lib limit state \<Longrightarrow> state_ok lib limit (drop_invisible lib key now state)"
  using state_ok_filter(2) by (auto simp: drop_invisible_def AList.delete_eq split: option.splits)

lemma drop_invisible_sel [simp]:
  "ms_loads (drop_invisible lib key now state) = ms_loads state"
  "ms_shutting_down (drop_invisible lib key now state) = ms_shutting_down state"
  by (simp_all add: drop_invisible_def split: option.splits)

lemma memory_get_ok: "store_ok lib store \<Longrightarrow> store_ok lib (snd (memory_get lib key deadline at now store))"
  by (auto simp: memory_get_def store_ok_def lock_def AList.delete_eq Let_def split: option.splits sum.splits)
    (auto simp: state_ok_def distinct_map_filter intro: order_trans [OF total_weight_filter])

lemma memory_compare_and_swap_ok:
  assumes "store_ok lib store"
  shows "store_ok lib (snd (memory_compare_and_swap lib key condition entry deadline at now store))"
proof -
  let ?s = "drop_invisible lib key now (st_state store)"
  have ok: "state_ok lib (st_max_weight store) ?s" using assms drop_invisible_ok by (simp add: store_ok_def)
  then have "state_ok lib (st_max_weight store) (?s\<lparr>ms_stats := (ms_stats ?s)\<lparr>cs_conflicts := c\<rparr>\<rparr>)" for c
    by (simp add: state_ok_def)
  moreover have "state_ok lib (st_max_weight store) (enforce_capacity lib (st_max_weight store)
      (?s\<lparr>ms_records := AList.update key rec (ms_records ?s)\<rparr>))" if "\<not> ms_shutting_down (st_state store)" for rec
    using ok that by (intro enforce_capacity_ok) (simp_all add: state_ok_def distinct_update)
  ultimately show ?thesis
    using assms ok by (simp add: memory_compare_and_swap_def store_ok_def lock_def Let_def)
qed

lemma memory_invalidate_ok: "store_ok lib store \<Longrightarrow> store_ok lib (snd (memory_invalidate lib scope deadline at store))"
  using state_ok_filter(2) by (auto simp: memory_invalidate_def store_ok_def lock_def Let_def split: sum.splits)

lemma complete_load_ok: "store_ok lib store \<Longrightarrow> store_ok lib (snd (complete_load key g c store))"
  by (auto simp: complete_load_def store_ok_def lock_def Let_def distinct_update_keys distinct_delete_keys
      intro!: state_ok_loads split: option.splits sum.splits)
    (simp_all add: state_ok_def distinct_update_keys distinct_delete_keys)

lemma memory_loads_ok:
  assumes "store_ok lib store"
  shows "store_ok lib (release_waiter key g store)"
    and "store_ok lib (snd (poll_load waiter deadline waker at store))"
    and "store_ok lib (snd (memory_reserve_load key deadline at store))"
  using assms
  by (auto simp: release_waiter_def poll_load_def memory_reserve_load_def store_ok_def lock_def Let_def
      distinct_update_keys distinct_delete_keys intro!: state_ok_loads split: option.splits sum.splits)
    (simp_all add: state_ok_def distinct_update_keys distinct_delete_keys)

lemma memory_shutdown_ok: "store_ok lib store \<Longrightarrow> store_ok lib (snd (memory_shutdown lib store))"
  by (auto simp: memory_shutdown_def store_ok_def lock_def Let_def state_ok_def total_weight_def distinct_map_filter
      comp_def case_prod_beta split: option.splits sum.splits)

section \<open>The abstract store\<close>

text \<open>What the cache port promises of records: a map with versions, seen through the retention of its
  entries. A write may evict other records only when the store is bounded.\<close>

record ('n, 'd, 'e) spec_store =
  ss_map :: "cache_key \<rightharpoonup> ('n, 'd, 'e) cache_record"
  ss_version :: "64 word"
  ss_closed :: bool

datatype ('n, 'd, 'e) store_event =
    EvGet cache_key "('n, 'd, 'e) cache_record option"
  | EvCas cache_key cache_condition "('n, 'd, 'e) cache_entry" cache_write_outcome
  | EvInvalidate cache_invalidation nat
  | EvShutdown

definition view :: "instant \<Rightarrow> (cache_key \<rightharpoonup> ('n, 'd, 'e) cache_record) \<Rightarrow> (cache_key \<rightharpoonup> ('n, 'd, 'e) cache_record)" where
  "view now m = (\<lambda>k. Option.bind (m k) (\<lambda>r. if is_visible r now then Some r else None))"

definition better :: "instant \<Rightarrow> ('n, 'd, 'e) cache_record option \<Rightarrow> ('n, 'd, 'e) cache_entry \<Rightarrow> bool" where
  "better now current entry \<longleftrightarrow>
     (\<exists>rec. current = Some rec \<and> ce_quality entry < ce_quality (cr_entry rec) \<and> is_fresh rec now)"

inductive spec_step ::
  "bool \<Rightarrow> instant \<Rightarrow> ('n, 'd, 'e) store_event \<Rightarrow> ('n, 'd, 'e) spec_store \<Rightarrow> ('n, 'd, 'e) spec_store \<Rightarrow> bool"
  for bounded now where
  get: "\<not> ss_closed s \<Longrightarrow> view now m = view now (ss_map s) \<Longrightarrow>
      spec_step bounded now (EvGet k (view now (ss_map s) k)) s (s\<lparr>ss_map := m\<rparr>)"
| conflict: "\<not> ss_closed s \<Longrightarrow> current = view now (ss_map s) k \<Longrightarrow>
      \<not> condition_matches c (map_option cr_version current) \<Longrightarrow> view now m = view now (ss_map s) \<Longrightarrow>
      spec_step bounded now (EvCas k c e (Conflict (map_option cr_version current))) s (s\<lparr>ss_map := m\<rparr>)"
| keep: "\<not> ss_closed s \<Longrightarrow> current = view now (ss_map s) k \<Longrightarrow>
      condition_matches c (map_option cr_version current) \<Longrightarrow> better now current e \<Longrightarrow> view now m = view now (ss_map s) \<Longrightarrow>
      spec_step bounded now (EvCas k c e RejectedQuality) s (s\<lparr>ss_map := m\<rparr>)"
| put: "\<not> ss_closed s \<Longrightarrow> current = view now (ss_map s) k \<Longrightarrow>
      condition_matches c (map_option cr_version current) \<Longrightarrow> \<not> better now current e \<Longrightarrow>
      v = ss_version s + 1 \<Longrightarrow> written = view now ((ss_map s)(k \<mapsto> \<lparr>cr_version = v, cr_entry = e\<rparr>)) \<Longrightarrow>
      view now m \<subseteq>\<^sub>m written \<Longrightarrow> (\<not> bounded \<longrightarrow> view now m = written) \<Longrightarrow>
      spec_step bounded now (EvCas k c e (if current = None then Inserted v else Replaced v)) s
        (s\<lparr>ss_map := m, ss_version := v\<rparr>)"
| invalidate: "\<not> ss_closed s \<Longrightarrow>
      hit = (\<lambda>k. \<exists>r. ss_map s k = Some r \<and> invalidation_matches scope k (cr_entry r)) \<Longrightarrow>
      spec_step bounded now (EvInvalidate scope (card (Collect hit))) s
        (s\<lparr>ss_map := (\<lambda>k. if hit k then None else ss_map s k)\<rparr>)"
| shutdown: "spec_step bounded now EvShutdown s (s\<lparr>ss_map := Map.empty, ss_closed := True\<rparr>)"

definition abs_store :: "('n, 'd, 'e) memory_store \<Rightarrow> ('n, 'd, 'e) spec_store" where
  "abs_store store = \<lparr>ss_map = map_of (ms_records (st_state store)), ss_version = st_next_version store,
     ss_closed = ms_shutting_down (st_state store)\<rparr>"

lemma view_delete: "\<not> is_visible r now \<Longrightarrow> m k = Some r \<Longrightarrow> view now (m(k := None)) = view now m"
  by (auto simp: view_def)

lemma view_visible: "m k = Some r \<Longrightarrow> is_visible r now \<Longrightarrow> view now m k = Some r"
  by (simp add: view_def)

lemma view_invisible: "m k = Some r \<Longrightarrow> \<not> is_visible r now \<Longrightarrow> view now m k = None"
  by (simp add: view_def)

lemma view_None: "m k = None \<Longrightarrow> view now m k = None"
  by (simp add: view_def)

lemma view_mono: "m \<subseteq>\<^sub>m m' \<Longrightarrow> view now m \<subseteq>\<^sub>m view now m'"
  by (auto simp: view_def map_le_def dom_def split: Option.bind_splits if_splits)

lemma memory_get_refines:
  assumes "memory_get lib key deadline at now store = (Inr result, store')"
  shows "spec_step bounded now (EvGet key result) (abs_store store) (abs_store store')"
proof -
  let ?s = "abs_store store"
  have closed: "\<not> ss_closed ?s" using assms by (auto simp: memory_get_def lock_def abs_store_def Let_def split: if_splits)
  have "result = view now (ss_map ?s) key \<and>
      (\<exists>m. abs_store store' = ?s\<lparr>ss_map := m\<rparr> \<and> view now m = view now (ss_map ?s))"
  proof (cases "map_of (ms_records (st_state store)) key")
    case None
    with assms show ?thesis
      by (auto simp: memory_get_def lock_def abs_store_def view_None Let_def split: if_splits)
  next
    case (Some rec)
    then have "view now (map_of (ms_records (st_state store))) key = (if is_visible rec now then Some rec else None)"
      by (simp add: view_def)
    with Some assms show ?thesis
      by (auto simp: memory_get_def lock_def abs_store_def view_delete AList.delete_conv' Let_def split: if_splits)
  qed
  then show ?thesis using spec_step.get [OF closed, of now _ bounded key] by metis
qed

lemma drop_invisible_view:
  "map_of (ms_records (drop_invisible lib key now state)) key = view now (map_of (ms_records state)) key"
  "view now (map_of (ms_records (drop_invisible lib key now state))) = view now (map_of (ms_records state))"
  "k \<noteq> key \<Longrightarrow> map_of (ms_records (drop_invisible lib key now state)) k = map_of (ms_records state) k"
  by (auto simp: drop_invisible_def AList.delete_conv' view_visible view_invisible view_None view_delete split: option.splits)

lemma enforce_capacity_map:
  assumes "distinct (map fst (ms_records state))"
  shows "map_of (ms_records (enforce_capacity lib limit state)) \<subseteq>\<^sub>m map_of (ms_records state)"
    and "limit = None \<Longrightarrow> ms_records (enforce_capacity lib limit state) = ms_records state"
proof -
  have "set (ms_records (enforce_capacity lib limit state)) \<subseteq> set (ms_records state)"
    using enforce_loop_subset [OF assms] by (auto simp: enforce_capacity_records split: option.splits)
  then show "map_of (ms_records (enforce_capacity lib limit state)) \<subseteq>\<^sub>m map_of (ms_records state)"
    unfolding map_le_def
  proof (intro ballI)
    fix k
    assume "set (ms_records (enforce_capacity lib limit state)) \<subseteq> set (ms_records state)"
      "k \<in> dom (map_of (ms_records (enforce_capacity lib limit state)))"
    then obtain r where r: "map_of (ms_records (enforce_capacity lib limit state)) k = Some r" "(k, r) \<in> set (ms_records state)"
      using map_of_SomeD by fast
    with map_of_is_SomeI [OF assms r(2)]
    show "map_of (ms_records (enforce_capacity lib limit state)) k = map_of (ms_records state) k" by simp
  qed
  show "limit = None \<Longrightarrow> ms_records (enforce_capacity lib limit state) = ms_records state"
    by (simp add: enforce_capacity_records)
qed

text \<open>The swap by cases: it conflicts, keeps the better record, refuses a record over the limit, or writes.\<close>

lemma memory_compare_and_swap_cases:
  fixes store :: "('n, 'd, 'e) memory_store"
  assumes "memory_compare_and_swap lib key condition entry deadline at now store = (result, store')"
  defines "s \<equiv> drop_invisible lib key now (st_state store)"
  defines "current \<equiv> view now (map_of (ms_records (st_state store))) key"
  obtains
    (error) err where "result = Inl err" "store' = store \<or> store' = store\<lparr>st_state := s\<rparr>"
  | (conflict) c where "\<not> ms_shutting_down (st_state store)" "result = Inr (Conflict (map_option cr_version current))"
      "\<not> condition_matches condition (map_option cr_version current)"
      "store' = store\<lparr>st_state := s\<lparr>ms_stats := c\<rparr>\<rparr>"
  | (keep) "\<not> ms_shutting_down (st_state store)" "result = Inr RejectedQuality"
      "condition_matches condition (map_option cr_version current)" "better now current entry" "store' = store\<lparr>st_state := s\<rparr>"
  | (put) "\<not> ms_shutting_down (st_state store)" "condition_matches condition (map_option cr_version current)"
      "\<not> better now current entry"
      "\<And>w. st_max_weight store = Some w \<Longrightarrow> weighted_size lib key \<lparr>cr_version = 0, cr_entry = entry\<rparr> \<le> w"
      "result = Inr (if current = None then Inserted (st_next_version store + 1) else Replaced (st_next_version store + 1))"
      "store' = store\<lparr>st_next_version := st_next_version store + 1,
         st_state := enforce_capacity lib (st_max_weight store) (s\<lparr>ms_records :=
           AList.update key \<lparr>cr_version = st_next_version store + 1, cr_entry = entry\<rparr> (ms_records s)\<rparr>)\<rparr>"
proof -
  have found: "map_of (ms_records (drop_invisible lib key now (st_state store))) key = current"
    by (simp add: current_def drop_invisible_view)
  have quality: "(case current of Some rec \<Rightarrow> ce_quality entry < ce_quality (cr_entry rec) \<and> is_fresh rec now | None \<Rightarrow> False) =
      better now current entry" by (auto simp: better_def split: option.splits)
  note swap = assms(1) [unfolded memory_compare_and_swap_def lock_def Let_def]
  show thesis
  proof (cases "is_expired deadline at \<or> st_poisoned store \<or> ms_shutting_down (st_state store)")
    case True
    with swap show thesis by (intro error [of "projl result"]) (auto split: if_splits)
  next
    case False
    then have run: "\<not> is_expired deadline at" "\<not> st_poisoned store" "\<not> ms_shutting_down (st_state store)" by auto
    show thesis
    proof (cases "condition_matches condition (map_option cr_version current)")
      case False
      with swap run show thesis by (intro conflict) (auto simp: found s_def)
    next
      case cond: True
      show thesis
      proof (cases "better now current entry")
        case True
        with swap run cond show thesis by (intro keep) (auto simp: found quality s_def)
      next
        case False
        show thesis
        proof (cases "\<exists>w. st_max_weight store = Some w \<and> w < weighted_size lib key \<lparr>cr_version = 0, cr_entry = entry\<rparr>")
          case True
          with swap run cond False show thesis by (intro error [of "projl result"]) (auto simp: found quality s_def)
        next
          case fits: False
          then have "(case st_max_weight store of
              Some limit \<Rightarrow> limit < weighted_size lib key \<lparr>cr_version = 0, cr_entry = entry\<rparr> | None \<Rightarrow> False) = False"
            by (auto split: option.splits)
          with swap run cond False have "result =
              Inr (if current \<noteq> None then Replaced (st_next_version store + 1) else Inserted (st_next_version store + 1))"
            "store' = store\<lparr>st_next_version := st_next_version store + 1,
              st_state := enforce_capacity lib (st_max_weight store) (s\<lparr>ms_records :=
                AList.update key \<lparr>cr_version = st_next_version store + 1, cr_entry = entry\<rparr> (ms_records s)\<rparr>)\<rparr>"
            by (simp_all add: found quality s_def)
          with run cond False fits show thesis by (intro put) auto
        qed
      qed
    qed
  qed
qed

lemma memory_compare_and_swap_refines:
  assumes "store_ok lib store" "memory_compare_and_swap lib key condition entry deadline at now store = (Inr outcome, store')"
  shows "spec_step (st_max_weight store \<noteq> None) now (EvCas key condition entry outcome) (abs_store store) (abs_store store')"
  using assms(2)
proof (cases rule: memory_compare_and_swap_cases)
  case (conflict c)
  then show ?thesis
    using spec_step.conflict [of "abs_store store" _ now key condition "ss_map (abs_store store')"]
    by (simp add: abs_store_def drop_invisible_view)
next
  case keep
  then show ?thesis
    using spec_step.keep [of "abs_store store" _ now key condition entry "ss_map (abs_store store')"]
    by (simp add: abs_store_def drop_invisible_view)
next
  case put
  let ?s = "drop_invisible lib key now (st_state store)"
  let ?new = "\<lparr>cr_version = st_next_version store + 1, cr_entry = entry\<rparr>"
  let ?up = "?s\<lparr>ms_records := AList.update key ?new (ms_records ?s)\<rparr>"
  let ?written = "view now ((map_of (ms_records (st_state store)))(key \<mapsto> ?new))"
  have up: "view now (map_of (ms_records ?up)) = ?written"
    by (rule ext) (simp add: AList.update_conv' view_def drop_invisible_view)
  have "state_ok lib (st_max_weight store) ?s" using assms(1) drop_invisible_ok by (simp add: store_ok_def)
  then have "distinct (map fst (ms_records ?up))" by (simp add: state_ok_def distinct_update_keys)
  note map = enforce_capacity_map [OF this, where lib = lib and limit = "st_max_weight store"]
  have "view now (ss_map (abs_store store')) \<subseteq>\<^sub>m ?written"
    using view_mono [OF map(1), of now] unfolding up by (simp add: put abs_store_def)
  moreover have "st_max_weight store = None \<Longrightarrow> view now (ss_map (abs_store store')) = ?written"
    using map(2) unfolding up [symmetric] by (simp add: put abs_store_def)
  ultimately show ?thesis
    using put spec_step.put [of "abs_store store" _ now key condition entry "st_next_version store + 1" ?written
        "ss_map (abs_store store')" "st_max_weight store \<noteq> None"]
    by (simp add: abs_store_def)
qed simp_all

lemma map_of_filter_hits:
  assumes "distinct (map fst al)"
  shows "length (filter (\<lambda>(k, r). P k r) al) = card {k. \<exists>r. map_of al k = Some r \<and> P k r}"
    and "map_of (filter (\<lambda>(k, r). \<not> P k r) al) = (\<lambda>k. if \<exists>r. map_of al k = Some r \<and> P k r then None else map_of al k)"
proof -
  have "fst ` set (filter (\<lambda>(k, r). P k r) al) = {k. \<exists>r. (k, r) \<in> set al \<and> P k r}"
    by (auto simp: image_def)
  then have "fst ` set (filter (\<lambda>(k, r). P k r) al) = {k. \<exists>r. map_of al k = Some r \<and> P k r}"
    by (simp only: map_of_eq_Some_iff [OF assms])
  then show "length (filter (\<lambda>(k, r). P k r) al) = card {k. \<exists>r. map_of al k = Some r \<and> P k r}"
    using distinct_card [OF distinct_map_filter [OF assms, of "\<lambda>(k, r). P k r"]] by (simp only: set_map length_map)
  show "map_of (filter (\<lambda>(k, r). \<not> P k r) al) = (\<lambda>k. if \<exists>r. map_of al k = Some r \<and> P k r then None else map_of al k)"
  proof (rule ext)
    fix k
    have iff: "map_of (filter (\<lambda>(k, r). \<not> P k r) al) k = Some r \<longleftrightarrow> map_of al k = Some r \<and> \<not> P k r" for r
      using assms distinct_map_filter [OF assms, of "\<lambda>(k, r). \<not> P k r"] by simp
    show "map_of (filter (\<lambda>(k, r). \<not> P k r) al) k = (if \<exists>r. map_of al k = Some r \<and> P k r then None else map_of al k)"
    proof (cases "map_of al k")
      case None
      then have "map_of (filter (\<lambda>(k, r). \<not> P k r) al) k = None" using iff by (metis not_None_eq)
      with None show ?thesis by simp
    next
      case (Some r)
      then have "map_of (filter (\<lambda>(k, r). \<not> P k r) al) k = (if P k r then None else Some r)"
        using iff by (metis not_None_eq option.inject)
      with Some show ?thesis by simp
    qed
  qed
qed

lemma memory_invalidate_refines:
  assumes "store_ok lib store" "memory_invalidate lib scope deadline at store = (Inr n, store')"
  shows "spec_step bounded now (EvInvalidate scope n) (abs_store store) (abs_store store')"
proof -
  let ?records = "ms_records (st_state store)"
  have dist: "distinct (map fst ?records)" using assms(1) by (simp add: store_ok_def state_ok_def)
  note hits = map_of_filter_hits [OF dist, of "\<lambda>k r. invalidation_matches scope k (cr_entry r)"]
  have run: "\<not> is_expired deadline at" "\<not> st_poisoned store" "\<not> ms_shutting_down (st_state store)"
    using assms(2) by (auto simp: memory_invalidate_def lock_def Let_def split: if_splits)
  have "n = length ?records - length (filter (\<lambda>(k, r). \<not> invalidation_matches scope k (cr_entry r)) ?records)"
    and opened: "\<not> ss_closed (abs_store store)"
    and store': "abs_store store' = abs_store store\<lparr>ss_map :=
      map_of (filter (\<lambda>(k, r). \<not> invalidation_matches scope k (cr_entry r)) ?records)\<rparr>"
    using assms(2) run by (simp_all add: memory_invalidate_def lock_def abs_store_def Let_def) auto
  then have "n = length (filter (\<lambda>(k, r). invalidation_matches scope k (cr_entry r)) ?records)"
    using sum_length_filter_compl [of "\<lambda>(k, r). invalidation_matches scope k (cr_entry r)" ?records]
    by (simp add: case_prod_unfold)
  then show ?thesis
    using spec_step.invalidate [OF opened refl, where scope = scope and bounded = bounded and now = now]
    unfolding store' hits unfolding abs_store_def spec_store.simps by simp
qed

lemma memory_shutdown_refines:
  assumes "memory_shutdown lib store = (Inr wakers, store')"
  shows "spec_step bounded now EvShutdown (abs_store store) (abs_store store')"
  using assms spec_step.shutdown [of bounded now "abs_store store"]
  by (auto simp: memory_shutdown_def lock_def abs_store_def Let_def split: if_splits)

section \<open>Writing and reading\<close>

lemma enforce_loop_evictions:
  assumes "distinct (map fst records)" "n + length records \<le> u64_max"
  shows "snd (enforce_loop lib limit records n) + length (fst (enforce_loop lib limit records n)) = n + length records"
  using assms
proof (induction lib limit records n rule: enforce_loop.induct)
  case (1 lib limit records n)
  show ?case
  proof (cases "total_weight lib records \<le> limit \<or> records = []")
    case True
    then have "enforce_loop lib limit records n = (records, n)" by (subst enforce_loop.simps) auto
    then show ?thesis by simp
  next
    case False
    then obtain victim where victim: "min_by older records = Some victim" by (cases records) auto
    let ?rest = "AList.delete (fst victim) records"
    have "set ?rest = set records - {victim}" "distinct (map fst ?rest)"
      using set_delete [OF "1.prems"(1), of "fst victim" "snd victim"] distinct_delete_keys [OF "1.prems"(1)]
        min_by_mem [OF victim] by auto
    then have "length ?rest + 1 = length records"
      using min_by_mem [OF victim] "1.prems"(1) distinct_card [of ?rest] distinct_card [of records] card_Suc_Diff1
      by (fastforce simp: distinct_map)
    moreover have "enforce_loop lib limit records n = enforce_loop lib limit ?rest (saturating_add n 1)"
      using False victim by (subst enforce_loop.simps) simp
    ultimately show ?thesis
      using "1.IH" [OF _ victim \<open>distinct (map fst ?rest)\<close>] False "1.prems"(2) by simp
  qed
qed

lemma written_record_kept:
  assumes ok: "store_ok lib store"
    and cas: "memory_compare_and_swap lib key condition entry deadline at now store = (Inr outcome, store')"
    and outcome: "outcome = Inserted v \<or> outcome = Replaced v"
    and newest: "\<And>k r. (k, r) \<in> set (ms_records (st_state store)) \<Longrightarrow> ce_inserted_at (cr_entry r) < ce_inserted_at entry"
  shows "map_of (ms_records (st_state store')) key = Some \<lparr>cr_version = v, cr_entry = entry\<rparr>"
  using cas
proof (cases rule: memory_compare_and_swap_cases)
  case put
  let ?s = "drop_invisible lib key now (st_state store)"
  have v: "v = st_next_version store + 1" using put outcome by (auto split: if_splits)
  let ?new = "\<lparr>cr_version = v, cr_entry = entry\<rparr>"
  let ?up = "?s\<lparr>ms_records := AList.update key ?new (ms_records ?s)\<rparr>"
  have "state_ok lib (st_max_weight store) ?s" using ok drop_invisible_ok by (simp add: store_ok_def)
  then have dist: "distinct (map fst (ms_records ?up))" by (simp add: state_ok_def distinct_update_keys)
  have mem: "(key, ?new) \<in> set (ms_records ?up)"
    by (rule map_of_SomeD) (simp add: AList.update_conv')
  have sub: "set (ms_records ?s) \<subseteq> set (ms_records (st_state store))"
    by (auto simp: drop_invisible_def AList.delete_eq split: option.splits)
  have older: "older x (key, ?new)" if "x \<in> set (ms_records ?up)" "x \<noteq> (key, ?new)" for x
  proof -
    have "map_of (ms_records ?up) (fst x) = Some (snd x)" using dist that(1) by simp
    moreover have "fst x \<noteq> key" using that dist mem eq_key_imp_eq_value by (metis prod.collapse)
    ultimately have "x \<in> set (ms_records ?s)" by (auto simp: AList.update_conv' dest: map_of_SomeD)
    then show ?thesis using newest [of "fst x" "snd x"] sub by (auto simp: older_def Let_def)
  qed
  have "(key, ?new) \<in> set (ms_records (enforce_capacity lib (st_max_weight store) ?up))"
  proof (cases "st_max_weight store")
    case (Some w)
    then show ?thesis
      using enforce_loop_newest [OF dist mem _ older, of lib w] put(4) [OF Some] weighted_size_entry [of lib key v entry]
      by (simp add: enforce_capacity_records)
  qed (use mem in \<open>simp add: enforce_capacity_records\<close>)
  moreover have "distinct (map fst (ms_records (enforce_capacity lib (st_max_weight store) ?up)))"
    using dist enforce_loop_keys [OF dist, where lib = lib] by (simp add: enforce_capacity_records split: option.splits)
  ultimately show ?thesis using put(6) v by simp
qed (use outcome in auto)

lemma swap_map_key:
  assumes ok: "store_ok lib store"
    and cas: "memory_compare_and_swap lib key condition entry deadline at now store = (Inr outcome, store')"
    and outcome: "outcome = Inserted v \<or> outcome = Replaced v"
  shows "v = st_next_version store + 1"
    and "map_of (ms_records (st_state store')) key = None \<or>
      map_of (ms_records (st_state store')) key = Some \<lparr>cr_version = v, cr_entry = entry\<rparr>"
    and "condition_matches condition (map_option cr_version (view now (map_of (ms_records (st_state store))) key))"
proof -
  let ?s = "drop_invisible lib key now (st_state store)"
  show v: "v = st_next_version store + 1"
    and "condition_matches condition (map_option cr_version (view now (map_of (ms_records (st_state store))) key))"
    using outcome by (cases rule: memory_compare_and_swap_cases [OF cas]; auto split: if_splits)+
  have "state_ok lib (st_max_weight store) ?s" using ok drop_invisible_ok by (simp add: store_ok_def)
  then have "distinct (map fst (AList.update key \<lparr>cr_version = v, cr_entry = entry\<rparr> (ms_records ?s)))"
    by (simp add: state_ok_def distinct_update_keys)
  then have "map_of (ms_records (st_state store')) \<subseteq>\<^sub>m
      map_of (AList.update key \<lparr>cr_version = v, cr_entry = entry\<rparr> (ms_records ?s))"
    using outcome v enforce_capacity_map(1) [of "?s\<lparr>ms_records := AList.update key \<lparr>cr_version = v, cr_entry = entry\<rparr> (ms_records ?s)\<rparr>"]
    by (cases rule: memory_compare_and_swap_cases [OF cas]) auto
  then show "map_of (ms_records (st_state store')) key = None \<or>
      map_of (ms_records (st_state store')) key = Some \<lparr>cr_version = v, cr_entry = entry\<rparr>"
    by (auto simp: map_le_def AList.update_conv' dom_def)
qed

section \<open>A concrete store\<close>

definition demo_entry :: "instant \<Rightarrow> (string, unit, nat option) cache_entry" where
  "demo_entry at = \<lparr>ce_response = sample_response,
     ce_upstream = \<lparr>prov_target_id = CacheUpstreamId ''up'', prov_used_id = None\<rparr>,
     ce_inserted_at = at, ce_expires_at = at + 20000000000, ce_stale_until = None, ce_response_class = CacheNoError,
     ce_producer_revision = 4, ce_quality = QualityComplete, ce_checksum = 0, ce_format_version = 2\<rparr>"

definition demo_key :: "byte \<Rightarrow> cache_key" where
  "demo_key b = \<lparr>ck_namespace = NamespaceGlobal, ck_encoded = [b], ck_format_version = 2\<rparr>"

definition demo_write :: "byte \<Rightarrow> cache_condition \<Rightarrow> instant \<Rightarrow> (string, unit, nat option) memory_store \<Rightarrow>
    (port_error + cache_write_outcome) \<times> (string, unit, nat option) memory_store" where
  "demo_write b condition at store =
     memory_compare_and_swap text_message_lib (demo_key b) condition (demo_entry at) (at + 1000) at at store"

definition demo_store :: "(string, unit, nat option) memory_store" where
  "demo_store = snd (demo_write 2 ConditionAbsent 2000 (snd (demo_write 1 ConditionAbsent 1000 (with_limit (Some 140)))))"

lemma with_limit_ok: "store_ok lib (with_limit limit)"
  by (simp add: store_ok_def state_ok_def with_limit_def stats_default_def total_weight_def)

lemma demo_store_ok: "store_ok text_message_lib demo_store"
  unfolding demo_store_def demo_write_def by (intro memory_compare_and_swap_ok with_limit_ok)

section \<open>Properties\<close>

text \<open>
  The store stays well formed under every operation: keys are unique, the two gauges agree
  with the records, the weight is within the limit, and a store that shut down holds no record.
\<close>

lemma memory_store_invariant:
  assumes "store_ok lib store"
  shows "store_ok lib (snd (memory_get lib key deadline at now store)) \<and>
    store_ok lib (snd (memory_compare_and_swap lib key condition entry deadline at now store)) \<and>
    store_ok lib (snd (memory_invalidate lib scope deadline at store)) \<and>
    store_ok lib (snd (memory_reserve_load key deadline at store)) \<and>
    store_ok lib (snd (memory_publish_load lease completion store)) \<and>
    store_ok lib (snd (memory_abandon_load lease failure store)) \<and>
    store_ok lib (snd (drop_lease lease store)) \<and>
    store_ok lib (snd (poll_load waiter deadline waker at store)) \<and>
    store_ok lib (drop_waiter waiter store) \<and> store_ok lib (snd (memory_shutdown lib store))"
proof -
  have "snd (drop_lease lease store) = snd (complete_load (tok_key lease) (tok_generation lease) (LoadFailed LoadAbandoned) store)"
    by (simp add: drop_lease_def split: prod.splits sum.splits)
  then show ?thesis
    using assms by (simp add: memory_get_ok memory_compare_and_swap_ok memory_invalidate_ok memory_loads_ok complete_load_ok
        memory_shutdown_ok memory_publish_load_def memory_abandon_load_def drop_waiter_def)
qed

lemma memory_store_invariant_witness:
  "store_ok text_message_lib (snd (demo_write 1 ConditionAbsent 1000 (with_limit (Some 140))))"
  using memory_store_invariant [OF with_limit_ok [of text_message_lib "Some 140"], where key = "demo_key 1" and deadline = 2000
      and at = 1000 and now = 1000 and condition = ConditionAbsent and entry = "demo_entry 1000"]
  by (simp add: demo_write_def)

text \<open>
  Property C3: the store implements the abstract versioned map: every successful operation is a step of
  it on the records the store holds.
\<close>

theorem memory_store_refines:
  assumes "store_ok lib store"
  shows "(memory_get lib key deadline at now store = (Inr found, store') \<longrightarrow>
      spec_step (st_max_weight store \<noteq> None) now (EvGet key found) (abs_store store) (abs_store store')) \<and>
    (memory_compare_and_swap lib key condition entry deadline at now store = (Inr outcome, store') \<longrightarrow>
      spec_step (st_max_weight store \<noteq> None) now (EvCas key condition entry outcome) (abs_store store) (abs_store store')) \<and>
    (memory_invalidate lib scope deadline at store = (Inr n, store') \<longrightarrow>
      spec_step (st_max_weight store \<noteq> None) now (EvInvalidate scope n) (abs_store store) (abs_store store')) \<and>
    (memory_shutdown lib store = (Inr wakers, store') \<longrightarrow>
      spec_step (st_max_weight store \<noteq> None) now EvShutdown (abs_store store) (abs_store store'))"
  by (intro conjI impI) (erule memory_get_refines, erule memory_compare_and_swap_refines [OF assms],
      erule memory_invalidate_refines [OF assms], erule memory_shutdown_refines)

theorem memory_store_refines_witness:
  "\<exists>store'. spec_step True 3000 (EvInvalidate (InvalidateExact (demo_key 1)) 1) (abs_store demo_store) (abs_store store')"
proof -
  obtain store' where run: "memory_invalidate text_message_lib (InvalidateExact (demo_key 1)) 9000 3000 demo_store = (Inr 1, store')"
    and bounded: "st_max_weight demo_store = Some 140"
  proof
    have "fst (memory_invalidate text_message_lib (InvalidateExact (demo_key 1)) 9000 3000 demo_store) = Inr 1" by code_simp
    then show "memory_invalidate text_message_lib (InvalidateExact (demo_key 1)) 9000 3000 demo_store =
      (Inr 1, snd (memory_invalidate text_message_lib (InvalidateExact (demo_key 1)) 9000 3000 demo_store))" by (metis prod.collapse)
  qed code_simp
  note step = memory_store_refines [OF demo_store_ok, THEN conjunct2, THEN conjunct2, THEN conjunct1, rule_format, OF run]
  show ?thesis using step [of 3000] unfolding bounded by auto
qed

text \<open>
  Property C23: the eviction loop ends with the weight within the limit. It only removes records, counts
  each of them, and never removes a record while an older one stays.
\<close>

theorem eviction_terminates_within_limit:
  assumes "distinct (map fst records)" "n + length records \<le> u64_max"
  shows "\<exists>kept evictions. enforce_loop lib limit records n = (kept, evictions) \<and> total_weight lib kept \<le> limit \<and>
    set kept \<subseteq> set records \<and> evictions + length kept = n + length records \<and>
    (\<forall>x \<in> set kept. \<forall>y \<in> set records - set kept. \<not> older x y)"
proof -
  obtain kept evictions where loop: "enforce_loop lib limit records n = (kept, evictions)" by fastforce
  show ?thesis
    using enforce_loop_bound [of lib limit records n] enforce_loop_oldest_first [OF assms(1), of lib limit n]
      enforce_loop_evictions [OF assms, of lib limit] by (simp add: loop)
qed

theorem eviction_terminates_within_limit_witness:
  "\<exists>kept evictions. enforce_loop text_message_lib 70 (ms_records (st_state demo_store)) 0 = (kept, evictions) \<and>
     evictions + length kept = 2 \<and> total_weight text_message_lib kept \<le> 70"
proof -
  have "distinct (map fst (ms_records (st_state demo_store)))"
    using demo_store_ok by (simp add: store_ok_def state_ok_def)
  moreover have "length (ms_records (st_state demo_store)) = 2" by code_simp
  ultimately show ?thesis
    using eviction_terminates_within_limit [of "ms_records (st_state demo_store)" 0 text_message_lib 70]
    by (auto simp: u64_max_def)
qed

text \<open>
  Property C38: a compare-and-swap loses no update: of two writers that read the same version, the second
  one never writes, whatever the first did to the store in between.
\<close>

theorem swap_loses_no_update:
  assumes "store_ok lib store" "\<forall>(k, r) \<in> set (ms_records (st_state store)). cr_version r \<le> st_next_version store"
    and "st_next_version store < - 1"
    and "memory_compare_and_swap lib key (ConditionVersion v) e1 d1 a1 n1 store = (Inr outcome, store1)"
    and "outcome = Inserted w \<or> outcome = Replaced w"
    and "memory_compare_and_swap lib key (ConditionVersion v) e2 d2 a2 n2 store1 = (Inr outcome2, store2)"
  shows "\<exists>current. outcome2 = Conflict current \<and> current \<noteq> Some v"
proof -
  note first = swap_map_key [OF assms(1,4,5)]
  obtain r where r: "(key, r) \<in> set (ms_records (st_state store))" "cr_version r = v"
    using first(3) by (auto simp: view_def split: Option.bind_splits if_splits dest: map_of_SomeD)
  then have "v \<le> st_next_version store" using assms(2) by auto
  moreover have "unat (st_next_version store) < 18446744073709551615"
    using assms(3) by (simp add: word_less_nat_alt unsigned_minus_1_eq_mask mask_eq_exp_minus_1)
  then have "unat (st_next_version store + 1) = unat (st_next_version store) + 1" by (simp add: unat_word_ariths)
  ultimately have "v \<noteq> w" unfolding first(1) by (auto simp: word_le_nat_alt)
  then have "map_option cr_version (view n2 (map_of (ms_records (st_state store1))) key) \<noteq> Some v"
    using first(2) by (auto simp: view_def split: if_splits)
  then show ?thesis by (cases rule: memory_compare_and_swap_cases [OF assms(6)]) auto
qed

theorem swap_loses_no_update_witness:
  "\<exists>store1 outcome2 store2. demo_write 1 (ConditionVersion 1) 3000 demo_store = (Inr (Replaced 3), store1) \<and>
     demo_write 1 (ConditionVersion 1) 4000 store1 = (Inr outcome2, store2) \<and> (\<exists>current. outcome2 = Conflict current)"
proof -
  have "fst (demo_write 1 (ConditionVersion 1) 3000 demo_store) = Inr (Replaced 3)" by code_simp
  then obtain store1 where first: "demo_write 1 (ConditionVersion 1) 3000 demo_store = (Inr (Replaced 3), store1)"
    by (cases "demo_write 1 (ConditionVersion 1) 3000 demo_store") simp
  have "\<not> isl (fst (demo_write 1 (ConditionVersion 1) 4000 (snd (demo_write 1 (ConditionVersion 1) 3000 demo_store))))"
    by code_simp
  then obtain outcome2 store2 where second: "demo_write 1 (ConditionVersion 1) 4000 store1 = (Inr outcome2, store2)"
    by (cases "demo_write 1 (ConditionVersion 1) 4000 store1"; cases "fst (demo_write 1 (ConditionVersion 1) 4000 store1)")
      (simp_all add: first)
  have "list_all (\<lambda>(k, r). cr_version r \<le> st_next_version demo_store) (ms_records (st_state demo_store))"
    "st_next_version demo_store < - 1" by code_simp+
  then have "\<exists>current. outcome2 = Conflict current \<and> current \<noteq> Some 1"
    using swap_loses_no_update [OF demo_store_ok _ _ first [unfolded demo_write_def] _ second [unfolded demo_write_def]]
    by (simp add: list_all_iff)
  with first second show ?thesis by blast
qed

text \<open>
  A reader sees what was written: after an accepted write of the newest entry, every lookup
  before the end of its retention returns exactly that entry with the version the writer was told.
\<close>

lemma written_record_is_read:
  assumes "store_ok lib store"
    and "memory_compare_and_swap lib key condition entry deadline at now store = (Inr outcome, store')"
    and "outcome = Inserted v \<or> outcome = Replaced v"
    and "\<forall>(k, r) \<in> set (ms_records (st_state store)). ce_inserted_at (cr_entry r) < ce_inserted_at entry"
    and "\<not> is_expired deadline' at'" "now' < retention_deadline entry"
  shows "fst (memory_get lib key deadline' at' now' store') = Inr (Some \<lparr>cr_version = v, cr_entry = entry\<rparr>)"
proof -
  have "map_of (ms_records (st_state store')) key = Some \<lparr>cr_version = v, cr_entry = entry\<rparr>"
    using written_record_kept [OF assms(1-3)] assms(4) by fastforce
  moreover have "\<not> st_poisoned store'" "\<not> ms_shutting_down (st_state store')"
    using assms(2) by (cases rule: memory_compare_and_swap_cases [OF assms(2)];
        auto simp: memory_compare_and_swap_def lock_def Let_def split: if_splits)+
  ultimately show ?thesis using assms(5,6) by (simp add: memory_get_def lock_def is_visible_def Let_def)
qed

lemma written_record_is_read_witness:
  "fst (memory_get text_message_lib (demo_key 3) 9000 5000 6000 (snd (demo_write 3 ConditionAbsent 4000 demo_store))) =
     Inr (Some \<lparr>cr_version = 3, cr_entry = demo_entry 4000\<rparr>)"
proof -
  have run: "demo_write 3 ConditionAbsent 4000 demo_store = (Inr (Inserted 3), snd (demo_write 3 ConditionAbsent 4000 demo_store))"
    by (rule prod_eqI) (code_simp, simp)
  have "list_all (\<lambda>(k, r). ce_inserted_at (cr_entry r) < ce_inserted_at (demo_entry 4000)) (ms_records (st_state demo_store))"
    "\<not> is_expired 9000 5000" "6000 < retention_deadline (demo_entry 4000)" by code_simp+
  then show ?thesis
    using written_record_is_read [OF demo_store_ok run [unfolded demo_write_def], of 3] by (auto simp: list_all_iff demo_write_def)
qed

end
