(* ===== verification/Cache_Flight.thy ===== *)
theory Cache_Flight
  imports Cache_Memory_Laws
begin

text \<open>
  Single-flight loading (\<open>backend/src/cache/memory.rs\<close> with the guards of \<open>backend/src/ports/cache.rs\<close>) as a
  step relation: the store, the live leases and waiters, and the followers whose task is parked. A
  token leaves the world when its holder ends it or drops it; dropping is always possible, because the
  guards release on drop. The invariant gives a single leader per key, no lost wake-up and no leak.
\<close>

section \<open>Steps\<close>

record ('n, 'd, 'e) world =
  w_store :: "('n, 'd, 'e) memory_store"
  w_leases :: "load_token list"
  w_waiters :: "load_token list"
  w_parked :: "(nat \<times> load_token) list"

definition wake :: "nat list \<Rightarrow> (nat \<times> load_token) list \<Rightarrow> (nat \<times> load_token) list" where
  "wake wakers parked = filter (\<lambda>(waker, _). waker \<notin> set wakers) parked"

definition start :: "nat option \<Rightarrow> ('n, 'd, 'e) world" where
  "start limit = \<lparr>w_store = with_limit limit, w_leases = [], w_waiters = [], w_parked = []\<rparr>"

text \<open>The wakers are those of the woken tasks; \<open>poll_error\<close> and \<open>poll_ready\<close> end the wait, as do the timer
  and the cancellation of the waiter (\<open>leave\<close>), and then the waiter token is dropped. A count of followers
  that does not fit 64 bits does not fit the memory either.\<close>

inductive flight_step :: "('n, 'd, 'e, 's) message_lib \<Rightarrow> ('n, 'd, 'e) world \<Rightarrow> ('n, 'd, 'e) world \<Rightarrow> bool"
  for lib where
  lead: "memory_reserve_load key deadline at (w_store w) = (Inr (Leader lease), store) \<Longrightarrow>
      flight_step lib w (w\<lparr>w_store := store, w_leases := lease # w_leases w\<rparr>)"
| follow: "memory_reserve_load key deadline at (w_store w) = (Inr (Follower waiter), store) \<Longrightarrow>
      length (w_waiters w) < u64_max \<Longrightarrow>
      flight_step lib w (w\<lparr>w_store := store, w_waiters := waiter # w_waiters w\<rparr>)"
| publish: "lease \<in> set (w_leases w) \<Longrightarrow> memory_publish_load lease completion (w_store w) = (Inr wakers, store) \<Longrightarrow>
      flight_step lib w (w\<lparr>w_store := store, w_leases := remove1 lease (w_leases w), w_parked := wake wakers (w_parked w)\<rparr>)"
| abandon: "lease \<in> set (w_leases w) \<Longrightarrow> memory_abandon_load lease failure (w_store w) = (Inr wakers, store) \<Longrightarrow>
      flight_step lib w (w\<lparr>w_store := store, w_leases := remove1 lease (w_leases w), w_parked := wake wakers (w_parked w)\<rparr>)"
| release: "lease \<in> set (w_leases w) \<Longrightarrow> drop_lease lease (w_store w) = (wakers, store) \<Longrightarrow>
      flight_step lib w (w\<lparr>w_store := store, w_leases := remove1 lease (w_leases w), w_parked := wake wakers (w_parked w)\<rparr>)"
| park: "waiter \<in> set (w_waiters w) \<Longrightarrow> poll_load waiter deadline waker at (w_store w) = (Pending, store) \<Longrightarrow>
      flight_step lib w (w\<lparr>w_store := store, w_parked := (waker, waiter) # w_parked w\<rparr>)"
| leave: "waiter \<in> set (w_waiters w) \<Longrightarrow>
      flight_step lib w (w\<lparr>w_store := drop_waiter waiter (w_store w), w_waiters := remove1 waiter (w_waiters w),
        w_parked := remove1 (waker, waiter) (w_parked w)\<rparr>)"
| get: "flight_step lib w (w\<lparr>w_store := snd (memory_get lib key deadline at now (w_store w))\<rparr>)"
| swap: "flight_step lib w (w\<lparr>w_store := snd (memory_compare_and_swap lib key condition entry deadline at now (w_store w))\<rparr>)"
| invalidate: "flight_step lib w (w\<lparr>w_store := snd (memory_invalidate lib scope deadline at (w_store w))\<rparr>)"
| close: "memory_shutdown lib (w_store w) = (Inr wakers, store) \<Longrightarrow>
      flight_step lib w (w\<lparr>w_store := store, w_parked := wake wakers (w_parked w)\<rparr>)"

definition reachable :: "('n, 'd, 'e, 's) message_lib \<Rightarrow> nat option \<Rightarrow> ('n, 'd, 'e) world \<Rightarrow> bool" where
  "reachable lib limit w \<longleftrightarrow> (flight_step lib)\<^sup>*\<^sup>* (start limit) w"

section \<open>The invariant on the loads\<close>

abbreviation waiters_of :: "cache_key \<Rightarrow> load_token list \<Rightarrow> nat" where
  "waiters_of key waiters \<equiv> length (filter (\<lambda>t. tok_key t = key) waiters)"

definition flight_ok ::
  "bool \<Rightarrow> (cache_key \<rightharpoonup> ('n, 'd, 'e) memory_load) \<Rightarrow> load_token list \<Rightarrow> load_token list \<Rightarrow> (nat \<times> load_token) list \<Rightarrow> bool" where
  "flight_ok closed loads leases waiters parked \<longleftrightarrow>
     (\<forall>t \<in> set waiters. \<exists>l. loads (tok_key t) = Some l \<and> ml_generation l = tok_generation t) \<and>
     (\<forall>k l. loads k = Some l \<longrightarrow> ml_followers l = waiters_of k waiters \<and>
        (ml_completion l = None \<longrightarrow> \<not> closed \<and> \<lparr>tok_key = k, tok_generation = ml_generation l\<rparr> \<in> set leases) \<and>
        (ml_completion l \<noteq> None \<longrightarrow> 0 < ml_followers l)) \<and>
     (\<not> closed \<longrightarrow> distinct (map tok_key leases) \<and>
        (\<forall>t \<in> set leases. \<exists>l. loads (tok_key t) = Some l \<and> ml_generation l = tok_generation t \<and> ml_completion l = None)) \<and>
     (\<forall>(waker, t) \<in> set parked. \<exists>l. loads (tok_key t) = Some l \<and> ml_generation l = tok_generation t \<and>
        ml_completion l = None \<and> waker \<in> set (ml_waiters l))"

lemma flight_okD:
  assumes "flight_ok closed loads leases waiters parked"
  shows "t \<in> set waiters \<Longrightarrow> \<exists>l. loads (tok_key t) = Some l \<and> ml_generation l = tok_generation t"
    and "loads k = Some l \<Longrightarrow> ml_followers l = waiters_of k waiters"
    and "loads k = Some l \<Longrightarrow> ml_completion l = None \<Longrightarrow> \<not> closed \<and> \<lparr>tok_key = k, tok_generation = ml_generation l\<rparr> \<in> set leases"
    and "loads k = Some l \<Longrightarrow> ml_completion l \<noteq> None \<Longrightarrow> 0 < ml_followers l"
    and "\<not> closed \<Longrightarrow> distinct (map tok_key leases)"
    and "\<not> closed \<Longrightarrow> t \<in> set leases \<Longrightarrow>
      \<exists>l. loads (tok_key t) = Some l \<and> ml_generation l = tok_generation t \<and> ml_completion l = None"
    and "(waker, t) \<in> set parked \<Longrightarrow> \<exists>l. loads (tok_key t) = Some l \<and> ml_generation l = tok_generation t \<and>
      ml_completion l = None \<and> waker \<in> set (ml_waiters l)"
  using assms unfolding flight_ok_def by blast+

lemma waiters_of_pos: "t \<in> set waiters \<Longrightarrow> 0 < waiters_of (tok_key t) waiters"
  by (induction waiters) auto

lemma waiters_of_remove1:
  "t \<in> set waiters \<Longrightarrow> waiters_of k (remove1 t waiters) = waiters_of k waiters - (if k = tok_key t then 1 else 0)"
  by (simp add: filter_remove1 length_remove1)

lemma flight_okI:
  assumes "\<And>t. t \<in> set waiters \<Longrightarrow> \<exists>l. loads (tok_key t) = Some l \<and> ml_generation l = tok_generation t"
    and "\<And>k l. loads k = Some l \<Longrightarrow> ml_followers l = waiters_of k waiters"
    and "\<And>k l. loads k = Some l \<Longrightarrow> ml_completion l = None \<Longrightarrow>
      \<not> closed \<and> \<lparr>tok_key = k, tok_generation = ml_generation l\<rparr> \<in> set leases"
    and "\<And>k l. loads k = Some l \<Longrightarrow> ml_completion l \<noteq> None \<Longrightarrow> 0 < ml_followers l"
    and "\<not> closed \<Longrightarrow> distinct (map tok_key leases)"
    and "\<And>t. \<not> closed \<Longrightarrow> t \<in> set leases \<Longrightarrow>
      \<exists>l. loads (tok_key t) = Some l \<and> ml_generation l = tok_generation t \<and> ml_completion l = None"
    and "\<And>waker t. (waker, t) \<in> set parked \<Longrightarrow> \<exists>l. loads (tok_key t) = Some l \<and> ml_generation l = tok_generation t \<and>
      ml_completion l = None \<and> waker \<in> set (ml_waiters l)"
  shows "flight_ok closed loads leases waiters parked"
  unfolding flight_ok_def using assms by blast

lemma flight_lead:
  assumes ok: "flight_ok False loads leases waiters parked" and none: "loads k = None"
    and l: "ml_generation l = g" "ml_completion l = None" "ml_followers l = 0"
  shows "flight_ok False (loads(k \<mapsto> l)) (\<lparr>tok_key = k, tok_generation = g\<rparr> # leases) waiters parked"
proof -
  note D = flight_okD [OF ok]
  have w: "tok_key t \<noteq> k" if "t \<in> set waiters" for t using D(1) [OF that] none by auto
  have k: "tok_key t \<noteq> k" if "t \<in> set leases" for t using D(6) [OF _ that] none by auto
  have p: "tok_key t \<noteq> k" if "(waker, t) \<in> set parked" for waker t using D(7) [OF that] none by auto
  have "waiters_of k waiters = 0" using w by (simp add: filter_empty_conv)
  then show ?thesis
  proof (intro flight_okI, goal_cases)
    case (1 t) then show ?case using D(1) [of t] w [of t] by simp
  next
    case (2 k' l') then show ?case using D(2) [of k' l'] l by (auto split: if_splits)
  next
    case (3 k' l') then show ?case using D(3) [of k' l'] l by (auto split: if_splits)
  next
    case (4 k' l') then show ?case using D(4) [of k' l'] l by (auto split: if_splits)
  next
    case 5 then show ?case using D(5) k by auto
  next
    case (6 t) then show ?case using D(6) [of t] k [of t] l by auto
  next
    case (7 waker t) then show ?case using D(7) [of waker t] p [of waker t] by simp
  qed
qed

lemma flight_follow:
  assumes ok: "flight_ok closed loads leases waiters parked" and l: "loads k = Some l"
  shows "flight_ok closed (loads(k \<mapsto> l\<lparr>ml_followers := Suc (ml_followers l)\<rparr>)) leases
    (\<lparr>tok_key = k, tok_generation = ml_generation l\<rparr> # waiters) parked"
proof -
  note D = flight_okD [OF ok]
  show ?thesis
  proof (intro flight_okI, goal_cases)
    case (1 t) then show ?case using D(1) [of t] l by auto
  next
    case (2 k' l') then show ?case using D(2) [of k' l'] D(2) [OF l] l by (auto split: if_splits)
  next
    case (3 k' l') then show ?case using D(3) [of k' l'] D(3) [OF l] l by (auto split: if_splits)
  next
    case (4 k' l') then show ?case using D(4) [of k' l'] D(4) [OF l] l by (auto split: if_splits)
  next
    case 5 then show ?case using D(5) by auto
  next
    case (6 t) then show ?case using D(6) [of t] l by auto
  next
    case (7 waker t) then show ?case using D(7) [of waker t] l by auto
  qed
qed

lemma flight_park:
  assumes ok: "flight_ok closed loads leases waiters parked" and l: "loads (tok_key t) = Some l"
    and "ml_generation l = tok_generation t" "ml_completion l = None" "set (ml_waiters l) \<subseteq> set ws" "waker \<in> set ws"
  shows "flight_ok closed (loads(tok_key t \<mapsto> l\<lparr>ml_waiters := ws\<rparr>)) leases waiters ((waker, t) # parked)"
proof -
  note D = flight_okD [OF ok]
  show ?thesis
  proof (intro flight_okI, goal_cases)
    case (1 t') then show ?case using D(1) [of t'] l by auto
  next
    case (2 k' l') then show ?case using D(2) [of k' l'] D(2) [OF l] l by (auto split: if_splits)
  next
    case (3 k' l') then show ?case using D(3) [of k' l'] D(3) [OF l] l by (auto split: if_splits)
  next
    case (4 k' l') then show ?case using D(4) [of k' l'] D(4) [OF l] l by (auto split: if_splits)
  next
    case 5 then show ?case using D(5) by auto
  next
    case (6 t') then show ?case using D(6) [of t'] l by auto
  next
    case (7 waker' t') then show ?case using D(7) [of waker' t'] assms by auto
  qed
qed

lemma flight_complete:
  assumes ok: "flight_ok closed loads leases waiters parked" and t: "t \<in> set leases"
    and l: "loads (tok_key t) = Some l" "ml_generation l = tok_generation t" "ml_completion l = None"
    and loads': "loads' = (if ml_followers l = 0 then loads(tok_key t := None)
      else loads(tok_key t \<mapsto> l\<lparr>ml_completion := Some c, ml_waiters := []\<rparr>))"
  shows "flight_ok closed loads' (remove1 t leases) waiters (wake (ml_waiters l) parked)"
proof -
  note D = flight_okD [OF ok]
  have opened: "\<not> closed" using D(3) [OF l(1,3)] by simp
  have dist: "distinct leases" "distinct (map tok_key leases)" using D(5) [OF opened] by (auto simp: distinct_map)
  have other: "tok_key t' \<noteq> tok_key t" if "t' \<in> set (remove1 t leases)" for t'
    using that dist t by (auto simp: distinct_map inj_on_def)
  have gone: "tok_key t' \<noteq> tok_key t" if "(waker, t') \<in> set (wake (ml_waiters l) parked)" for waker t'
    using that D(7) [of waker t'] l by (auto simp: wake_def)
  have stay: "tok_key t' \<noteq> tok_key t" if "t' \<in> set waiters" "ml_followers l = 0" for t'
    using waiters_of_pos [OF that(1)] D(2) [OF l(1)] that(2) by auto
  show ?thesis
  proof (intro flight_okI, goal_cases)
    case (1 t') then show ?case using D(1) [of t'] stay l by (auto simp: loads')
  next
    case (2 k' l') then show ?case using D(2) [of k' l'] D(2) [OF l(1)] by (auto simp: loads' split: if_splits)
  next
    case (3 k' l')
    then have "loads k' = Some l'" "k' \<noteq> tok_key t" by (auto simp: loads' split: if_splits)
    then have "\<not> closed \<and> \<lparr>tok_key = k', tok_generation = ml_generation l'\<rparr> \<in> set leases" using D(3) 3(2) by blast
    with \<open>k' \<noteq> tok_key t\<close> dist show ?case by auto
  next
    case (4 k' l') then show ?case using D(4) by (auto simp: loads' split: if_splits)
  next
    case 5 then show ?case using dist by (simp add: distinct_map inj_on_def)
  next
    case (6 t') then show ?case using D(6) [of t'] other [of t'] notin_set_remove1 [of t' leases t] by (auto simp: loads')
  next
    case (7 waker t') then show ?case using D(7) [of waker t'] gone [of waker t'] by (auto simp: loads' wake_def)
  qed
qed

lemma flight_closed:
  assumes "flight_ok True loads leases waiters parked"
  shows "parked = []" and "flight_ok True loads leases' waiters []"
proof -
  note D = flight_okD [OF assms]
  have complete: "ml_completion l \<noteq> None" if "loads k = Some l" for k l using D(3) [OF that] by blast
  have "p \<notin> set parked" for p using D(7) [of "fst p" "snd p"] complete by (metis prod.collapse)
  then show "parked = []" by (cases parked) auto
  show "flight_ok True loads leases' waiters []"
    using D(1,2,4) complete unfolding flight_ok_def by simp
qed

lemma flight_leave:
  assumes ok: "flight_ok closed loads leases waiters parked" and t: "t \<in> set waiters"
    and l: "loads (tok_key t) = Some l"
    and loads': "loads' = (if ml_completion l \<noteq> None \<and> ml_followers l - 1 = 0 then loads(tok_key t := None)
      else loads(tok_key t \<mapsto> l\<lparr>ml_followers := ml_followers l - 1\<rparr>))"
    and parked': "set parked' \<subseteq> set parked"
  shows "flight_ok closed loads' leases (remove1 t waiters) parked'"
proof -
  note D = flight_okD [OF ok]
  have count: "waiters_of k (remove1 t waiters) = waiters_of k waiters - (if k = tok_key t then 1 else 0)" for k
    by (rule waiters_of_remove1 [OF t])
  have stay: "tok_key t' \<noteq> tok_key t" if "t' \<in> set (remove1 t waiters)" "ml_followers l - 1 = 0" for t'
    using waiters_of_pos [OF that(1)] count [of "tok_key t'"] D(2) [OF l] that(2) by auto
  have w: "t' \<in> set waiters" if "t' \<in> set (remove1 t waiters)" for t' using that by (metis notin_set_remove1)
  show ?thesis
  proof (intro flight_okI, goal_cases)
    case (1 t') then show ?case using D(1) [OF w [of t']] stay [of t'] l by (auto simp: loads')
  next
    case (2 k' l') then show ?case using D(2) [of k' l'] D(2) [OF l] l by (auto simp: loads' count split: if_splits)
  next
    case (3 k' l') then show ?case using D(3) [of k' l'] D(3) [OF l] l by (auto simp: loads' split: if_splits)
  next
    case (4 k' l') then show ?case using D(4) [of k' l'] D(4) [OF l] l by (auto simp: loads' split: if_splits)
  next
    case 5 then show ?case using D(5) by auto
  next
    case (6 t') then show ?case using D(6) [of t'] l by (auto simp: loads')
  next
    case (7 waker t') then show ?case using D(7) [of waker t'] l parked' by (auto simp: loads')
  qed
qed

lemma shutdown_load_sel:
  "ml_completion (shutdown_load l) \<noteq> None" "ml_followers (shutdown_load l) = ml_followers l"
  "ml_generation (shutdown_load l) = ml_generation l"
  by (simp_all add: shutdown_load_def Let_def)

lemma flight_shutdown:
  assumes ok: "flight_ok closed loads leases waiters parked"
    and loads': "loads' = (\<lambda>k. Option.bind (loads k) (\<lambda>l. if 0 < ml_followers l then Some (shutdown_load l) else None))"
    and wakers: "\<And>k l. loads k = Some l \<Longrightarrow> set (ml_waiters l) \<subseteq> set wakers"
  shows "flight_ok True loads' leases waiters (wake wakers parked)"
proof -
  note D = flight_okD [OF ok]
  note load = shutdown_load_sel
  have "wake wakers parked = []"
    using D(7) wakers by (fastforce simp: wake_def filter_empty_conv)
  moreover have "flight_ok True loads' leases waiters []"
  proof (intro flight_okI, goal_cases)
    case (1 t)
    then obtain l where l: "loads (tok_key t) = Some l" "ml_generation l = tok_generation t" using D(1) by blast
    then show ?case using waiters_of_pos [OF 1] D(2) [OF l(1)] by (auto simp: loads' load)
  next
    case (2 k l) then show ?case using D(2) by (auto simp: loads' load split: Option.bind_splits if_splits)
  next
    case (3 k l)
    then obtain l' where "l = shutdown_load l'" by (auto simp: loads' split: Option.bind_splits if_splits)
    with 3(2) load(1) [of l'] show ?case by simp
  next
    case (4 k l) then show ?case by (auto simp: loads' load split: Option.bind_splits if_splits)
  qed auto
  ultimately show ?thesis by simp
qed

section \<open>The invariant of the world\<close>

definition world_ok :: "('n, 'd, 'e) world \<Rightarrow> bool" where
  "world_ok w \<longleftrightarrow>
     \<not> st_poisoned (w_store w) \<and> distinct (map fst (ms_loads (st_state (w_store w)))) \<and>
     flight_ok (ms_shutting_down (st_state (w_store w))) (map_of (ms_loads (st_state (w_store w))))
       (w_leases w) (w_waiters w) (w_parked w)"

abbreviation loads_of :: "('n, 'd, 'e) memory_store \<Rightarrow> (cache_key \<rightharpoonup> ('n, 'd, 'e) memory_load)" where
  "loads_of store \<equiv> map_of (ms_loads (st_state store))"

lemma world_ok_start: "world_ok (start limit)"
  by (auto simp: world_ok_def start_def with_limit_def intro: flight_okI)

text \<open>The operations on records leave the loads alone.\<close>

lemma record_operations_frame:
  assumes "store' = snd (memory_get lib key deadline at now store) \<or>
    store' = snd (memory_compare_and_swap lib key condition entry deadline at now store) \<or>
    store' = snd (memory_invalidate lib scope deadline at store)"
  shows "ms_loads (st_state store') = ms_loads (st_state store)" "st_poisoned store' = st_poisoned store"
    "ms_shutting_down (st_state store') = ms_shutting_down (st_state store)"
proof -
  have get: "ms_loads (st_state (snd (memory_get lib key deadline at now store))) = ms_loads (st_state store)"
    "st_poisoned (snd (memory_get lib key deadline at now store)) = st_poisoned store"
    "ms_shutting_down (st_state (snd (memory_get lib key deadline at now store))) = ms_shutting_down (st_state store)"
    by (simp_all add: memory_get_def lock_def Let_def split: option.splits)
  obtain result store1 where "memory_compare_and_swap lib key condition entry deadline at now store = (result, store1)"
    by fastforce
  moreover from this have "ms_loads (st_state store1) = ms_loads (st_state store)" "st_poisoned store1 = st_poisoned store"
    "ms_shutting_down (st_state store1) = ms_shutting_down (st_state store)"
    by (cases rule: memory_compare_and_swap_cases; auto)+
  moreover have "ms_loads (st_state (snd (memory_invalidate lib scope deadline at store))) = ms_loads (st_state store)"
    "st_poisoned (snd (memory_invalidate lib scope deadline at store)) = st_poisoned store"
    "ms_shutting_down (st_state (snd (memory_invalidate lib scope deadline at store))) = ms_shutting_down (st_state store)"
    by (simp_all add: memory_invalidate_def lock_def Let_def)
  ultimately show "ms_loads (st_state store') = ms_loads (st_state store)" "st_poisoned store' = st_poisoned store"
    "ms_shutting_down (st_state store') = ms_shutting_down (st_state store)"
    using assms get by auto
qed

text \<open>Completing a load, when it succeeds and when it fails.\<close>

lemma complete_load_cases:
  assumes "complete_load key g c store = (result, store')" "\<not> st_poisoned store"
  obtains
    (completed) l where "loads_of store key = Some l" "ml_generation l = g" "ml_completion l = None" "result = Inr (ml_waiters l)"
      "loads_of store' = (if ml_followers l = 0 then (loads_of store)(key := None)
         else (loads_of store)(key \<mapsto> l\<lparr>ml_completion := Some c, ml_waiters := []\<rparr>))"
      "st_poisoned store' = st_poisoned store" "ms_shutting_down (st_state store') = ms_shutting_down (st_state store)"
  | (refused) err where "result = Inl err" "store' = store"
      "\<And>l. loads_of store key = Some l \<Longrightarrow> ml_generation l = g \<Longrightarrow> ml_completion l \<noteq> None"
  using assms
  by (fastforce simp: complete_load_def lock_def Let_def AList.update_conv' AList.delete_conv' split: option.splits if_splits)

lemma complete_load_keys:
  "distinct (map fst (ms_loads (st_state store))) \<Longrightarrow> distinct (map fst (ms_loads (st_state (snd (complete_load key g c store)))))"
  by (auto simp: complete_load_def lock_def Let_def distinct_update_keys distinct_delete_keys split: option.splits)

lemma world_ok_complete:
  assumes w: "world_ok w" and lease: "lease \<in> set (w_leases w)"
    and run: "complete_load (tok_key lease) (tok_generation lease) c (w_store w) = (result, store)"
    and wakers: "wakers = (case result of Inr ws \<Rightarrow> ws | Inl _ \<Rightarrow> [])"
  shows "world_ok (w\<lparr>w_store := store, w_leases := remove1 lease (w_leases w), w_parked := wake wakers (w_parked w)\<rparr>)"
proof -
  let ?s = "w_store w"
  have poison: "\<not> st_poisoned ?s" and ok: "flight_ok (ms_shutting_down (st_state ?s)) (loads_of ?s) (w_leases w) (w_waiters w) (w_parked w)"
    using w by (auto simp: world_ok_def)
  have keys: "distinct (map fst (ms_loads (st_state store)))"
    using w complete_load_keys [of ?s "tok_key lease" "tok_generation lease" c] run by (simp add: world_ok_def)
  from run poison show ?thesis
  proof (cases rule: complete_load_cases)
    case (completed l)
    from flight_complete [OF ok lease completed(1,2,3,5)] completed poison keys show ?thesis by (simp add: world_ok_def wakers)
  next
    case (refused err)
    have closed: "ms_shutting_down (st_state ?s)"
      using flight_okD(6) [OF ok _ lease] refused(3) by blast
    then have "flight_ok True (loads_of ?s) (w_leases w) (w_waiters w) (w_parked w)" using ok by simp
    note closed_ok = flight_closed [OF this]
    show ?thesis
      using poison keys refused closed closed_ok by (simp add: world_ok_def wakers wake_def)
  qed
qed

text \<open>Reserving, polling, leaving and shutting down.\<close>

lemma world_ok_lead:
  assumes w: "world_ok w" and run: "memory_reserve_load key deadline at (w_store w) = (Inr (Leader lease), store)"
  shows "world_ok (w\<lparr>w_store := store, w_leases := lease # w_leases w\<rparr>)"
proof -
  let ?s = "w_store w"
  let ?g = "st_next_generation ?s + 1"
  let ?l = "\<lparr>ml_generation = ?g, ml_completion = None, ml_followers = 0, ml_waiters = []\<rparr>"
  have opened: "\<not> ms_shutting_down (st_state ?s)" and none: "loads_of ?s key = None"
    and lease: "lease = \<lparr>tok_key = key, tok_generation = ?g\<rparr>"
    and store: "store = ?s\<lparr>st_next_generation := ?g,
      st_state := (st_state ?s)\<lparr>ms_loads := AList.update key ?l (ms_loads (st_state ?s))\<rparr>\<rparr>"
    using run by (auto simp: memory_reserve_load_def lock_def Let_def split: if_splits option.splits)
  have "flight_ok False (loads_of ?s) (w_leases w) (w_waiters w) (w_parked w)" using w opened by (simp add: world_ok_def)
  from flight_lead [OF this none, of ?l ?g] w opened show ?thesis
    by (simp add: world_ok_def store lease AList.update_conv' distinct_update_keys)
qed

lemma world_ok_follow:
  assumes w: "world_ok w" and run: "memory_reserve_load key deadline at (w_store w) = (Inr (Follower waiter), store)"
    and few: "length (w_waiters w) < u64_max"
  shows "world_ok (w\<lparr>w_store := store, w_waiters := waiter # w_waiters w\<rparr>)"
proof -
  let ?s = "w_store w"
  obtain l where l: "loads_of ?s key = Some l" and waiter: "waiter = \<lparr>tok_key = key, tok_generation = ml_generation l\<rparr>"
    and store: "store = ?s\<lparr>st_state := (st_state ?s)\<lparr>ms_loads := AList.update key
      (l\<lparr>ml_followers := saturating_add (ml_followers l) 1\<rparr>) (ms_loads (st_state ?s))\<rparr>\<rparr>"
    using run by (auto simp: memory_reserve_load_def lock_def Let_def split: if_splits option.splits)
  have ok: "flight_ok (ms_shutting_down (st_state ?s)) (loads_of ?s) (w_leases w) (w_waiters w) (w_parked w)"
    using w by (simp add: world_ok_def)
  have "ml_followers l \<le> length (w_waiters w)" using flight_okD(2) [OF ok l] by simp
  then have "saturating_add (ml_followers l) 1 = Suc (ml_followers l)" using few by simp
  with flight_follow [OF ok l] w show ?thesis
    by (simp add: world_ok_def store waiter AList.update_conv' distinct_update_keys)
qed

lemma world_ok_park:
  assumes w: "world_ok w" and waiter: "waiter \<in> set (w_waiters w)"
    and run: "poll_load waiter deadline waker at (w_store w) = (Pending, store)"
  shows "world_ok (w\<lparr>w_store := store, w_parked := (waker, waiter) # w_parked w\<rparr>)"
proof -
  let ?s = "w_store w"
  have ok: "flight_ok (ms_shutting_down (st_state ?s)) (loads_of ?s) (w_leases w) (w_waiters w) (w_parked w)"
    using w by (simp add: world_ok_def)
  obtain l where l: "loads_of ?s (tok_key waiter) = Some l" "ml_generation l = tok_generation waiter" "ml_completion l = None"
    and store: "store = ?s\<lparr>st_state := (st_state ?s)\<lparr>ms_loads := AList.update (tok_key waiter)
      (if waker \<in> set (ml_waiters l) then l else l\<lparr>ml_waiters := ml_waiters l @ [waker]\<rparr>) (ms_loads (st_state ?s))\<rparr>\<rparr>"
    using run w by (auto simp: poll_load_def lock_def world_ok_def Let_def split: if_splits option.splits)
  define ws where "ws = (if waker \<in> set (ml_waiters l) then ml_waiters l else ml_waiters l @ [waker])"
  have "(if waker \<in> set (ml_waiters l) then l else l\<lparr>ml_waiters := ml_waiters l @ [waker]\<rparr>) = l\<lparr>ml_waiters := ws\<rparr>"
    by (simp add: ws_def)
  moreover have "flight_ok (ms_shutting_down (st_state ?s)) ((loads_of ?s)(tok_key waiter \<mapsto> l\<lparr>ml_waiters := ws\<rparr>))
      (w_leases w) (w_waiters w) ((waker, waiter) # w_parked w)"
    by (rule flight_park [OF ok l]) (auto simp: ws_def)
  ultimately show ?thesis using w by (simp add: world_ok_def store AList.update_conv' distinct_update_keys)
qed

lemma world_ok_leave:
  assumes w: "world_ok w" and waiter: "waiter \<in> set (w_waiters w)"
  shows "world_ok (w\<lparr>w_store := drop_waiter waiter (w_store w), w_waiters := remove1 waiter (w_waiters w),
    w_parked := remove1 p (w_parked w)\<rparr>)"
proof -
  let ?s = "w_store w"
  have ok: "flight_ok (ms_shutting_down (st_state ?s)) (loads_of ?s) (w_leases w) (w_waiters w) (w_parked w)"
    using w by (simp add: world_ok_def)
  obtain l where l: "loads_of ?s (tok_key waiter) = Some l" "ml_generation l = tok_generation waiter"
    using flight_okD(1) [OF ok waiter] by blast
  have "0 < ml_followers l" using waiters_of_pos [OF waiter] flight_okD(2) [OF ok l(1)] by simp
  then have store: "drop_waiter waiter ?s = ?s\<lparr>st_state := (st_state ?s)\<lparr>ms_loads :=
      (let loads = AList.update (tok_key waiter) (l\<lparr>ml_followers := ml_followers l - 1\<rparr>) (ms_loads (st_state ?s))
       in if ml_completion l \<noteq> None \<and> ml_followers l - 1 = 0 then AList.delete (tok_key waiter) loads else loads)\<rparr>\<rparr>"
    using w l by (simp add: drop_waiter_def release_waiter_def world_ok_def Let_def)
  have "flight_ok (ms_shutting_down (st_state ?s)) (loads_of (drop_waiter waiter ?s)) (w_leases w)
      (remove1 waiter (w_waiters w)) (remove1 p (w_parked w))"
    by (rule flight_leave [OF ok waiter l(1) _ set_remove1_subset])
      (simp add: store AList.update_conv' AList.delete_conv' Let_def)
  then show ?thesis
    using w by (simp add: world_ok_def store distinct_update_keys distinct_delete_keys Let_def)
qed

lemma world_ok_close:
  assumes w: "world_ok w" and run: "memory_shutdown lib (w_store w) = (Inr wakers, store)"
  shows "world_ok (w\<lparr>w_store := store, w_parked := wake wakers (w_parked w)\<rparr>)"
proof -
  let ?s = "w_store w"
  let ?loads = "ms_loads (st_state ?s)"
  let ?closed = "map (\<lambda>(key, load). (key, shutdown_load load)) ?loads"
  have ok: "flight_ok (ms_shutting_down (st_state ?s)) (loads_of ?s) (w_leases w) (w_waiters w) (w_parked w)"
    and keys: "distinct (map fst ?loads)" using w by (simp_all add: world_ok_def)
  have keys': "distinct (map fst ?closed)" using keys by (simp add: comp_def case_prod_beta)
  have wakers: "wakers = concat (map (\<lambda>(_, load). ml_waiters load) ?loads)"
    and store: "ms_loads (st_state store) = filter (\<lambda>(_, load). \<not> \<not> 0 < ml_followers load) ?closed" "\<not> st_poisoned store"
      "ms_shutting_down (st_state store)"
    using run w by (auto simp: memory_shutdown_def lock_def world_ok_def Let_def)
  have "map_of ?closed = (\<lambda>k. map_option shutdown_load (map_of ?loads k))"
    by (induction ?loads) (auto simp: fun_eq_iff map_of_map)
  then have loads: "loads_of store = (\<lambda>k. Option.bind (loads_of ?s k) (\<lambda>l. if 0 < ml_followers l then Some (shutdown_load l) else None))"
    using map_of_filter_hits(2) [OF keys', of "\<lambda>_ load. \<not> 0 < ml_followers load"]
    by (auto simp: store fun_eq_iff shutdown_load_sel split: Option.bind_splits)
  have "flight_ok True (loads_of store) (w_leases w) (w_waiters w) (wake wakers (w_parked w))"
    by (rule flight_shutdown [OF ok loads]) (auto simp: wakers dest: map_of_SomeD)
  moreover have "distinct (map fst (ms_loads (st_state store)))"
    unfolding store using keys' by (simp add: distinct_map_filter)
  ultimately show ?thesis using store by (simp add: world_ok_def)
qed

lemma flight_step_ok:
  assumes "flight_step lib w w'" "world_ok w"
  shows "world_ok w'"
  using assms
proof (induction rule: flight_step.induct)
  case (lead key deadline at w lease store)
  then show ?case by (intro world_ok_lead)
next
  case (follow key deadline at w waiter store)
  then show ?case by (intro world_ok_follow)
next
  case (publish lease w completion wakers store)
  then show ?case by (intro world_ok_complete [of w lease completion "Inr wakers"]) (simp_all add: memory_publish_load_def)
next
  case (abandon lease w failure wakers store)
  then show ?case by (intro world_ok_complete [of w lease "LoadFailed failure" "Inr wakers"]) (simp_all add: memory_abandon_load_def)
next
  case (release lease w wakers store)
  obtain result store' where run: "complete_load (tok_key lease) (tok_generation lease) (LoadFailed LoadAbandoned) (w_store w) = (result, store')"
    by fastforce
  with release have "store' = store" "wakers = (case result of Inr ws \<Rightarrow> ws | Inl _ \<Rightarrow> [])"
    by (auto simp: drop_lease_def split: sum.splits)
  with world_ok_complete [OF release.prems release.hyps(1) run] show ?case by simp
next
  case (park waiter w deadline waker at store)
  then show ?case by (intro world_ok_park)
next
  case (leave waiter w waker)
  then show ?case by (intro world_ok_leave)
next
  case (get w key deadline at now)
  then show ?case by (simp add: world_ok_def record_operations_frame [OF disjI1 [OF refl]])
next
  case (swap w key condition entry deadline at now)
  then show ?case by (simp add: world_ok_def record_operations_frame [OF disjI2 [OF disjI1 [OF refl]]])
next
  case (invalidate w scope deadline at)
  then show ?case by (simp add: world_ok_def record_operations_frame [OF disjI2 [OF disjI2 [OF refl]]])
next
  case (close w wakers store)
  then show ?case by (intro world_ok_close)
qed

lemma reachable_ok: "reachable lib limit w \<Longrightarrow> world_ok w"
  unfolding reachable_def by (induction rule: rtranclp_induct) (auto intro: world_ok_start flight_step_ok)

section \<open>Properties\<close>

text \<open>A world with a leader and a parked follower.\<close>

definition demo_lease :: load_token where
  "demo_lease = \<lparr>tok_key = demo_key 1, tok_generation = 1\<rparr>"

definition demo_world :: "(string, unit, nat option) world" where
  "demo_world =
     (let s1 = snd (memory_reserve_load (demo_key 1) 2000 1000 (with_limit None));
          s2 = snd (memory_reserve_load (demo_key 1) 2000 1001 s1);
          s3 = snd (poll_load demo_lease 2000 7 1002 s2)
      in \<lparr>w_store = s3, w_leases = [demo_lease], w_waiters = [demo_lease], w_parked = [(7, demo_lease)]\<rparr>)"

lemma demo_world_reachable: "reachable text_message_lib None demo_world"
proof -
  let ?s1 = "snd (memory_reserve_load (demo_key 1) 2000 1000 (with_limit None :: (string, unit, nat option) memory_store))"
  let ?s2 = "snd (memory_reserve_load (demo_key 1) 2000 1001 ?s1)"
  let ?s3 = "snd (poll_load demo_lease 2000 7 1002 ?s2)"
  let ?w0 = "start None :: (string, unit, nat option) world"
  let ?w1 = "?w0\<lparr>w_store := ?s1, w_leases := demo_lease # w_leases ?w0\<rparr>"
  let ?w2 = "?w1\<lparr>w_store := ?s2, w_waiters := demo_lease # w_waiters ?w1\<rparr>"
  let ?w3 = "?w2\<lparr>w_store := ?s3, w_parked := (7, demo_lease) # w_parked ?w2\<rparr>"
  have "fst (memory_reserve_load (demo_key 1) 2000 1000 (w_store ?w0)) = Inr (Leader demo_lease)" by code_simp
  then have step1: "flight_step text_message_lib ?w0 ?w1"
    by (intro flight_step.lead [of "demo_key 1" 2000 1000]) (simp add: start_def prod_eq_iff)
  have "fst (memory_reserve_load (demo_key 1) 2000 1001 ?s1) = Inr (Follower demo_lease)" by code_simp
  then have step2: "flight_step text_message_lib ?w1 ?w2"
    by (intro flight_step.follow [of "demo_key 1" 2000 1001]) (simp_all add: start_def prod_eq_iff u64_max_def)
  have "fst (poll_load demo_lease 2000 7 1002 ?s2) = Pending" by code_simp
  then have step3: "flight_step text_message_lib ?w2 ?w3"
    by (intro flight_step.park [of demo_lease _ 2000 7 1002]) (simp_all add: prod_eq_iff)
  have "(flight_step text_message_lib)\<^sup>*\<^sup>* ?w0 ?w1" using step1 by (rule r_into_rtranclp)
  then have "(flight_step text_message_lib)\<^sup>*\<^sup>* ?w0 ?w2" using step2 by (rule rtranclp.rtrancl_into_rtrancl)
  then have "(flight_step text_message_lib)\<^sup>*\<^sup>* ?w0 ?w3" using step3 by (rule rtranclp.rtrancl_into_rtrancl)
  moreover have "demo_world = ?w3" by (simp add: demo_world_def start_def Let_def)
  ultimately show ?thesis by (simp add: reachable_def)
qed

text \<open>
  Property C5: at most one leader loads a key: in every reachable world of an open store the live leases
  have different keys, and a new lease is granted only for a key that has none.
\<close>

theorem single_leader:
  assumes "reachable lib limit w"
    and "memory_reserve_load key deadline at (w_store w) = (Inr (Leader lease), store)"
  shows "tok_key lease = key \<and> distinct (map tok_key (lease # w_leases w)) \<and> key \<notin> tok_key ` set (w_waiters w)"
proof -
  have "world_ok w" by (rule reachable_ok [OF assms(1)])
  moreover have opened: "\<not> ms_shutting_down (st_state (w_store w))" and none: "loads_of (w_store w) key = None"
    and key: "tok_key lease = key"
    using assms(2) by (auto simp: memory_reserve_load_def lock_def Let_def split: if_splits option.splits)
  ultimately have ok: "flight_ok False (loads_of (w_store w)) (w_leases w) (w_waiters w) (w_parked w)"
    by (simp add: world_ok_def)
  have "key \<notin> tok_key ` set (w_leases w)" using flight_okD(6) [OF ok] none by fastforce
  moreover have "key \<notin> tok_key ` set (w_waiters w)" using flight_okD(1) [OF ok] none by fastforce
  ultimately show ?thesis using flight_okD(5) [OF ok] key by simp
qed

theorem single_leader_witness:
  "\<exists>lease store. memory_reserve_load (demo_key 2) 3000 2500 (w_store demo_world) = (Inr (Leader lease), store) \<and>
     tok_key lease \<noteq> tok_key demo_lease"
proof -
  let ?run = "memory_reserve_load (demo_key 2) 3000 2500 (w_store demo_world)"
  have "fst ?run = Inr (Leader \<lparr>tok_key = demo_key 2, tok_generation = 2\<rparr>)" by code_simp
  then have run: "?run = (Inr (Leader \<lparr>tok_key = demo_key 2, tok_generation = 2\<rparr>), snd ?run)" by (simp add: prod_eq_iff)
  moreover have "w_leases demo_world = [demo_lease]" by (simp add: demo_world_def Let_def)
  ultimately show ?thesis using single_leader [OF demo_world_reachable run] by auto
qed

text \<open>
  Property C4: no follower waits for nothing: in every reachable world a live waiter either has its result,
  or the lease it waits for is live and publishing any completion through it succeeds, gives the waiter
  that completion and wakes every task parked on it.
\<close>

theorem follower_is_served:
  assumes "reachable lib limit w" "waiter \<in> set (w_waiters w)"
  shows "(\<exists>c. fst (poll_load waiter deadline waker at (w_store w)) = Ready (Inr c)) \<or>
    waiter \<in> set (w_leases w) \<and>
    (\<forall>c. \<exists>wakers store. memory_publish_load waiter c (w_store w) = (Inr wakers, store) \<and>
       fst (poll_load waiter deadline waker at store) = Ready (Inr c) \<and>
       (\<forall>task. (task, waiter) \<in> set (w_parked w) \<longrightarrow> task \<in> set wakers))"
proof -
  let ?s = "w_store w"
  have w: "world_ok w" by (rule reachable_ok [OF assms(1)])
  then have ok: "flight_ok (ms_shutting_down (st_state ?s)) (loads_of ?s) (w_leases w) (w_waiters w) (w_parked w)"
    and poison: "\<not> st_poisoned ?s" by (simp_all add: world_ok_def)
  obtain l where l: "loads_of ?s (tok_key waiter) = Some l" "ml_generation l = tok_generation waiter"
    using flight_okD(1) [OF ok assms(2)] by blast
  show ?thesis
  proof (cases "ml_completion l")
    case (Some c)
    then show ?thesis using l poison by (simp add: poll_load_def lock_def)
  next
    case None
    have "0 < ml_followers l" using waiters_of_pos [OF assms(2)] flight_okD(2) [OF ok l(1)] by simp
    moreover have "waiter \<in> set (w_leases w)" using flight_okD(3) [OF ok l(1) None] l(2) by (cases waiter) simp
    moreover have "task \<in> set (ml_waiters l)" if "(task, waiter) \<in> set (w_parked w)" for task
      using flight_okD(7) [OF ok that] l by auto
    ultimately show ?thesis
      using l None poison
      by (simp add: memory_publish_load_def complete_load_def poll_load_def lock_def AList.update_conv' Let_def)
  qed
qed

theorem follower_is_served_witness:
  "\<exists>wakers store. memory_publish_load demo_lease LoadMiss (w_store demo_world) = (Inr wakers, store) \<and>
     fst (poll_load demo_lease 2000 7 1500 store) = Ready (Inr LoadMiss) \<and> 7 \<in> set wakers"
proof -
  have "demo_lease \<in> set (w_waiters demo_world)" "(7, demo_lease) \<in> set (w_parked demo_world)"
    by (simp_all add: demo_world_def Let_def)
  moreover have "fst (poll_load demo_lease 2000 7 1500 (w_store demo_world)) = Pending" by code_simp
  then have "\<nexists>c. fst (poll_load demo_lease 2000 7 1500 (w_store demo_world)) = Ready (Inr c)" by simp
  ultimately show ?thesis using follower_is_served [OF demo_world_reachable, of demo_lease 2000 7 1500] by blast
qed

text \<open>
  Loads do not leak: in every reachable world each load is held by a live lease or a live
  waiter, so when the last token is gone the store keeps no load.
\<close>

lemma loads_do_not_leak:
  assumes "reachable lib limit w"
  shows "\<forall>(key, load) \<in> set (ms_loads (st_state (w_store w))). key \<in> tok_key ` set (w_leases w @ w_waiters w)"
proof -
  have w: "world_ok w" by (rule reachable_ok [OF assms(1)])
  then have ok: "flight_ok (ms_shutting_down (st_state (w_store w))) (loads_of (w_store w)) (w_leases w) (w_waiters w) (w_parked w)"
    and keys: "distinct (map fst (ms_loads (st_state (w_store w))))" by (simp_all add: world_ok_def)
  have "key \<in> tok_key ` set (w_leases w @ w_waiters w)" if "(key, load) \<in> set (ms_loads (st_state (w_store w)))" for key load
  proof -
    have load: "loads_of (w_store w) key = Some load" using keys that by simp
    show ?thesis
    proof (cases "ml_completion load")
      case None
      then show ?thesis using flight_okD(3) [OF ok load] by force
    next
      case (Some c)
      then have "filter (\<lambda>t. tok_key t = key) (w_waiters w) \<noteq> []"
        using flight_okD(4) [OF ok load] flight_okD(2) [OF ok load] by auto
      then show ?thesis by (auto simp: filter_empty_conv)
    qed
  qed
  then show ?thesis by auto
qed

lemma loads_do_not_leak_witness:
  "length (ms_loads (st_state (w_store demo_world))) = 1 \<and>
     fst ` set (ms_loads (st_state (w_store demo_world))) \<subseteq> {demo_key 1}"
proof -
  have "length (ms_loads (st_state (w_store demo_world))) = 1" by code_simp
  moreover have "fst ` set (ms_loads (st_state (w_store demo_world))) \<subseteq> {demo_key 1}"
    using loads_do_not_leak [OF demo_world_reachable] by (auto simp: demo_world_def demo_lease_def Let_def)
  ultimately show ?thesis by simp
qed

end
