(* ===== verification/Cache_Port.thy ===== *)
theory Cache_Port
  imports Cache_Flight
begin

text \<open>
  The cache port (trait \<open>CacheStore\<close> of \<open>backend/src/ports/cache.rs\<close>) as a record of operations on a store
  state, as its clients hold a \<open>dyn CacheStore\<close>. The locale \<open>lawful_store\<close> states what a client relies on;
  the in-memory store is interpreted in it.
\<close>

section \<open>Operations\<close>

text \<open>An operation takes the readings of the clock it makes. What a caller of \<open>publish_load\<close>, \<open>abandon_load\<close>
  or of a dropped lease causes besides the new state is the list of wakers.\<close>

record ('st, 'n, 'd, 'e) store_ops =
  op_get :: "cache_key \<Rightarrow> deadline \<Rightarrow> instant \<Rightarrow> instant \<Rightarrow> 'st \<Rightarrow>
    (port_error + ('n, 'd, 'e) cache_record option) \<times> 'st"
  op_swap :: "cache_key \<Rightarrow> cache_condition \<Rightarrow> ('n, 'd, 'e) cache_entry \<Rightarrow> deadline \<Rightarrow> instant \<Rightarrow> instant \<Rightarrow> 'st \<Rightarrow>
    (port_error + cache_write_outcome) \<times> 'st"
  op_reserve :: "cache_key \<Rightarrow> deadline \<Rightarrow> instant \<Rightarrow> 'st \<Rightarrow> (port_error + cache_load_reservation) \<times> 'st"
  op_publish :: "load_token \<Rightarrow> ('n, 'd, 'e) cache_load_completion \<Rightarrow> 'st \<Rightarrow> (port_error + nat list) \<times> 'st"
  op_abandon :: "load_token \<Rightarrow> cache_load_failure \<Rightarrow> 'st \<Rightarrow> (port_error + nat list) \<times> 'st"
  op_drop_lease :: "load_token \<Rightarrow> 'st \<Rightarrow> nat list \<times> 'st"

definition memory_ops ::
  "('n, 'd, 'e, 's) message_lib \<Rightarrow> (('n, 'd, 'e) memory_store, 'n, 'd, 'e) store_ops" where
  "memory_ops lib = \<lparr>op_get = memory_get lib, op_swap = memory_compare_and_swap lib, op_reserve = memory_reserve_load,
     op_publish = memory_publish_load, op_abandon = memory_abandon_load, op_drop_lease = drop_lease\<rparr>"

section \<open>The contract\<close>

locale lawful_store =
  fixes ops :: "('st, 'n, 'd, 'e) store_ops"
    and ok :: "'st \<Rightarrow> bool"
    and opened :: "'st \<Rightarrow> bool"
    and contents :: "'st \<Rightarrow> cache_key \<Rightarrow> ('n, 'd, 'e) cache_record option"
  assumes get_ok: "ok st \<Longrightarrow> ok (snd (op_get ops key deadline at now st))"
    and get_found: "ok st \<Longrightarrow> op_get ops key deadline at now st = (Inr found, st') \<Longrightarrow> found = view now (contents st) key"
    and get_view: "ok st \<Longrightarrow> view now (contents (snd (op_get ops key deadline at now st))) = view now (contents st)"
    and get_answers: "ok st \<Longrightarrow> opened st \<Longrightarrow> \<not> is_expired deadline at \<Longrightarrow>
      \<exists>found. fst (op_get ops key deadline at now st) = Inr found"
    and swap_ok: "ok st \<Longrightarrow> ok (snd (op_swap ops key condition entry deadline at now st))"
    and swap_opened: "op_swap ops key condition entry deadline at now st = (Inr outcome, st') \<Longrightarrow> opened st'"
    and swap_conflict: "ok st \<Longrightarrow> op_swap ops key condition entry deadline at now st = (Inr (Conflict current), st') \<Longrightarrow>
      current = map_option cr_version (view now (contents st) key) \<and> \<not> condition_matches condition current"
    and swap_written: "ok st \<Longrightarrow> op_swap ops key condition entry deadline at now st = (Inr outcome, st') \<Longrightarrow>
      outcome = Inserted v \<or> outcome = Replaced v \<Longrightarrow>
      \<forall>k r. contents st k = Some r \<longrightarrow> ce_inserted_at (cr_entry r) < ce_inserted_at entry \<Longrightarrow>
      contents st' key = Some \<lparr>cr_version = v, cr_entry = entry\<rparr>"
begin

text \<open>A client that wrote the newest entry reads it back until the end of its retention.\<close>

lemma read_after_write:
  assumes "ok st" "op_swap ops key condition entry deadline at now st = (Inr outcome, st')"
    and "outcome = Inserted v \<or> outcome = Replaced v"
    and "\<forall>k r. contents st k = Some r \<longrightarrow> ce_inserted_at (cr_entry r) < ce_inserted_at entry"
    and "\<not> is_expired deadline' at'" "now' < retention_deadline entry"
  shows "fst (op_get ops key deadline' at' now' st') = Inr (Some \<lparr>cr_version = v, cr_entry = entry\<rparr>)"
proof -
  have ok: "ok st'" using swap_ok [OF assms(1), of key condition entry deadline at now] assms(2) by simp
  obtain found where found: "fst (op_get ops key deadline' at' now' st') = Inr found"
    using get_answers [OF ok swap_opened [OF assms(2)] assms(5)] by blast
  have "found = view now' (contents st') key"
    by (rule get_found [OF ok]) (use found in \<open>simp add: prod_eq_iff\<close>)
  then show ?thesis
    using found assms(6) swap_written [OF assms(1-4)] by (simp add: view_def is_visible_def)
qed

end

section \<open>The in-memory store\<close>

abbreviation memory_contents :: "('n, 'd, 'e) memory_store \<Rightarrow> cache_key \<Rightarrow> ('n, 'd, 'e) cache_record option" where
  "memory_contents store \<equiv> map_of (ms_records (st_state store))"

abbreviation memory_opened :: "('n, 'd, 'e) memory_store \<Rightarrow> bool" where
  "memory_opened store \<equiv> \<not> st_poisoned store \<and> \<not> ms_shutting_down (st_state store)"

lemma memory_get_view:
  "view now (memory_contents (snd (memory_get lib key deadline at now store))) = view now (memory_contents store)"
  by (auto simp: memory_get_def lock_def view_delete AList.delete_conv' Let_def split: option.splits)

lemma memory_get_found:
  assumes "memory_get lib key deadline at now store = (Inr found, store')"
  shows "found = view now (memory_contents store) key"
  using assms
  by (cases "memory_contents store key")
    (auto simp: memory_get_def lock_def view_def Let_def split: if_splits)

lemma memory_swap_opened:
  assumes "memory_compare_and_swap lib key condition entry deadline at now store = (Inr outcome, store')"
  shows "memory_opened store'"
proof -
  have "\<not> st_poisoned store" "\<not> ms_shutting_down (st_state store)"
    using assms by (auto simp: memory_compare_and_swap_def lock_def Let_def split: if_splits)
  then show ?thesis by (cases rule: memory_compare_and_swap_cases [OF assms]) simp_all
qed

interpretation memory: lawful_store "memory_ops lib" "store_ok lib" memory_opened memory_contents
  for lib :: "('n, 'd, 'e, 's) message_lib"
proof
  fix store store' :: "('n, 'd, 'e) memory_store" and key condition deadline at now found outcome current v
    and entry :: "('n, 'd, 'e) cache_entry"
  show "store_ok lib store \<Longrightarrow> store_ok lib (snd (op_get (memory_ops lib) key deadline at now store))"
    by (simp add: memory_ops_def memory_get_ok)
  show "store_ok lib store \<Longrightarrow> store_ok lib (snd (op_swap (memory_ops lib) key condition entry deadline at now store))"
    by (simp add: memory_ops_def memory_compare_and_swap_ok)
  show "op_get (memory_ops lib) key deadline at now store = (Inr found, store') \<Longrightarrow> found = view now (memory_contents store) key"
    by (simp add: memory_ops_def memory_get_found)
  show "view now (memory_contents (snd (op_get (memory_ops lib) key deadline at now store))) = view now (memory_contents store)"
    by (simp add: memory_ops_def memory_get_view)
  show "memory_opened store \<Longrightarrow> \<not> is_expired deadline at \<Longrightarrow> \<exists>found. fst (op_get (memory_ops lib) key deadline at now store) = Inr found"
    by (simp add: memory_ops_def memory_get_def lock_def Let_def split: option.splits)
  show "op_swap (memory_ops lib) key condition entry deadline at now store = (Inr outcome, store') \<Longrightarrow> memory_opened store'"
    by (simp add: memory_ops_def memory_swap_opened)
  show "op_swap (memory_ops lib) key condition entry deadline at now store = (Inr (Conflict current), store') \<Longrightarrow>
      current = map_option cr_version (view now (memory_contents store) key) \<and> \<not> condition_matches condition current"
    by (simp add: memory_ops_def) (erule memory_compare_and_swap_cases; auto split: if_splits)
  show "store_ok lib store \<Longrightarrow> op_swap (memory_ops lib) key condition entry deadline at now store = (Inr outcome, store') \<Longrightarrow>
      outcome = Inserted v \<or> outcome = Replaced v \<Longrightarrow>
      \<forall>k r. memory_contents store k = Some r \<longrightarrow> ce_inserted_at (cr_entry r) < ce_inserted_at entry \<Longrightarrow>
      memory_contents store' key = Some \<lparr>cr_version = v, cr_entry = entry\<rparr>"
    by (rule written_record_kept) (auto simp: memory_ops_def store_ok_def state_ok_def dest: map_of_is_SomeI)
qed

end
