(* ===== verification/Byte_Codecs.thy ===== *)
theory Byte_Codecs
  imports Byte_Words Rust_Strings
begin

text \<open>
  Self-delimiting encodings, and byte readers that invert them. The cache key (\<open>cache/key.rs\<close>), the
  record codec (\<open>cache/codec.rs\<close>) and the snapshot (\<open>cache/snapshot.rs\<close>) all write fields one after the
  other; two locales state what each field promises, and the composite encodings are proved from them.
\<close>

section \<open>Encodings that delimit themselves\<close>

locale self_delimiting =
  fixes enc :: "'a \<Rightarrow> byte list" and ok :: "'a \<Rightarrow> bool"
  assumes delimited: "ok x \<Longrightarrow> ok y \<Longrightarrow> enc x @ r = enc y @ s \<Longrightarrow> x = y \<and> r = s"
begin

lemma enc_append_iff: "ok x \<Longrightarrow> ok y \<Longrightarrow> enc x @ r = enc y @ s \<longleftrightarrow> x = y \<and> r = s"
  using delimited by blast

lemma enc_inject: "ok x \<Longrightarrow> ok y \<Longrightarrow> enc x = enc y \<longleftrightarrow> x = y"
  using delimited [of x y "[]" "[]"] by auto

end

lemma word_of_nat_inject_u32:
  assumes "(of_nat m :: 32 word) = of_nat n" "m \<le> u32_max" "n \<le> u32_max"
  shows "m = n"
proof -
  have "unat (of_nat m :: 32 word) = unat (of_nat n :: 32 word)" using assms(1) by simp
  then show ?thesis using assms(2,3) by (simp add: unat_of_nat u32_max_def)
qed

text \<open>The bytes of a word of fixed width, and a sequence behind its 32-bit length.\<close>

definition component_bytes :: "byte list \<Rightarrow> byte list" where
  "component_bytes c = to_be_bytes (of_nat (length c) :: 32 word) @ c"

interpretation u16_bytes: self_delimiting "to_be_bytes :: 16 word \<Rightarrow> byte list" "\<lambda>_. True"
  by unfold_locales (simp add: to_be_bytes_inject)

interpretation u64_bytes: self_delimiting "to_be_bytes :: 64 word \<Rightarrow> byte list" "\<lambda>_. True"
  by unfold_locales (simp add: to_be_bytes_inject)

interpretation component: self_delimiting component_bytes "\<lambda>c. length c \<le> u32_max"
proof
  fix x y r s :: "byte list"
  assume len: "length x \<le> u32_max" "length y \<le> u32_max" and eq: "component_bytes x @ r = component_bytes y @ s"
  have "(of_nat (length x) :: 32 word) = of_nat (length y)" and rest: "x @ r = y @ s"
    using eq by (simp_all add: component_bytes_def to_be_bytes_inject)
  then have "length x = length y"
    using len by (intro word_of_nat_inject_u32) (simp_all add: u32_max_def)
  with rest show "x = y \<and> r = s" by simp
qed

interpretation block32: self_delimiting "\<lambda>b :: byte list. b" "\<lambda>b. length b = 32"
  by unfold_locales simp

end
