(* ===== verification/Cache_Key.thy ===== *)
theory Cache_Key
  imports Cache_Types Byte_Codecs
begin

text \<open>
  The cache key (\<open>backend/src/cache/key.rs\<close>): one byte string made of the namespace, the transport
  compatibility, the key mode, four optional fingerprints and the wire form of the query. The lemmas
  show that the string determines all of them, so two requests share a cache entry only when every
  dimension that may change the answer agrees.
\<close>

definition CACHE_KEY_FORMAT_VERSION :: "16 word" where
  "CACHE_KEY_FORMAT_VERSION = 2"

datatype cache_fingerprint = CacheFingerprint (fingerprint_bytes: "byte list")

datatype cache_key_mode = KeyFast | KeyResolved

record cache_key_dimensions =
  kd_mode :: cache_key_mode
  kd_policy :: "cache_fingerprint option"
  kd_request :: "cache_fingerprint option"
  kd_target :: "cache_fingerprint option"
  kd_ecs :: "cache_fingerprint option"

datatype cache_key_error = QueryEncoding | ComponentTooLarge

definition encode_component :: "byte list \<Rightarrow> byte list \<Rightarrow> cache_key_error + byte list" where
  "encode_component output c =
     (if u32_max < length c then Inl ComponentTooLarge
      else Inr (output @ to_be_bytes (of_nat (length c) :: 32 word) @ c))"

fun encode_key_namespace :: "byte list \<Rightarrow> cache_namespace \<Rightarrow> cache_key_error + byte list" where
  "encode_key_namespace output NamespaceGlobal = Inr (output @ [0])"
| "encode_key_namespace output (NamespaceStrategy strategy) =
     encode_component (output @ [1]) (as_bytes (strategy_id_str strategy))"
| "encode_key_namespace output (NamespaceClientStrategy client_digest strategy) =
     encode_component (output @ [2] @ digest_bytes client_digest) (as_bytes (strategy_id_str strategy))"

fun encode_fingerprint :: "byte list \<Rightarrow> cache_fingerprint option \<Rightarrow> byte list" where
  "encode_fingerprint output (Some f) = output @ [1] @ fingerprint_bytes f"
| "encode_fingerprint output None = output @ [0]"

fun key_mode_byte :: "cache_key_mode \<Rightarrow> byte" where
  "key_mode_byte KeyFast = 0"
| "key_mode_byte KeyResolved = 1"

definition build_cache_key ::
  "('n, 'd, 'e, 's) message_lib \<Rightarrow> cache_namespace \<Rightarrow> ('n, 'd, 'e) canonical_query \<Rightarrow> 64 word \<Rightarrow>
     cache_key_dimensions \<Rightarrow> cache_key_error + cache_key" where
  "build_cache_key lib namespace query transport dimensions =
     and_then (ok_or QueryEncoding (lib_to_vec lib (query_message query))) (\<lambda>query_wire.
     let encoded = as_bytes ''FDCK'' @ to_be_bytes CACHE_KEY_FORMAT_VERSION in
     and_then (encode_key_namespace encoded namespace) (\<lambda>encoded.
     let encoded = encoded @ to_be_bytes transport;
         encoded = encoded @ [key_mode_byte (kd_mode dimensions)];
         encoded = encode_fingerprint encoded (kd_policy dimensions);
         encoded = encode_fingerprint encoded (kd_request dimensions);
         encoded = encode_fingerprint encoded (kd_target dimensions);
         encoded = encode_fingerprint encoded (kd_ecs dimensions)
     in and_then (encode_component encoded query_wire) (\<lambda>encoded.
          Inr \<lparr>ck_namespace = namespace, ck_encoded = encoded, ck_format_version = CACHE_KEY_FORMAT_VERSION\<rparr>)))"

section \<open>The key as a concatenation of fields\<close>

definition fingerprint_ok :: "cache_fingerprint option \<Rightarrow> bool" where
  "fingerprint_ok f \<longleftrightarrow> (case f of Some x \<Rightarrow> length (fingerprint_bytes x) = 32 | None \<Rightarrow> True)"

definition dimensions_ok :: "cache_key_dimensions \<Rightarrow> bool" where
  "dimensions_ok d \<longleftrightarrow> fingerprint_ok (kd_policy d) \<and> fingerprint_ok (kd_request d) \<and>
     fingerprint_ok (kd_target d) \<and> fingerprint_ok (kd_ecs d)"

fun namespace_ok :: "cache_namespace \<Rightarrow> bool" where
  "namespace_ok NamespaceGlobal \<longleftrightarrow> True"
| "namespace_ok (NamespaceStrategy s) \<longleftrightarrow> cache_strategy_id_from_config (strategy_id_str s) = Inr s"
| "namespace_ok (NamespaceClientStrategy c s) \<longleftrightarrow>
     length (digest_bytes c) = 32 \<and> cache_strategy_id_from_config (strategy_id_str s) = Inr s"

definition fingerprint_field :: "cache_fingerprint option \<Rightarrow> byte list" where
  "fingerprint_field f = (case f of Some x \<Rightarrow> 1 # fingerprint_bytes x | None \<Rightarrow> [0])"

fun namespace_field :: "cache_namespace \<Rightarrow> byte list" where
  "namespace_field NamespaceGlobal = [0]"
| "namespace_field (NamespaceStrategy s) = 1 # component_bytes (as_bytes (strategy_id_str s))"
| "namespace_field (NamespaceClientStrategy c s) =
     2 # digest_bytes c @ component_bytes (as_bytes (strategy_id_str s))"

lemma strategy_id_bytes_len:
  "cache_strategy_id_from_config (strategy_id_str s) = Inr s \<Longrightarrow> length (as_bytes (strategy_id_str s)) \<le> u32_max"
  by (auto simp: cache_strategy_id_Inr u32_max_def as_bytes_def)

lemma strategy_id_str_inject [simp]: "strategy_id_str s = strategy_id_str s' \<longleftrightarrow> s = s'"
  by (cases s; cases s') simp

lemma digest_bytes_inject: "digest_bytes c = digest_bytes c' \<longleftrightarrow> c = c'"
  by (cases c; cases c') simp

interpretation fingerprint: self_delimiting fingerprint_field fingerprint_ok
proof
  fix x y r s
  assume "fingerprint_ok x" "fingerprint_ok y" "fingerprint_field x @ r = fingerprint_field y @ s"
  then show "x = y \<and> r = s"
    by (auto simp: fingerprint_ok_def fingerprint_field_def split: option.splits
        intro: cache_fingerprint.expand)
qed

lemma strategy_component:
  assumes "cache_strategy_id_from_config (strategy_id_str s) = Inr s"
    and "cache_strategy_id_from_config (strategy_id_str s') = Inr s'"
  shows "component_bytes (as_bytes (strategy_id_str s)) @ r = component_bytes (as_bytes (strategy_id_str s')) @ r' \<longleftrightarrow>
    s = s' \<and> r = r'"
  using component.enc_append_iff [OF strategy_id_bytes_len [OF assms(1)] strategy_id_bytes_len [OF assms(2)]] by simp

interpretation namespace: self_delimiting namespace_field namespace_ok
proof
  fix x y r s
  assume "namespace_ok x" "namespace_ok y" "namespace_field x @ r = namespace_field y @ s"
  then show "x = y \<and> r = s"
    by (cases x; cases y)
      (auto simp: strategy_component digest_bytes_inject)
qed

lemma encode_component_eq:
  "encode_component output c = (if u32_max < length c then Inl ComponentTooLarge else Inr (output @ component_bytes c))"
  by (simp add: encode_component_def component_bytes_def)

lemma encode_key_namespace_ok:
  "namespace_ok n \<Longrightarrow> encode_key_namespace output n = Inr (output @ namespace_field n)"
  by (cases n) (auto simp: encode_component_eq dest: strategy_id_bytes_len)

lemma encode_fingerprint_eq: "encode_fingerprint output f = output @ fingerprint_field f"
  by (cases f) (simp_all add: fingerprint_field_def)

definition key_fields :: "cache_namespace \<Rightarrow> 64 word \<Rightarrow> cache_key_dimensions \<Rightarrow> byte list \<Rightarrow> byte list" where
  "key_fields namespace transport d wire =
     as_bytes ''FDCK'' @ to_be_bytes CACHE_KEY_FORMAT_VERSION @ namespace_field namespace @ to_be_bytes transport @
     key_mode_byte (kd_mode d) # fingerprint_field (kd_policy d) @ fingerprint_field (kd_request d) @
     fingerprint_field (kd_target d) @ fingerprint_field (kd_ecs d) @ component_bytes wire"

lemma build_cache_key_eq:
  assumes "namespace_ok namespace"
  shows "build_cache_key lib namespace query transport d =
    (case lib_to_vec lib (query_message query) of
       None \<Rightarrow> Inl QueryEncoding
     | Some wire \<Rightarrow>
         if u32_max < length wire then Inl ComponentTooLarge
         else Inr \<lparr>ck_namespace = namespace, ck_encoded = key_fields namespace transport d wire,
                   ck_format_version = CACHE_KEY_FORMAT_VERSION\<rparr>)"
  by (simp add: build_cache_key_def encode_key_namespace_ok [OF assms] encode_fingerprint_eq encode_component_eq
      key_fields_def Let_def split: option.splits)

lemma key_mode_byte_inject: "key_mode_byte m = key_mode_byte m' \<longleftrightarrow> m = m'"
  by (cases m; cases m') simp_all

lemma key_fields_inject:
  assumes "namespace_ok n" "namespace_ok n'" "dimensions_ok d" "dimensions_ok d'"
    and "length w \<le> u32_max" "length w' \<le> u32_max"
  shows "key_fields n t d w = key_fields n' t' d' w' \<longleftrightarrow> n = n' \<and> t = t' \<and> d = d' \<and> w = w'"
  using assms
  by (cases d; cases d')
    (auto simp: key_fields_def dimensions_ok_def namespace.enc_append_iff u64_bytes.enc_append_iff
      fingerprint.enc_append_iff component.enc_inject u64_bytes.enc_inject key_mode_byte_inject)

text \<open>Property C24: the encoded key determines every dimension of the request: two keys are equal as
  bytes exactly when the namespace, the transport compatibility, the key mode, all four fingerprints
  and the wire form of the query are equal.\<close>

theorem cache_key_injective:
  assumes "namespace_ok n" "namespace_ok n'" "dimensions_ok d" "dimensions_ok d'"
    and "build_cache_key lib n q t d = Inr k" "build_cache_key lib n' q' t' d' = Inr k'"
  shows "ck_encoded k = ck_encoded k' \<longleftrightarrow>
    n = n' \<and> t = t' \<and> d = d' \<and> lib_to_vec lib (query_message q) = lib_to_vec lib (query_message q')"
  using assms(5,6)
  by (auto simp: build_cache_key_eq [OF assms(1)] build_cache_key_eq [OF assms(2)] key_fields_inject [OF assms(1-4)]
      split: option.splits if_splits)

definition sample_dimensions :: "cache_key_mode \<Rightarrow> cache_key_dimensions" where
  "sample_dimensions mode = \<lparr>kd_mode = mode, kd_policy = Some (CacheFingerprint (replicate 32 7)),
     kd_request = None, kd_target = None, kd_ecs = None\<rparr>"

theorem cache_key_injective_witness:
  "\<exists>k k'. build_cache_key text_message_lib NamespaceGlobal sample_query 1 (sample_dimensions KeyFast) = Inr k \<and>
     build_cache_key text_message_lib NamespaceGlobal sample_query 1 (sample_dimensions KeyResolved) = Inr k' \<and>
     ck_encoded k \<noteq> ck_encoded k'"
proof -
  have ok: "namespace_ok NamespaceGlobal" "dimensions_ok (sample_dimensions KeyFast)" "dimensions_ok (sample_dimensions KeyResolved)"
    by code_simp+
  obtain k k' where "build_cache_key text_message_lib NamespaceGlobal sample_query 1 (sample_dimensions KeyFast) = Inr k"
    "build_cache_key text_message_lib NamespaceGlobal sample_query 1 (sample_dimensions KeyResolved) = Inr k'"
    by (simp add: build_cache_key_eq text_message_lib_def u32_max_def)
  moreover have "sample_dimensions KeyFast \<noteq> sample_dimensions KeyResolved" by (simp add: sample_dimensions_def)
  ultimately show ?thesis using cache_key_injective [OF ok(1,1,2,3)] by blast
qed

end
