(* ===== verification/Cache_Admission.thy ===== *)
theory Cache_Admission
  imports Cache_Types Resource_Loader
begin

text \<open>
  Admission of a response to the cache (\<open>backend/src/cache/admission.rs\<close>): the checksum of the wire
  form, the lifetime and the stale window of an entry by class of response, and the responses that are
  not cached. The lemmas show what an accepted entry looks like and which responses are refused.
\<close>

record cache_admission_policy =
  ap_failure_ttl :: duration
  ap_optimistic_max_age :: "duration option"
  ap_negative_ttl_max :: "duration option"
  ap_negative_optimistic_max_age :: "duration option"

definition admission_policy_new :: "duration \<Rightarrow> duration option \<Rightarrow> cache_admission_policy" where
  "admission_policy_new failure_ttl optimistic_max_age =
     \<lparr>ap_failure_ttl = failure_ttl, ap_optimistic_max_age = optimistic_max_age,
      ap_negative_ttl_max = None, ap_negative_optimistic_max_age = None\<rparr>"

definition with_negative ::
  "cache_admission_policy \<Rightarrow> duration option \<Rightarrow> duration option \<Rightarrow> cache_admission_policy" where
  "with_negative policy maximum optimistic_max_age =
     policy\<lparr>ap_negative_ttl_max := maximum, ap_negative_optimistic_max_age := optimistic_max_age\<rparr>"

definition admission_policy_default :: cache_admission_policy where
  "admission_policy_default = admission_policy_new (5 * 1000000000) None"

datatype cache_admission_rejection = RejectRefused | RejectOtherResponse | RejectMissingTtl | RejectZeroTtl

datatype cache_admission_error = ResponseEncoding

datatype ('n, 'd, 'e) cache_admission_outcome =
    Accepted "('n, 'd, 'e) cache_entry"
  | Rejected cache_admission_rejection

definition canonical_checksum ::
  "('n, 'd, 'e, 's) message_lib \<Rightarrow> ('n, 'd, 'e) canonical_response \<Rightarrow> cache_admission_error + 64 word" where
  "canonical_checksum lib response =
     and_then (ok_or ResponseEncoding (lib_to_vec lib (resp_message response))) (\<lambda>wire.
       Inr (foldl fnv_step 0xcbf29ce484222325 wire))"

text \<open>\<open>Duration::from_secs(u64::from(seconds))\<close>.\<close>

definition from_secs_u32 :: "32 word \<Rightarrow> duration" where
  "from_secs_u32 s = unat s * 1000000000"

definition negative_ttl ::
  "('n, 'd, 'e) canonical_response \<Rightarrow> duration \<Rightarrow> duration option \<Rightarrow> cache_admission_rejection + duration" where
  "negative_ttl response failure_ttl maximum =
     (let seconds = (case tm_negative_ttl (resp_ttl response) of
            Some s \<Rightarrow> Some s
          | None \<Rightarrow> tm_min_ttl (resp_ttl response));
          ttl = (case map_option from_secs_u32 seconds of
            Some d \<Rightarrow> Some d
          | None \<Rightarrow> if failure_ttl \<noteq> 0 then Some failure_ttl else None)
      in and_then (ok_or RejectMissingTtl ttl) (\<lambda>ttl.
           Inr (case maximum of
                  Some m \<Rightarrow> if m \<noteq> 0 then min ttl m else ttl
                | None \<Rightarrow> ttl)))"

text \<open>The class, the quality and the lifetime of a response; \<open>Inl\<close> is the early return of a class that is
  never cached.\<close>

fun admission_class ::
  "cache_admission_policy \<Rightarrow> ('n, 'd, 'e) canonical_response \<Rightarrow>
     cache_admission_rejection + cache_response_class \<times> cache_quality \<times> (cache_admission_rejection + duration)" where
  "admission_class policy response =
     (case resp_class response of
        ClassPositive \<Rightarrow> Inr (CacheNoError, QualityComplete,
          ok_or RejectMissingTtl (map_option from_secs_u32 (tm_min_ttl (resp_ttl response))))
      | ClassNoData \<Rightarrow> Inr (CacheNoData, QualityNegative,
          negative_ttl response (ap_failure_ttl policy) (ap_negative_ttl_max policy))
      | ClassNxDomain \<Rightarrow> Inr (CacheNxDomain, QualityNegative,
          negative_ttl response (ap_failure_ttl policy) (ap_negative_ttl_max policy))
      | ClassServFail \<Rightarrow> Inr (CacheServFail, QualityFailure, Inr (ap_failure_ttl policy))
      | ClassTruncated \<Rightarrow> Inr (CacheTruncated, QualityFailure, Inr (ap_failure_ttl policy))
      | ClassRefused \<Rightarrow> Inl RejectRefused
      | ClassOther _ \<Rightarrow> Inl RejectOtherResponse)"

definition stale_window :: "cache_admission_policy \<Rightarrow> cache_quality \<Rightarrow> duration option" where
  "stale_window policy quality =
     (case quality of
        QualityComplete \<Rightarrow> ap_optimistic_max_age policy
      | QualityNegative \<Rightarrow> ap_negative_optimistic_max_age policy
      | QualityFailure \<Rightarrow> None)"

definition admit_response ::
  "('n, 'd, 'e, 's) message_lib \<Rightarrow> cache_admission_policy \<Rightarrow> ('n, 'd, 'e) canonical_response \<Rightarrow>
     cache_upstream_provenance \<Rightarrow> instant \<Rightarrow> 64 word \<Rightarrow>
     cache_admission_error + ('n, 'd, 'e) cache_admission_outcome" where
  "admit_response lib policy response upstream now producer_revision =
     (case admission_class policy response of
        Inl rejection \<Rightarrow> Inr (Rejected rejection)
      | Inr (response_class, quality, ttl) \<Rightarrow>
          (case ttl of
             Inl rejection \<Rightarrow> Inr (Rejected rejection)
           | Inr ttl \<Rightarrow>
               if ttl = 0 then Inr (Rejected RejectZeroTtl)
               else
                 let expires_at = (case instant_checked_add now ttl of Some at \<Rightarrow> at | None \<Rightarrow> now);
                     stale_until =
                       (case stale_window policy quality of
                          Some max_age \<Rightarrow> if max_age \<noteq> 0 then instant_checked_add expires_at max_age else None
                        | None \<Rightarrow> None)
                 in and_then (canonical_checksum lib response) (\<lambda>checksum.
                      Inr (Accepted
                        \<lparr>ce_response = response, ce_upstream = upstream, ce_inserted_at = now,
                         ce_expires_at = expires_at, ce_stale_until = stale_until,
                         ce_response_class = response_class, ce_producer_revision = producer_revision,
                         ce_quality = quality, ce_checksum = checksum,
                         ce_format_version = CACHE_ENTRY_FORMAT_VERSION\<rparr>))))"

section \<open>Lifetimes\<close>

text \<open>The lifetime the class of a response gives it, when it is cached at all.\<close>

definition response_lifetime :: "cache_admission_policy \<Rightarrow> ('n, 'd, 'e) canonical_response \<Rightarrow> duration option" where
  "response_lifetime policy response =
     (case admission_class policy response of Inr (_, _, Inr ttl) \<Rightarrow> if ttl = 0 then None else Some ttl | _ \<Rightarrow> None)"

lemma admit_response_accepts:
  "(\<exists>e. admit_response lib policy response upstream now revision = Inr (Accepted e)) \<longleftrightarrow>
     response_lifetime policy response \<noteq> None \<and> lib_to_vec lib (resp_message response) \<noteq> None"
  by (auto simp: admit_response_def response_lifetime_def canonical_checksum_def Let_def
      simp del: admission_class.simps split: sum.splits option.splits)

lemma admit_response_accepted:
  assumes "admit_response lib policy response upstream now revision = Inr (Accepted e)"
  obtains cls quality ttl checksum where
    "admission_class policy response = Inr (cls, quality, Inr ttl)" "ttl \<noteq> 0"
    "canonical_checksum lib response = Inr checksum"
    "e = \<lparr>ce_response = response, ce_upstream = upstream, ce_inserted_at = now,
       ce_expires_at = (case instant_checked_add now ttl of Some at \<Rightarrow> at | None \<Rightarrow> now),
       ce_stale_until =
         (case stale_window policy quality of
            Some max_age \<Rightarrow>
              if max_age \<noteq> 0
              then instant_checked_add (case instant_checked_add now ttl of Some at \<Rightarrow> at | None \<Rightarrow> now) max_age
              else None
          | None \<Rightarrow> None),
       ce_response_class = cls, ce_producer_revision = revision, ce_quality = quality, ce_checksum = checksum,
       ce_format_version = CACHE_ENTRY_FORMAT_VERSION\<rparr>"
  using assms
  by (auto simp: admit_response_def Let_def simp del: admission_class.simps split: sum.splits if_splits)

text \<open>What the stores and the codec rely on in an entry that admission made.\<close>

definition entry_ok :: "('n, 'd, 'e, 's) message_lib \<Rightarrow> ('n, 'd, 'e) cache_entry \<Rightarrow> bool" where
  "entry_ok lib e \<longleftrightarrow>
     ce_inserted_at e \<le> ce_expires_at e \<and>
     (\<forall>u. ce_stale_until e = Some u \<longrightarrow> ce_expires_at e < u) \<and>
     (ce_quality e = QualityFailure \<longrightarrow> ce_stale_until e = None) \<and>
     canonical_checksum lib (ce_response e) = Inr (ce_checksum e) \<and>
     ce_format_version e = CACHE_ENTRY_FORMAT_VERSION"

lemma admit_response_entry_ok:
  assumes "admit_response lib policy response upstream now revision = Inr (Accepted e)"
  shows "entry_ok lib e"
  using assms
proof (rule admit_response_accepted)
  fix cls quality ttl checksum
  assume ttl: "ttl \<noteq> 0" and "canonical_checksum lib response = Inr checksum"
    and "e = \<lparr>ce_response = response, ce_upstream = upstream, ce_inserted_at = now,
       ce_expires_at = (case instant_checked_add now ttl of Some at \<Rightarrow> at | None \<Rightarrow> now),
       ce_stale_until =
         (case stale_window policy quality of
            Some max_age \<Rightarrow>
              if max_age \<noteq> 0
              then instant_checked_add (case instant_checked_add now ttl of Some at \<Rightarrow> at | None \<Rightarrow> now) max_age
              else None
          | None \<Rightarrow> None),
       ce_response_class = cls, ce_producer_revision = revision, ce_quality = quality, ce_checksum = checksum,
       ce_format_version = CACHE_ENTRY_FORMAT_VERSION\<rparr>"
  then show "entry_ok lib e"
    by (auto simp: entry_ok_def instant_checked_add_def stale_window_def split: option.splits if_splits)
qed

text \<open>The lifetime of each class. A positive answer lives as long as its shortest record; a negative one
  as long as its SOA says, at most the configured maximum; a failure as long as configured.\<close>

lemma response_lifetime_bounds:
  assumes "response_lifetime policy response = Some ttl"
  shows "0 < ttl"
    and "resp_class response = ClassPositive \<Longrightarrow>
      \<exists>s. tm_min_ttl (resp_ttl response) = Some s \<and> ttl = unat s * 1000000000"
    and "negative_class (resp_class response) \<Longrightarrow> ap_negative_ttl_max policy = Some m \<Longrightarrow> m \<noteq> 0 \<Longrightarrow> ttl \<le> m"
    and "resp_class response = ClassServFail \<or> resp_class response = ClassTruncated \<Longrightarrow> ttl = ap_failure_ttl policy"
  using assms
  by (auto simp: response_lifetime_def negative_ttl_def negative_class_def ok_or_def from_secs_u32_def Let_def
      split: sum.splits option.splits if_splits response_class.splits)

text \<open>An admitted entry is well formed: it carries the checksum of its own response, expires
  exactly one lifetime after it was made (never before), has a stale window only after its expiry and
  none for a failure, and it is visible to the store for as long as it can be answered.\<close>

lemma admitted_entry_invariant:
  assumes "admit_response lib policy response upstream now revision = Inr (Accepted e)"
  shows "entry_ok lib e \<and> ce_response e = response \<and> ce_inserted_at e = now \<and>
    (\<exists>ttl. response_lifetime policy response = Some ttl \<and>
       ce_expires_at e = (if now + int ttl \<le> instant_max then now + int ttl else now)) \<and>
    ce_expires_at e \<le> retention_deadline e \<and> (\<forall>u. ce_stale_until e = Some u \<longrightarrow> u \<le> retention_deadline e)"
proof -
  have "\<exists>ttl. response_lifetime policy response = Some ttl \<and>
      ce_expires_at e = (if now + int ttl \<le> instant_max then now + int ttl else now)"
    using assms by (rule admit_response_accepted)
      (simp add: response_lifetime_def instant_checked_add_def del: admission_class.simps)
  moreover have "ce_response e = response" "ce_inserted_at e = now"
    using assms by (auto elim: admit_response_accepted)
  ultimately show ?thesis
    using admit_response_entry_ok [OF assms] retention_covers by blast
qed

definition sample_provenance :: cache_upstream_provenance where
  "sample_provenance = \<lparr>prov_target_id = CacheUpstreamId ''up'', prov_used_id = Some (CacheUpstreamId ''up.1'')\<rparr>"

lemma admitted_entry_invariant_witness:
  "\<exists>e. admit_response text_message_lib (admission_policy_new 5000000000 (Some 30000000000)) sample_response sample_provenance
       100000000000 4 = Inr (Accepted e) \<and>
     entry_ok text_message_lib e \<and> ce_expires_at e = 120000000000"
proof -
  let ?policy = "admission_policy_new 5000000000 (Some 30000000000)"
  have life: "response_lifetime ?policy sample_response = Some 20000000000" by code_simp
  then obtain e where e: "admit_response text_message_lib ?policy sample_response sample_provenance 100000000000 4 = Inr (Accepted e)"
    using admit_response_accepts [of text_message_lib ?policy sample_response sample_provenance 100000000000 4]
    by (auto simp: text_message_lib_def)
  from admitted_entry_invariant [OF this] life e show ?thesis by (auto simp: instant_max_def)
qed

end
