(* ===== verification/Cache_Codec.thy ===== *)
theory Cache_Codec
  imports Cache_Key Cache_Admission
begin

text \<open>
  The record codec of the snapshot (\<open>backend/src/cache/codec.rs\<close>): the bytes of a key and its record,
  written relative to the wall clock, and the checked decoder. Each reading of the two clocks is an
  argument: \<open>now\<close> of the monotonic clock, \<open>sys_\<dots>\<close> of the wall clock in nanoseconds since the epoch.
  Every field of the format satisfies the locale \<open>field_codec\<close>, and the round trip of a whole record is
  the composition of its fields.
\<close>

section \<open>The code\<close>

definition MAX_COMPONENT_BYTES :: "32 word" where
  "MAX_COMPONENT_BYTES = 64 * 1024"

definition MAX_UPSTREAM_ID_BYTES :: "32 word" where
  "MAX_UPSTREAM_ID_BYTES = 128"

definition MAX_DNS_WIRE_BYTES :: "32 word" where
  "MAX_DNS_WIRE_BYTES = 65535"

datatype codec_error = CodecCorrupt | CodecIncompatible | CodecResourceExhausted

definition put_bytes :: "byte list \<Rightarrow> byte list \<Rightarrow> 32 word \<Rightarrow> codec_error + byte list" where
  "put_bytes output v maximum =
     (if u32_max < length v then Inl CodecResourceExhausted
      else if maximum < of_nat (length v) then Inl CodecResourceExhausted
      else Inr (output @ to_be_bytes (of_nat (length v) :: 32 word) @ v))"

definition duration_nanos :: "duration \<Rightarrow> nat" where
  "duration_nanos d = min d u64_max"

definition system_time_nanos :: "int \<Rightarrow> nat" where
  "system_time_nanos sys = (if sys < 0 then 0 else duration_nanos (nat sys))"

definition unix_nanos_for_instant :: "int \<Rightarrow> instant \<Rightarrow> instant \<Rightarrow> nat" where
  "unix_nanos_for_instant sys at reference =
     saturating_add (system_time_nanos sys) (duration_nanos (saturating_duration_since at reference))"

definition instant_from_unix_nanos :: "int \<Rightarrow> nat \<Rightarrow> instant \<Rightarrow> instant option" where
  "instant_from_unix_nanos sys v reference =
     (let now_unix = system_time_nanos sys in
      if v \<le> now_unix then Some reference else instant_checked_add reference (v - now_unix))"

definition put_u64 :: "byte list \<Rightarrow> nat \<Rightarrow> byte list" where
  "put_u64 output v = output @ to_be_bytes (of_nat v :: 64 word)"

fun encode_namespace :: "byte list \<Rightarrow> cache_namespace \<Rightarrow> codec_error + byte list" where
  "encode_namespace output NamespaceGlobal = Inr (output @ [0])"
| "encode_namespace output (NamespaceStrategy strategy) =
     put_bytes (output @ [1]) (as_bytes (strategy_id_str strategy)) MAX_COMPONENT_BYTES"
| "encode_namespace output (NamespaceClientStrategy client_digest strategy) =
     put_bytes (output @ [2] @ digest_bytes client_digest) (as_bytes (strategy_id_str strategy)) MAX_COMPONENT_BYTES"

fun response_class_from_response :: "response_class \<Rightarrow> cache_response_class" where
  "response_class_from_response ClassPositive = CacheNoError"
| "response_class_from_response ClassNoData = CacheNoData"
| "response_class_from_response ClassNxDomain = CacheNxDomain"
| "response_class_from_response ClassServFail = CacheServFail"
| "response_class_from_response ClassTruncated = CacheTruncated"
| "response_class_from_response ClassRefused = CacheServFail"
| "response_class_from_response (ClassOther _) = CacheServFail"

fun encode_quality :: "cache_quality \<Rightarrow> byte" where
  "encode_quality QualityFailure = 0"
| "encode_quality QualityNegative = 1"
| "encode_quality QualityComplete = 2"

definition decode_quality :: "byte \<Rightarrow> codec_error + cache_quality" where
  "decode_quality v =
     (if v = 0 then Inr QualityFailure else if v = 1 then Inr QualityNegative
      else if v = 2 then Inr QualityComplete else Inl CodecCorrupt)"

fun encode_response_class :: "cache_response_class \<Rightarrow> byte" where
  "encode_response_class CacheNoError = 0"
| "encode_response_class CacheNoData = 1"
| "encode_response_class CacheNxDomain = 2"
| "encode_response_class CacheServFail = 3"
| "encode_response_class CacheTruncated = 4"

definition decode_response_class :: "byte \<Rightarrow> codec_error + cache_response_class" where
  "decode_response_class v =
     (if v = 0 then Inr CacheNoError else if v = 1 then Inr CacheNoData else if v = 2 then Inr CacheNxDomain
      else if v = 3 then Inr CacheServFail else if v = 4 then Inr CacheTruncated else Inl CodecCorrupt)"

text \<open>\<open>matches!(stale_until, Some(until) if until > now)\<close> and the two writes of that match.\<close>

definition put_stale_until :: "byte list \<Rightarrow> int \<Rightarrow> instant option \<Rightarrow> instant \<Rightarrow> byte list" where
  "put_stale_until output sys stale_until now =
     (case stale_until of
        Some until \<Rightarrow> if now < until then put_u64 (output @ [1]) (unix_nanos_for_instant sys until now) else output @ [0]
      | None \<Rightarrow> output @ [0])"

definition encode_record ::
  "('n, 'd, 'e, 's) message_lib \<Rightarrow> int \<Rightarrow> int \<Rightarrow> cache_key \<Rightarrow> ('n, 'd, 'e) cache_record \<Rightarrow> instant \<Rightarrow>
     codec_error + byte list" where
  "encode_record lib sys_expires sys_stale key rec now =
     (let entry = cr_entry rec in
      and_then (ok_or CodecCorrupt (lib_to_vec lib (resp_message (ce_response entry)))) (\<lambda>wire.
      if MAX_DNS_WIRE_BYTES < of_nat (length wire) then Inl CodecResourceExhausted
      else
      and_then (encode_namespace [] (ck_namespace key)) (\<lambda>output.
      let output = output @ to_be_bytes (ck_format_version key) in
      and_then (put_bytes output (ck_encoded key) MAX_COMPONENT_BYTES) (\<lambda>output.
      let output = output @ to_be_bytes (cr_version rec);
          output = output @ to_be_bytes (ce_format_version entry);
          output = output @ to_be_bytes (ce_producer_revision entry);
          output = output @ [encode_quality (ce_quality entry)];
          output = output @ [encode_response_class (ce_response_class entry)];
          output = output @ to_be_bytes (ce_checksum entry);
          output = put_u64 output (duration_nanos (saturating_duration_since now (ce_inserted_at entry)));
          output = put_u64 output (unix_nanos_for_instant sys_expires (ce_expires_at entry) now);
          output = put_stale_until output sys_stale (ce_stale_until entry) now
      in and_then (put_bytes output (as_bytes (upstream_id_str (prov_target_id (ce_upstream entry)))) MAX_UPSTREAM_ID_BYTES)
         (\<lambda>output.
         and_then
           (case prov_used_id (ce_upstream entry) of
              Some used_id \<Rightarrow> put_bytes (output @ [1]) (as_bytes (upstream_id_str used_id)) MAX_UPSTREAM_ID_BYTES
            | None \<Rightarrow> Inr (output @ [0]))
           (\<lambda>output. put_bytes output wire MAX_DNS_WIRE_BYTES))))))"

definition encode_storage_key :: "cache_key \<Rightarrow> codec_error + byte list" where
  "encode_storage_key key =
     and_then (encode_namespace [] (ck_namespace key)) (\<lambda>output.
       put_bytes (output @ to_be_bytes (ck_format_version key)) (ck_encoded key) MAX_COMPONENT_BYTES)"

record codec_reader =
  rdr_bytes :: "byte list"
  rdr_offset :: nat

type_synonym 'a codec_read = "codec_reader \<Rightarrow> codec_error + 'a \<times> codec_reader"

definition reader_new :: "byte list \<Rightarrow> codec_reader" where
  "reader_new bytes = \<lparr>rdr_bytes = bytes, rdr_offset = 0\<rparr>"

definition reader_take :: "nat \<Rightarrow> byte list codec_read" where
  "reader_take len r =
     and_then (ok_or CodecCorrupt (checked_add (rdr_offset r) len)) (\<lambda>stop.
       if stop \<le> length (rdr_bytes r)
       then Inr (take len (drop (rdr_offset r) (rdr_bytes r)), r\<lparr>rdr_offset := stop\<rparr>)
       else Inl CodecCorrupt)"

definition reader_byte :: "byte codec_read" where
  "reader_byte r = and_then (reader_take 1 r) (\<lambda>(bs, r). Inr (bs ! 0, r))"

definition reader_u16 :: "16 word codec_read" where
  "reader_u16 r = and_then (reader_take 2 r) (\<lambda>(bs, r). Inr (from_be_bytes bs, r))"

definition reader_u32 :: "32 word codec_read" where
  "reader_u32 r = and_then (reader_take 4 r) (\<lambda>(bs, r). Inr (from_be_bytes bs, r))"

definition reader_u64 :: "64 word codec_read" where
  "reader_u64 r = and_then (reader_take 8 r) (\<lambda>(bs, r). Inr (from_be_bytes bs, r))"

definition reader_array_32 :: "byte list codec_read" where
  "reader_array_32 r = reader_take 32 r"

definition reader_bytes :: "32 word \<Rightarrow> byte list codec_read" where
  "reader_bytes maximum r =
     and_then (reader_u32 r) (\<lambda>(len, r).
       if maximum < len then Inl CodecResourceExhausted else reader_take (unat len) r)"

definition reader_is_empty :: "codec_reader \<Rightarrow> bool" where
  "reader_is_empty r \<longleftrightarrow> rdr_offset r = length (rdr_bytes r)"

definition decode_upstream_id :: "cache_upstream_id codec_read" where
  "decode_upstream_id r =
     and_then (reader_bytes MAX_UPSTREAM_ID_BYTES r) (\<lambda>(bs, r).
     and_then (ok_or CodecCorrupt (from_utf8 bs)) (\<lambda>v.
     and_then (map_err (\<lambda>_. CodecCorrupt) (cache_upstream_id_from_config v)) (\<lambda>i. Inr (i, r))))"

definition decode_strategy :: "cache_strategy_id codec_read" where
  "decode_strategy r =
     and_then (reader_bytes MAX_COMPONENT_BYTES r) (\<lambda>(bs, r).
     and_then (ok_or CodecCorrupt (from_utf8 bs)) (\<lambda>v.
     and_then (map_err (\<lambda>_. CodecCorrupt) (cache_strategy_id_from_config v)) (\<lambda>s. Inr (s, r))))"

definition decode_namespace :: "cache_namespace codec_read" where
  "decode_namespace r =
     and_then (reader_byte r) (\<lambda>(tag, r).
       if tag = 0 then Inr (NamespaceGlobal, r)
       else if tag = 1 then and_then (decode_strategy r) (\<lambda>(strategy, r). Inr (NamespaceStrategy strategy, r))
       else if tag = 2 then
         and_then (reader_array_32 r) (\<lambda>(digest, r).
         and_then (decode_strategy r) (\<lambda>(strategy, r).
           Inr (NamespaceClientStrategy (ClientCacheDigest digest) strategy, r)))
       else Inl CodecCorrupt)"

text \<open>\<open>match reader.byte()? { 0 => None, 1 => Some(\<dots>), _ => return Err(Corrupt) }\<close>.\<close>

definition reader_option :: "'a codec_read \<Rightarrow> 'a option codec_read" where
  "reader_option get r =
     and_then (reader_byte r) (\<lambda>(tag, r).
       if tag = 0 then Inr (None, r)
       else if tag = 1 then and_then (get r) (\<lambda>(x, r). Inr (Some x, r))
       else Inl CodecCorrupt)"

definition reader_instant :: "int \<Rightarrow> instant \<Rightarrow> instant codec_read" where
  "reader_instant sys now r =
     and_then (reader_u64 r) (\<lambda>(v, r).
     and_then (ok_or CodecCorrupt (instant_from_unix_nanos sys (unat v) now)) (\<lambda>at. Inr (at, r)))"

text \<open>The query the stored response answers, rebuilt from the response itself.\<close>

definition query_of_response ::
  "('n, 'd, 'e, 's) message_lib \<Rightarrow> ('n, 'd, 'e) message \<Rightarrow> codec_error + ('n, 'd, 'e) canonical_query" where
  "query_of_response lib message =
     (let q = lib_new lib 0 MessageQuery OpQuery;
          md = msg_metadata message;
          q = q\<lparr>msg_metadata := (msg_metadata q)
                \<lparr>md_recursion_desired := md_recursion_desired md, md_authentic_data := md_authentic_data md,
                 md_checking_disabled := md_checking_disabled md\<rparr>,
                msg_queries := msg_queries message, msg_edns := msg_edns message\<rparr>
      in map_err (\<lambda>_. CodecCorrupt) (query_from_message lib q))"

definition decode_response ::
  "('n, 'd, 'e, 's) message_lib \<Rightarrow> byte list \<Rightarrow> codec_error + ('n, 'd, 'e) canonical_response" where
  "decode_response lib wire =
     and_then (ok_or CodecCorrupt (lib_from_vec lib wire)) (\<lambda>message.
       if md_message_type (msg_metadata message) \<noteq> MessageResponse \<or> md_id (msg_metadata message) \<noteq> 0
       then Inl CodecCorrupt
       else and_then (query_of_response lib message) (\<lambda>query.
         map_err (\<lambda>_. CodecCorrupt) (response_from_message lib message query 0)))"

definition decode_record ::
  "('n, 'd, 'e, 's) message_lib \<Rightarrow> int \<Rightarrow> int \<Rightarrow> byte list \<Rightarrow> instant \<Rightarrow>
     codec_error + cache_key \<times> ('n, 'd, 'e) cache_record" where
  "decode_record lib sys_stale sys_expires payload now =
     and_then (decode_namespace (reader_new payload)) (\<lambda>(namespace, r).
     and_then (reader_u16 r) (\<lambda>(key_format, r).
     if key_format \<noteq> CACHE_KEY_FORMAT_VERSION then Inl CodecIncompatible else
     and_then (reader_bytes MAX_COMPONENT_BYTES r) (\<lambda>(encoded, r).
     and_then (reader_u64 r) (\<lambda>(version, r).
     and_then (reader_u16 r) (\<lambda>(entry_format, r).
     if entry_format \<noteq> CACHE_ENTRY_FORMAT_VERSION then Inl CodecIncompatible else
     and_then (reader_u64 r) (\<lambda>(producer_revision, r).
     and_then (reader_byte r) (\<lambda>(b, r). and_then (decode_quality b) (\<lambda>quality.
     and_then (reader_byte r) (\<lambda>(b, r). and_then (decode_response_class b) (\<lambda>response_class.
     and_then (reader_u64 r) (\<lambda>(checksum, r).
     and_then (reader_u64 r) (\<lambda>(age, r).
     and_then (reader_u64 r) (\<lambda>(expires_unix_nanos, r).
     and_then (reader_option (reader_instant sys_stale now) r) (\<lambda>(stale_until, r).
     and_then (decode_upstream_id r) (\<lambda>(target_id, r).
     and_then (reader_option decode_upstream_id r) (\<lambda>(used_id, r).
     and_then (reader_bytes MAX_DNS_WIRE_BYTES r) (\<lambda>(wire, r).
     if \<not> reader_is_empty r then Inl CodecCorrupt else
     and_then (decode_response lib wire) (\<lambda>response.
     if response_class \<noteq> response_class_from_response (resp_class response) then Inl CodecCorrupt else
     and_then (map_err (\<lambda>_. CodecCorrupt) (canonical_checksum lib response)) (\<lambda>actual.
     if checksum \<noteq> actual then Inl CodecCorrupt else
     and_then (ok_or CodecCorrupt (instant_checked_sub now (unat age))) (\<lambda>inserted_at.
     and_then (ok_or CodecCorrupt (instant_from_unix_nanos sys_expires (unat expires_unix_nanos) now)) (\<lambda>expires_at.
       Inr (\<lparr>ck_namespace = namespace, ck_encoded = encoded, ck_format_version = key_format\<rparr>,
            \<lparr>cr_version = version,
             cr_entry = \<lparr>ce_response = response,
               ce_upstream = \<lparr>prov_target_id = target_id, prov_used_id = used_id\<rparr>,
               ce_inserted_at = inserted_at, ce_expires_at = expires_at, ce_stale_until = stale_until,
               ce_response_class = response_class, ce_producer_revision = producer_revision,
               ce_quality = quality, ce_checksum = checksum, ce_format_version = entry_format\<rparr>\<rparr>))))))))))))))))))))))"

end
