(* ===== verification/Cache_Codec_Laws.thy ===== *)
theory Cache_Codec_Laws
  imports Cache_Codec
begin

text \<open>
  The laws of the record codec: every field is read back as it was written (locale \<open>field_codec\<close> and its
  interpretations), hence the whole record is; what the two clocks do to the times of a restored record;
  and that the storage key determines the cache key.
\<close>

section \<open>Fields that read back what was written\<close>

definition reader_from :: "byte list \<Rightarrow> byte list \<Rightarrow> codec_reader" where
  "reader_from pre bs = \<lparr>rdr_bytes = pre @ bs, rdr_offset = length pre\<rparr>"

lemma reader_new_from: "reader_new bs = reader_from [] bs"
  by (simp add: reader_new_def reader_from_def)

lemma reader_is_empty_from [simp]: "reader_is_empty (reader_from pre bs) \<longleftrightarrow> bs = []"
  by (simp add: reader_is_empty_def reader_from_def)

lemma reader_take_from:
  assumes "n = length a" "length pre + (length a + length rest) \<le> u64_max"
  shows "reader_take n (reader_from pre (a @ rest)) = Inr (a, reader_from (pre @ a) rest)"
  using assms by (simp add: reader_take_def reader_from_def checked_add_def)

locale field_codec =
  fixes put :: "'a \<Rightarrow> byte list" and get :: "'a codec_read" and ok :: "'a \<Rightarrow> bool"
  assumes get_put: "ok x \<Longrightarrow> length pre + (length (put x) + length rest) \<le> u64_max \<Longrightarrow>
      get (reader_from pre (put x @ rest)) = Inr (x, reader_from (pre @ put x) rest)"
    and put_bounded: "ok x \<Longrightarrow> length (put x) \<le> u64_max"
begin

lemma put_prefix:
  assumes "ok x" "ok y" "put y = put x @ t"
  shows "x = y"
proof -
  have "get (reader_from [] (put y)) = Inr (y, reader_from (put y) [])"
    using get_put [OF assms(2), of "[]" "[]"] put_bounded [OF assms(2)] by simp
  moreover have "length (put x) + length t \<le> u64_max"
    using put_bounded [OF assms(2)] unfolding assms(3) by simp
  then have "get (reader_from [] (put y)) = Inr (x, reader_from (put x) t)"
    using get_put [OF assms(1), of "[]" t] unfolding assms(3) by simp
  ultimately show ?thesis by (metis Inr_inject prod.inject)
qed

end

text \<open>A field that can be read back delimits itself.\<close>

sublocale field_codec \<subseteq> delim: self_delimiting put ok
proof
  fix x y r s
  assume ok: "ok x" "ok y" and eq: "put x @ r = put y @ s"
  then obtain t where "put y = put x @ t \<or> put x = put y @ t" by (metis append_eq_append_conv2)
  then have "x = y" using put_prefix [OF ok] put_prefix [OF ok(2,1)] by auto
  then show "x = y \<and> r = s" using eq by simp
qed

definition option_field :: "('a \<Rightarrow> byte list) \<Rightarrow> 'a option \<Rightarrow> byte list" where
  "option_field put x = (case x of None \<Rightarrow> [0] | Some v \<Rightarrow> 1 # put v)"

lemma reader_byte_from:
  assumes "length pre + (1 + length rest) \<le> u64_max"
  shows "reader_byte (reader_from pre (b # rest)) = Inr (b, reader_from (pre @ [b]) rest)"
  using assms reader_take_from [of 1 "[b]" pre rest] by (simp add: reader_byte_def)

context field_codec
begin

lemma option_codec: "field_codec (option_field put) (reader_option get) (pred_option (\<lambda>x. ok x \<and> length (put x) < u64_max))"
proof
  fix x and pre rest :: "byte list"
  assume "pred_option (\<lambda>x. ok x \<and> length (put x) < u64_max) x" "length pre + (length (option_field put x) + length rest) \<le> u64_max"
  then show "reader_option get (reader_from pre (option_field put x @ rest)) =
      Inr (x, reader_from (pre @ option_field put x) rest)"
    using get_put [of "the x" "pre @ [1]" rest]
    by (cases x) (simp_all add: option_field_def reader_option_def reader_byte_from)
qed (auto simp: option_field_def u64_max_def split: option.splits)

end

lemma unat_length_u32:
  assumes "length v \<le> unat (m :: 32 word)"
  shows "unat (of_nat (length v) :: 32 word) = length v" "length v \<le> u32_max" "\<not> m < of_nat (length v)"
proof -
  have "length v < 2 ^ 32" using assms unsigned_less [where ?'a = nat and w = m] by simp
  then show "unat (of_nat (length v) :: 32 word) = length v" "length v \<le> u32_max" by (simp_all add: unat_of_nat u32_max_def)
  with assms show "\<not> m < of_nat (length v)" by (simp add: word_less_nat_alt)
qed

interpretation u16_field: field_codec to_be_bytes reader_u16 "\<lambda>_. True"
  by unfold_locales (simp_all add: reader_u16_def reader_take_from from_to_be_bytes u64_max_def)

interpretation u32_field: field_codec to_be_bytes reader_u32 "\<lambda>_. True"
  by unfold_locales (simp_all add: reader_u32_def reader_take_from from_to_be_bytes u64_max_def)

interpretation u64_field: field_codec to_be_bytes reader_u64 "\<lambda>_. True"
  by unfold_locales (simp_all add: reader_u64_def reader_take_from from_to_be_bytes u64_max_def)

lemma component_codec: "field_codec component_bytes (reader_bytes m) (\<lambda>v. length v \<le> unat m)"
proof
  fix v pre rest :: "byte list"
  assume v: "length v \<le> unat m" and total: "length pre + (length (component_bytes v) + length rest) \<le> u64_max"
  note len = unat_length_u32 [OF v]
  have "reader_u32 (reader_from pre (component_bytes v @ rest)) =
      Inr (of_nat (length v), reader_from (pre @ to_be_bytes (of_nat (length v) :: 32 word)) (v @ rest))"
    using u32_field.get_put [of pre "of_nat (length v)" "v @ rest"] total by (simp add: component_bytes_def)
  then show "reader_bytes m (reader_from pre (component_bytes v @ rest)) = Inr (v, reader_from (pre @ component_bytes v) rest)"
    using total len by (simp add: reader_bytes_def reader_take_from component_bytes_def)
next
  fix v :: "byte list"
  assume "length v \<le> unat m"
  from unat_length_u32(2) [OF this] show "length (component_bytes v) \<le> u64_max"
    by (simp add: component_bytes_def u32_max_def u64_max_def)
qed

interpretation key_field: field_codec component_bytes "reader_bytes MAX_COMPONENT_BYTES" "\<lambda>v. length v \<le> unat MAX_COMPONENT_BYTES"
  by (rule component_codec)

interpretation wire_field: field_codec component_bytes "reader_bytes MAX_DNS_WIRE_BYTES" "\<lambda>v. length v \<le> unat MAX_DNS_WIRE_BYTES"
  by (rule component_codec)

interpretation id_field: field_codec component_bytes "reader_bytes MAX_UPSTREAM_ID_BYTES" "\<lambda>v. length v \<le> unat MAX_UPSTREAM_ID_BYTES"
  by (rule component_codec)

lemma identifier_ascii:
  "list_all namespace_char s \<Longrightarrow> str_valid s" "list_all id_char s \<Longrightarrow> str_valid s"
proof -
  have c: "code c < (128 :: nat)" if "id_char c" for c
    using that
    by (auto simp: id_char_def is_ascii_alphanumeric_def is_ascii_upper_def is_ascii_lower_def is_ascii_digit_def)
  then show id: "list_all id_char s \<Longrightarrow> str_valid s"
    by (intro str_valid_ascii) (auto simp: is_ascii_def list_all_iff)
  have "list_all namespace_char s \<Longrightarrow> list_all id_char s"
    by (auto simp: list_all_iff namespace_char_def id_char_def)
  with id show "list_all namespace_char s \<Longrightarrow> str_valid s" by blast
qed

lemma cache_upstream_id_Inr:
  "cache_upstream_id_from_config s = Inr i \<longleftrightarrow> i = CacheUpstreamId s \<and> s \<noteq> [] \<and> length s \<le> 128 \<and> list_all id_char s"
  by (auto simp: cache_upstream_id_from_config_def)

definition strategy_field :: "cache_strategy_id \<Rightarrow> byte list" where
  "strategy_field s = component_bytes (as_bytes (strategy_id_str s))"

definition strategy_ok :: "cache_strategy_id \<Rightarrow> bool" where
  "strategy_ok s \<longleftrightarrow> cache_strategy_id_from_config (strategy_id_str s) = Inr s"

definition upstream_field :: "cache_upstream_id \<Rightarrow> byte list" where
  "upstream_field i = component_bytes (as_bytes (upstream_id_str i))"

definition upstream_ok :: "cache_upstream_id \<Rightarrow> bool" where
  "upstream_ok i \<longleftrightarrow> cache_upstream_id_from_config (upstream_id_str i) = Inr i"

interpretation strategy_codec: field_codec strategy_field decode_strategy strategy_ok
proof
  fix s and pre rest :: "byte list"
  assume ok: "strategy_ok s" and total: "length pre + (length (strategy_field s) + length rest) \<le> u64_max"
  from ok have "length (as_bytes (strategy_id_str s)) \<le> unat MAX_COMPONENT_BYTES"
    by (auto simp: strategy_ok_def cache_strategy_id_Inr MAX_COMPONENT_BYTES_def as_bytes_def)
  from key_field.get_put [OF this, of pre rest] total ok show "decode_strategy (reader_from pre (strategy_field s @ rest)) =
      Inr (s, reader_from (pre @ strategy_field s) rest)"
    by (auto simp: decode_strategy_def strategy_field_def strategy_ok_def from_utf8_as_bytes cache_strategy_id_Inr
        identifier_ascii)
next
  fix s
  assume "strategy_ok s"
  then show "length (strategy_field s) \<le> u64_max"
    by (auto simp: strategy_ok_def strategy_field_def cache_strategy_id_Inr component_bytes_def as_bytes_def u64_max_def)
qed

interpretation upstream_codec: field_codec upstream_field decode_upstream_id upstream_ok
proof
  fix i and pre rest :: "byte list"
  assume ok: "upstream_ok i" and total: "length pre + (length (upstream_field i) + length rest) \<le> u64_max"
  from ok have "length (as_bytes (upstream_id_str i)) \<le> unat MAX_UPSTREAM_ID_BYTES"
    by (auto simp: upstream_ok_def cache_upstream_id_Inr MAX_UPSTREAM_ID_BYTES_def as_bytes_def)
  from id_field.get_put [OF this, of pre rest] total ok show "decode_upstream_id (reader_from pre (upstream_field i @ rest)) =
      Inr (i, reader_from (pre @ upstream_field i) rest)"
    by (auto simp: decode_upstream_id_def upstream_field_def upstream_ok_def from_utf8_as_bytes cache_upstream_id_Inr
        identifier_ascii)
next
  fix i
  assume "upstream_ok i"
  then show "length (upstream_field i) \<le> u64_max"
    by (auto simp: upstream_ok_def upstream_field_def cache_upstream_id_Inr component_bytes_def as_bytes_def u64_max_def)
qed

interpretation used_codec:
  field_codec "option_field upstream_field" "reader_option decode_upstream_id"
    "pred_option (\<lambda>i. upstream_ok i \<and> length (upstream_field i) < u64_max)"
  by (rule upstream_codec.option_codec)

interpretation namespace_codec: field_codec namespace_field decode_namespace namespace_ok
proof
  fix n and pre rest :: "byte list"
  assume "namespace_ok n" "length pre + (length (namespace_field n) + length rest) \<le> u64_max"
  then show "decode_namespace (reader_from pre (namespace_field n @ rest)) =
      Inr (n, reader_from (pre @ namespace_field n) rest)"
    using strategy_codec.get_put [unfolded strategy_field_def strategy_ok_def]
    by (cases n) (simp_all add: decode_namespace_def reader_byte_from reader_array_32_def reader_take_from)
next
  fix n
  assume "namespace_ok n"
  then show "length (namespace_field n) \<le> u64_max"
    by (cases n) (auto simp: cache_strategy_id_Inr component_bytes_def as_bytes_def u64_max_def)
qed

section \<open>Records as sequences of fields\<close>

lemma put_bytes_Inr: "put_bytes output v m = Inr bs \<longleftrightarrow> length v \<le> unat m \<and> bs = output @ component_bytes v"
proof (cases "length v \<le> u32_max")
  case True
  then have "unat (of_nat (length v) :: 32 word) = length v" by (simp add: unat_of_nat u32_max_def)
  then have "m < of_nat (length v) \<longleftrightarrow> unat m < length v" by (simp add: word_less_nat_alt)
  with True show ?thesis by (auto simp: put_bytes_def component_bytes_def)
next
  case False
  then have "unat m < length v" using unsigned_less [where ?'a = nat and w = m] by (simp add: u32_max_def)
  with False show ?thesis by (simp add: put_bytes_def)
qed

lemma encode_namespace_Inr:
  "encode_namespace output n = Inr bs \<Longrightarrow> bs = output @ namespace_field n"
  by (cases n) (auto simp: put_bytes_Inr)

lemma put_option_id_Inr:
  "(case used of Some i \<Rightarrow> put_bytes (output @ [1]) (as_bytes (upstream_id_str i)) MAX_UPSTREAM_ID_BYTES
    | None \<Rightarrow> Inr (output @ [0])) = Inr bs \<Longrightarrow> bs = output @ option_field upstream_field used"
  by (cases used) (auto simp: put_bytes_Inr option_field_def upstream_field_def)

definition stale_word :: "int \<Rightarrow> instant option \<Rightarrow> instant \<Rightarrow> 64 word option" where
  "stale_word sys stale_until now =
     (case stale_until of
        Some until \<Rightarrow> if now < until then Some (of_nat (unix_nanos_for_instant sys until now)) else None
      | None \<Rightarrow> None)"

lemma put_stale_until_eq:
  "put_stale_until output sys stale now = output @ option_field to_be_bytes (stale_word sys stale now)"
  by (auto simp: put_stale_until_def put_u64_def option_field_def stale_word_def split: option.splits)

definition record_fields ::
  "cache_key \<Rightarrow> 64 word \<Rightarrow> ('n, 'd, 'e) cache_entry \<Rightarrow> 64 word \<Rightarrow> 64 word \<Rightarrow> 64 word option \<Rightarrow> byte list \<Rightarrow> byte list" where
  "record_fields key version e age expires stale wire =
     namespace_field (ck_namespace key) @ to_be_bytes (ck_format_version key) @ component_bytes (ck_encoded key) @
     to_be_bytes version @ to_be_bytes (ce_format_version e) @ to_be_bytes (ce_producer_revision e) @
     encode_quality (ce_quality e) # encode_response_class (ce_response_class e) # to_be_bytes (ce_checksum e) @
     to_be_bytes age @ to_be_bytes expires @ option_field to_be_bytes stale @
     upstream_field (prov_target_id (ce_upstream e)) @ option_field upstream_field (prov_used_id (ce_upstream e)) @
     component_bytes wire"

lemma encode_record_fields:
  assumes "encode_record lib sys_e sys_s key rec now = Inr payload"
  obtains wire where "lib_to_vec lib (resp_message (ce_response (cr_entry rec))) = Some wire"
    "length wire \<le> unat MAX_DNS_WIRE_BYTES" "length (ck_encoded key) \<le> unat MAX_COMPONENT_BYTES"
    "payload = record_fields key (cr_version rec) (cr_entry rec)
       (of_nat (duration_nanos (saturating_duration_since now (ce_inserted_at (cr_entry rec)))))
       (of_nat (unix_nanos_for_instant sys_e (ce_expires_at (cr_entry rec)) now))
       (stale_word sys_s (ce_stale_until (cr_entry rec)) now) wire"
proof -
  have [dest!]: "encode_namespace out n = Inr bs \<Longrightarrow> bs = out @ namespace_field n"
    and [dest!]: "(case used of Some i \<Rightarrow> put_bytes (out @ [1]) (as_bytes (upstream_id_str i)) MAX_UPSTREAM_ID_BYTES
      | None \<Rightarrow> Inr (out @ [0])) = Inr bs \<Longrightarrow> bs = out @ option_field upstream_field used" for out n bs used
    by (fact encode_namespace_Inr, fact put_option_id_Inr)
  show thesis
    using assms that
    by (auto simp: encode_record_def Let_def put_bytes_Inr put_stale_until_eq record_fields_def put_u64_def
        upstream_field_def split: if_splits)
qed

section \<open>Decoding\<close>

lemma reader_stale_from:
  assumes "length pre + (length (option_field to_be_bytes (w :: 64 word option)) + length rest) \<le> u64_max"
  shows "reader_option (reader_instant sys now) (reader_from pre (option_field to_be_bytes w @ rest)) =
    (case w of
       None \<Rightarrow> Inr (None, reader_from (pre @ option_field to_be_bytes w) rest)
     | Some v \<Rightarrow> and_then (ok_or CodecCorrupt (instant_from_unix_nanos sys (unat v) now)) (\<lambda>at.
         Inr (Some at, reader_from (pre @ option_field to_be_bytes w) rest)))"
proof (cases w)
  case None
  then show ?thesis using assms by (simp add: option_field_def reader_option_def reader_byte_from)
next
  case (Some v)
  then have "reader_u64 (reader_from (pre @ [1]) (to_be_bytes v @ rest)) =
      Inr (v, reader_from (pre @ option_field to_be_bytes w) rest)"
    using assms u64_field.get_put [of "pre @ [1]" v rest] by (simp add: option_field_def)
  with Some assms show ?thesis
    by (cases "instant_from_unix_nanos sys (unat v) now")
      (simp_all add: option_field_def reader_option_def reader_byte_from reader_instant_def)
qed

lemma decode_quality_encode [simp]: "decode_quality (encode_quality q) = Inr q"
  by (cases q) (simp_all add: decode_quality_def)

lemma decode_response_class_encode [simp]: "decode_response_class (encode_response_class c) = Inr c"
  by (cases c) (simp_all add: decode_response_class_def)

lemma decode_response_ok:
  assumes lib: "message_lib_ok lib" and r: "response_ok lib r" and wire: "lib_from_vec lib wire = Some (resp_message r)"
  shows "decode_response lib wire = Inr r"
proof -
  let ?m = "resp_message r"
  from r obtain question where queries: "msg_queries ?m = [question_to_query question]"
    and question: "question_from_query lib (question_to_query question) = question"
    by (auto simp: response_ok_def)
  have edns: "\<forall>edns. msg_edns ?m = Some edns \<longrightarrow> lib_edns_version lib edns = 0" using r by (simp add: response_ok_def)
  obtain query where query: "query_of_response lib ?m = Inr query" "query_question query = question"
    using edns by (simp add: query_of_response_def Let_def query_from_message_eq [OF lib] lib_new_eq [OF lib]
        plain_metadata_def validate_common_Inr queries question)
  have valid: "validate_common lib ?m MessageResponse = Inr ()" using r edns by (auto simp: response_ok_def validate_common_Inr queries)
  have same: "?m\<lparr>msg_metadata := (msg_metadata ?m)\<lparr>md_id := 0\<rparr>, msg_queries := [question_to_query question]\<rparr> = ?m"
    using r queries by (cases ?m; cases "msg_metadata ?m") (simp add: response_ok_def)
  have "\<lparr>resp_message = ?m, resp_class = classify_response ?m,
      resp_ttl = extract_ttl_metadata ?m (classify_response ?m)\<rparr> = r"
    using r by (cases r) (simp add: response_ok_def)
  moreover have "md_id (msg_metadata ?m) = 0" using r by (simp add: response_ok_def)
  ultimately have "response_from_message lib ?m query 0 = Inr r"
    by (simp add: response_from_message_def Let_def valid same queries question query(2))
  with r query show ?thesis by (simp add: decode_response_def wire response_ok_def)
qed

text \<open>What a record must satisfy to be written and read back; \<open>entry_ok\<close> is what admission establishes.\<close>

definition storable :: "('n, 'd, 'e, 's) message_lib \<Rightarrow> cache_key \<Rightarrow> ('n, 'd, 'e) cache_record \<Rightarrow> bool" where
  "storable lib key rec \<longleftrightarrow>
     namespace_ok (ck_namespace key) \<and> ck_format_version key = CACHE_KEY_FORMAT_VERSION \<and>
     entry_ok lib (cr_entry rec) \<and> response_ok lib (ce_response (cr_entry rec)) \<and>
     ce_response_class (cr_entry rec) = response_class_from_response (resp_class (ce_response (cr_entry rec))) \<and>
     upstream_ok (prov_target_id (ce_upstream (cr_entry rec))) \<and>
     pred_option upstream_ok (prov_used_id (ce_upstream (cr_entry rec)))"

lemma field_lengths:
  "namespace_ok n \<Longrightarrow> length (namespace_field n) \<le> 101"
  "upstream_ok i \<Longrightarrow> length (upstream_field i) \<le> 132"
  "pred_option upstream_ok u \<Longrightarrow> length (option_field upstream_field u) \<le> 133"
  "length (option_field to_be_bytes (w :: 64 word option)) \<le> 9"
proof -
  show id: "upstream_ok i \<Longrightarrow> length (upstream_field i) \<le> 132" for i
    by (auto simp: upstream_ok_def upstream_field_def cache_upstream_id_Inr component_bytes_def as_bytes_def)
  show "namespace_ok n \<Longrightarrow> length (namespace_field n) \<le> 101"
    by (cases n) (auto simp: cache_strategy_id_Inr component_bytes_def as_bytes_def)
  show "pred_option upstream_ok u \<Longrightarrow> length (option_field upstream_field u) \<le> 133"
    using id by (cases u) (auto simp: option_field_def)
  show "length (option_field to_be_bytes (w :: 64 word option)) \<le> 9"
    by (cases w) (auto simp: option_field_def)
qed

lemma upstream_ok_bounded:
  "pred_option upstream_ok u \<Longrightarrow> pred_option (\<lambda>i. upstream_ok i \<and> length (upstream_field i) < u64_max) u"
  using field_lengths(2) by (cases u) (force simp: u64_max_def)+

lemma decode_record_fields:
  assumes lib: "message_lib_ok lib" and rec: "storable lib key rec"
    and wire: "lib_from_vec lib wire = Some (resp_message (ce_response (cr_entry rec)))"
    and len: "length wire \<le> unat MAX_DNS_WIRE_BYTES" "length (ck_encoded key) \<le> unat MAX_COMPONENT_BYTES"
    and inserted: "instant_checked_sub now (unat age) = Some inserted"
    and expires: "instant_from_unix_nanos sys_e (unat expires_word) now = Some expires"
    and stale: "rel_option (\<lambda>w at. instant_from_unix_nanos sys_s (unat w) now = Some at) stale_w stale"
  shows "decode_record lib sys_s sys_e (record_fields key (cr_version rec) (cr_entry rec) age expires_word stale_w wire) now =
    Inr (key, rec\<lparr>cr_entry := (cr_entry rec)
      \<lparr>ce_inserted_at := inserted, ce_expires_at := expires, ce_stale_until := stale\<rparr>\<rparr>)"
proof -
  let ?e = "cr_entry rec"
  have ok: "namespace_ok (ck_namespace key)" "ck_format_version key = CACHE_KEY_FORMAT_VERSION"
    "ce_format_version ?e = CACHE_ENTRY_FORMAT_VERSION" "canonical_checksum lib (ce_response ?e) = Inr (ce_checksum ?e)"
    "ce_response_class ?e = response_class_from_response (resp_class (ce_response ?e))"
    "upstream_ok (prov_target_id (ce_upstream ?e))" "pred_option upstream_ok (prov_used_id (ce_upstream ?e))"
    "response_ok lib (ce_response ?e)"
    using rec by (simp_all add: storable_def entry_ok_def)
  have short: "length (component_bytes wire) \<le> 65539" "length (component_bytes (ck_encoded key)) \<le> 65540"
    using len by (simp_all add: component_bytes_def MAX_DNS_WIRE_BYTES_def MAX_COMPONENT_BYTES_def)
  note lengths = field_lengths(1) [OF ok(1)] field_lengths(2) [OF ok(6)] field_lengths(3) [OF ok(7)]
    field_lengths(4) [of stale_w] short
  note read = namespace_codec.get_put [OF ok(1)] u16_field.get_put [OF TrueI] u64_field.get_put [OF TrueI]
    key_field.get_put [OF len(2)] wire_field.get_put [OF len(1)] upstream_codec.get_put [OF ok(6)]
    used_codec.get_put [OF upstream_ok_bounded [OF ok(7)]] reader_byte_from reader_stale_from
  have last: "reader_bytes MAX_DNS_WIRE_BYTES (reader_from pre (component_bytes wire)) =
      Inr (wire, reader_from (pre @ component_bytes wire) [])" if "length pre + length (component_bytes wire) \<le> u64_max" for pre
    using wire_field.get_put [OF len(1), of pre "[]"] that by simp
  have key: "\<lparr>ck_namespace = ck_namespace key, ck_encoded = ck_encoded key, ck_format_version = CACHE_KEY_FORMAT_VERSION\<rparr> = key"
    using ok(2) by (cases key) simp
  have result: "\<lparr>cr_version = cr_version rec, cr_entry = \<lparr>ce_response = ce_response ?e,
      ce_upstream = \<lparr>prov_target_id = prov_target_id (ce_upstream ?e), prov_used_id = prov_used_id (ce_upstream ?e)\<rparr>,
      ce_inserted_at = i, ce_expires_at = x, ce_stale_until = s, ce_response_class = ce_response_class ?e,
      ce_producer_revision = ce_producer_revision ?e, ce_quality = ce_quality ?e, ce_checksum = ce_checksum ?e,
      ce_format_version = CACHE_ENTRY_FORMAT_VERSION\<rparr>\<rparr> =
      rec\<lparr>cr_entry := ?e\<lparr>ce_inserted_at := i, ce_expires_at := x, ce_stale_until := s\<rparr>\<rparr>" for i x s
    using ok(3) by (cases rec; cases ?e; cases "ce_upstream ?e") simp
  have stale_read: "(case stale_w of None \<Rightarrow> Inr (None, r)
      | Some v \<Rightarrow> and_then (ok_or CodecCorrupt (instant_from_unix_nanos sys_s (unat v) now)) (\<lambda>at. Inr (Some at, r))) =
      Inr (stale, r)" for r :: codec_reader
    using stale by (cases stale_w; cases stale) simp_all
  show ?thesis
    unfolding record_fields_def decode_record_def reader_new_from
    using lengths
    by (simp add: read last stale_read u64_max_def ok(2-4) ok(5) [symmetric] inserted expires
        decode_response_ok [OF lib ok(8) wire] key result)
qed

section \<open>The clocks\<close>

text \<open>The wall clock reads \<open>sys\<close> when the record is written at \<open>now\<close>, and \<open>sys'\<close> when it is read at \<open>now'\<close>
  (an instant of another process). Nothing saturates or leaves the range of an instant.\<close>

definition clocks_ok :: "('n, 'd, 'e) cache_entry \<Rightarrow> int \<Rightarrow> instant \<Rightarrow> int \<Rightarrow> instant \<Rightarrow> bool" where
  "clocks_ok e sys now sys' now' \<longleftrightarrow>
     0 \<le> sys \<and> sys \<le> sys' \<and> sys' \<le> int u64_max \<and> now' \<le> instant_max \<and>
     ce_inserted_at e \<le> now \<and> now - ce_inserted_at e \<le> int u64_max \<and> instant_min \<le> now' - (now - ce_inserted_at e) \<and>
     list_all (\<lambda>at. sys + (at - now) \<le> int u64_max \<and> now' + (at - now) \<le> instant_max)
       (ce_expires_at e # (case ce_stale_until e of None \<Rightarrow> [] | Some u \<Rightarrow> [u]))"

definition restored_at :: "int \<Rightarrow> instant \<Rightarrow> int \<Rightarrow> instant \<Rightarrow> instant \<Rightarrow> instant" where
  "restored_at sys now sys' now' at = now' + max 0 (at - now - (sys' - sys))"

definition restored_entry ::
  "int \<Rightarrow> instant \<Rightarrow> int \<Rightarrow> instant \<Rightarrow> ('n, 'd, 'e) cache_entry \<Rightarrow> ('n, 'd, 'e) cache_entry" where
  "restored_entry sys now sys' now' e =
     e\<lparr>ce_inserted_at := now' - (now - ce_inserted_at e),
       ce_expires_at := restored_at sys now sys' now' (ce_expires_at e),
       ce_stale_until := (case ce_stale_until e of
          Some u \<Rightarrow> if now < u then Some (restored_at sys now sys' now' u) else None | None \<Rightarrow> None)\<rparr>"

lemma unat_u64: "n \<le> u64_max \<Longrightarrow> unat (of_nat n :: 64 word) = n"
  by (simp add: unat_of_nat u64_max_def)

lemma restored_instant:
  assumes "0 \<le> sys" "sys \<le> sys'" "sys' \<le> int u64_max" "sys + (at - now) \<le> int u64_max"
    and "now' \<le> instant_max" "now' + (at - now) \<le> instant_max"
  shows "instant_from_unix_nanos sys' (unat (of_nat (unix_nanos_for_instant sys at now) :: 64 word)) now' =
    Some (restored_at sys now sys' now' at)"
proof -
  have written: "unix_nanos_for_instant sys at now = nat sys + nat (at - now)"
    using assms(1-4) by (auto simp: unix_nanos_for_instant_def system_time_nanos_def duration_nanos_def
        saturating_duration_since_def saturating_add_def)
  have "system_time_nanos sys' = nat sys'"
    using assms(1-3) by (auto simp: system_time_nanos_def duration_nanos_def)
  moreover have "nat sys + nat (at - now) \<le> u64_max" using assms(1-4) by auto
  then have "unat (of_nat (unix_nanos_for_instant sys at now) :: 64 word) = nat sys + nat (at - now)"
    unfolding written by (rule unat_u64)
  ultimately show ?thesis
    using assms by (auto simp: instant_from_unix_nanos_def instant_checked_add_def restored_at_def Let_def)
qed

lemma inserted_instant:
  assumes "clocks_ok e sys now sys' now'"
  shows "instant_checked_sub now' (unat (of_nat (duration_nanos (saturating_duration_since now (ce_inserted_at e))) :: 64 word)) =
    Some (now' - (now - ce_inserted_at e))"
  using assms
  by (auto simp: clocks_ok_def instant_checked_sub_def duration_nanos_def saturating_duration_since_def unat_u64)

section \<open>Payloads are prefix-free\<close>

text \<open>A reader that succeeds does so, with the same value, when more bytes follow.\<close>

definition reader_extend :: "byte list \<Rightarrow> codec_reader \<Rightarrow> codec_reader" where
  "reader_extend extra r = r\<lparr>rdr_bytes := rdr_bytes r @ extra\<rparr>"

definition extends :: "'a codec_read \<Rightarrow> bool" where
  "extends get \<longleftrightarrow> (\<forall>r x r' extra. get r = Inr (x, r') \<longrightarrow> get (reader_extend extra r) = Inr (x, reader_extend extra r'))"

lemma extendsD: "extends get \<Longrightarrow> get r = Inr (x, r') \<Longrightarrow> get (reader_extend extra r) = Inr (x, reader_extend extra r')"
  by (simp add: extends_def)

lemma reader_take_extends: "extends (reader_take n)"
  by (auto simp: extends_def reader_take_def reader_extend_def checked_add_def split: if_splits)

lemma word_reader_extends:
  "extends reader_byte" "extends reader_u16" "extends reader_u32" "extends reader_u64" "extends reader_array_32"
  using extendsD [OF reader_take_extends]
  by (auto simp: extends_def reader_byte_def reader_u16_def reader_u32_def reader_u64_def reader_array_32_def)

lemma reader_bytes_extends: "extends (reader_bytes m)"
  using extendsD [OF reader_take_extends] extendsD [OF word_reader_extends(3)]
  by (auto simp: extends_def reader_bytes_def split: if_splits)

lemma decode_string_extends: "extends decode_upstream_id" "extends decode_strategy"
  using extendsD [OF reader_bytes_extends]
  by (auto simp: extends_def decode_upstream_id_def decode_strategy_def)

lemma extends_combine:
  "extends (\<lambda>r. Inr (x, r))"
  "extends (\<lambda>r. Inl err)"
  "extends get \<Longrightarrow> (\<And>x. extends (f x)) \<Longrightarrow> extends (\<lambda>r. and_then (get r) (\<lambda>(x, r). f x r))"
  "extends get \<Longrightarrow> extends g \<Longrightarrow> extends (\<lambda>r. if c then get r else g r)"
  by (fastforce simp: extends_def)+

lemma decode_namespace_extends: "extends decode_namespace"
  unfolding decode_namespace_def [abs_def] by (intro extends_combine decode_string_extends word_reader_extends)

lemma reader_option_extends: "extends get \<Longrightarrow> extends (reader_option get)"
  unfolding reader_option_def [abs_def] by (intro extends_combine word_reader_extends)

lemma reader_instant_extends: "extends (reader_instant sys now)"
  using extendsD [OF word_reader_extends(4)] by (auto simp: extends_def reader_instant_def)

lemmas extends_rules = decode_namespace_extends word_reader_extends reader_bytes_extends decode_string_extends
  reader_option_extends [OF reader_instant_extends] reader_option_extends [OF decode_string_extends(1)]

lemma not_empty_extend: "reader_is_empty r \<Longrightarrow> extra \<noteq> [] \<Longrightarrow> \<not> reader_is_empty (reader_extend extra r)"
  by (simp add: reader_is_empty_def reader_extend_def)

section \<open>A concrete record\<close>

text \<open>A wire form for answers to one question: the TTLs of the records.\<close>

definition wire_message_lib :: "(string, unit, nat option, nat) message_lib" where
  "wire_message_lib = text_message_lib
     \<lparr>lib_to_vec := (\<lambda>m. Some (concat (map (\<lambda>r. to_be_bytes (rr_ttl r)) (msg_answers m)))),
      lib_from_vec := (\<lambda>bs. Some ((resp_message sample_response)\<lparr>msg_answers :=
        map (\<lambda>i. \<lparr>rr_ttl = from_be_bytes (take 4 (drop (4 * i) bs)), rr_soa_minimum = None, rr_rest = ()\<rparr>)
          [0..<length bs div 4]\<rparr>))\<rparr>"

lemma wire_message_lib_ok: "message_lib_ok wire_message_lib"
  using text_message_lib_ok by (simp add: message_lib_ok_def wire_message_lib_def)

definition sample_key :: cache_key where
  "sample_key = \<lparr>ck_namespace = NamespaceStrategy (CacheStrategyId ''home''), ck_encoded = [1, 2, 3],
     ck_format_version = CACHE_KEY_FORMAT_VERSION\<rparr>"

definition sample_entry :: "(string, unit, nat option) cache_entry" where
  "sample_entry = \<lparr>ce_response = sample_response, ce_upstream = sample_provenance, ce_inserted_at = 100000000000,
     ce_expires_at = 120000000000, ce_stale_until = Some 150000000000, ce_response_class = CacheNoError,
     ce_producer_revision = 4, ce_quality = QualityComplete, ce_checksum = 0xf7377fdf4dc253f7,
     ce_format_version = CACHE_ENTRY_FORMAT_VERSION\<rparr>"

definition sample_record :: "(string, unit, nat option) cache_record" where
  "sample_record = \<lparr>cr_version = 9, cr_entry = sample_entry\<rparr>"

definition sample_payload :: "byte list" where
  "sample_payload =
     (case encode_record wire_message_lib 5000000000000 5000000000000 sample_key sample_record 105000000000 of
        Inr bs \<Rightarrow> bs | Inl _ \<Rightarrow> [])"

lemma sample_entry_admitted:
  "admit_response wire_message_lib (admission_policy_new 5000000000 (Some 30000000000)) sample_response sample_provenance
     100000000000 4 = Inr (Accepted sample_entry)"
  by code_simp

lemma sample_payload_encoded:
  "encode_record wire_message_lib 5000000000000 5000000000000 sample_key sample_record 105000000000 = Inr sample_payload"
  by code_simp

lemma sample_storable: "storable wire_message_lib sample_key sample_record"
proof -
  have "response_ok wire_message_lib sample_response"
    using response_from_message_ok(1) [OF text_message_lib_ok sample_response_parsed]
    by (simp add: response_ok_def wire_message_lib_def question_from_query_def)
  moreover have "entry_ok wire_message_lib sample_entry" by (rule admit_response_entry_ok [OF sample_entry_admitted])
  moreover have "namespace_ok (ck_namespace sample_key)" "upstream_ok (CacheUpstreamId ''up'')" "upstream_ok (CacheUpstreamId ''up.1'')"
    by code_simp+
  ultimately show ?thesis
    by (simp add: storable_def sample_record_def sample_key_def sample_entry_def sample_provenance_def sample_response_def)
qed

lemma decode_encoded_record:
  assumes lib: "message_lib_ok lib" and rec: "storable lib key rec"
    and wire: "Option.bind (lib_to_vec lib (resp_message (ce_response (cr_entry rec)))) (lib_from_vec lib) =
      Some (resp_message (ce_response (cr_entry rec)))"
    and enc: "encode_record lib sys sys key rec now = Inr payload"
    and clocks: "clocks_ok (cr_entry rec) sys now sys' now'"
  shows "decode_record lib sys' sys' payload now' = Inr (key, rec\<lparr>cr_entry := restored_entry sys now sys' now' (cr_entry rec)\<rparr>)"
proof -
  obtain w where w: "lib_to_vec lib (resp_message (ce_response (cr_entry rec))) = Some w"
    "length w \<le> unat MAX_DNS_WIRE_BYTES" "length (ck_encoded key) \<le> unat MAX_COMPONENT_BYTES"
    and payload: "payload = record_fields key (cr_version rec) (cr_entry rec)
       (of_nat (duration_nanos (saturating_duration_since now (ce_inserted_at (cr_entry rec)))))
       (of_nat (unix_nanos_for_instant sys (ce_expires_at (cr_entry rec)) now))
       (stale_word sys (ce_stale_until (cr_entry rec)) now) w"
    using encode_record_fields [OF enc] by metis
  have from_vec: "lib_from_vec lib w = Some (resp_message (ce_response (cr_entry rec)))" using wire w(1) by simp
  have at: "instant_from_unix_nanos sys' (unat (of_nat (unix_nanos_for_instant sys at now) :: 64 word)) now' =
      Some (restored_at sys now sys' now' at)" if "at = ce_expires_at (cr_entry rec) \<or> ce_stale_until (cr_entry rec) = Some at" for at
    using clocks that by (intro restored_instant) (auto simp: clocks_ok_def)
  have "rel_option (\<lambda>w at. instant_from_unix_nanos sys' (unat w) now' = Some at)
      (stale_word sys (ce_stale_until (cr_entry rec)) now)
      (case ce_stale_until (cr_entry rec) of
          Some u \<Rightarrow> if now < u then Some (restored_at sys now sys' now' u) else None | None \<Rightarrow> None)"
    using at by (auto simp: stale_word_def split: option.splits)
  then show ?thesis
    unfolding payload restored_entry_def
    using decode_record_fields [OF lib rec from_vec w(2,3) inserted_instant [OF clocks] at [OF disjI1 [OF refl]]] by simp
qed

section \<open>Properties\<close>

text \<open>
  Property C17: a record written to a snapshot and read back under a later wall clock is the same key,
  version, response, class, quality, producer and provenance; its remaining life, and that of its stale
  window, is what was left minus the time on the wall clock between the two, and never negative.
\<close>

theorem record_roundtrip:
  assumes lib: "message_lib_ok lib" and rec: "storable lib key rec"
    and wire: "Option.bind (lib_to_vec lib (resp_message (ce_response (cr_entry rec)))) (lib_from_vec lib) =
      Some (resp_message (ce_response (cr_entry rec)))"
    and enc: "encode_record lib sys sys key rec now = Inr payload"
    and clocks: "clocks_ok (cr_entry rec) sys now sys' now'"
  shows "decode_record lib sys' sys' payload now' = Inr (key, rec\<lparr>cr_entry := restored_entry sys now sys' now' (cr_entry rec)\<rparr>)"
  by (rule decode_encoded_record [OF assms])

theorem record_roundtrip_witness:
  "decode_record wire_message_lib 5010000000000 5010000000000 sample_payload 3000000000 =
     Inr (sample_key, sample_record\<lparr>cr_entry := sample_entry
       \<lparr>ce_inserted_at := - 2000000000, ce_expires_at := 8000000000, ce_stale_until := Some 38000000000\<rparr>\<rparr>)"
proof -
  have "Option.bind (lib_to_vec wire_message_lib (resp_message (ce_response (cr_entry sample_record)))) (lib_from_vec wire_message_lib) =
      Some (resp_message (ce_response (cr_entry sample_record)))" by code_simp
  moreover have "clocks_ok (cr_entry sample_record) 5000000000000 105000000000 5010000000000 3000000000" by code_simp
  ultimately show ?thesis
    using record_roundtrip [OF wire_message_lib_ok sample_storable _ sample_payload_encoded, of 5010000000000 3000000000]
    by (simp add: restored_entry_def restored_at_def sample_record_def sample_entry_def)
qed

text \<open>
  The decoder accepts a payload only as a whole: when it reads a record, the same payload
  followed by any further bytes is refused as corrupt, so no stored record is a prefix of another one.
\<close>

lemma decode_record_rejects_trailing:
  assumes "decode_record lib sys_s sys_e payload now = Inr result" "extra \<noteq> []"
  shows "decode_record lib sys_s sys_e (payload @ extra) now = Inl CodecCorrupt"
proof -
  have start: "reader_new (payload @ extra) = reader_extend extra (reader_new payload)"
    by (simp add: reader_new_def reader_extend_def)
  show ?thesis
    using assms unfolding decode_record_def start
    by (auto simp: extends_rules [THEN extendsD] not_empty_extend split: if_splits)
qed

lemma decode_record_rejects_trailing_witness:
  "decode_record wire_message_lib 5010000000000 5010000000000 (sample_payload @ [0]) 3000000000 = Inl CodecCorrupt"
proof -
  have "\<not> isl (decode_record wire_message_lib 5010000000000 5010000000000 sample_payload 3000000000)" by code_simp
  then obtain result where "decode_record wire_message_lib 5010000000000 5010000000000 sample_payload 3000000000 = Inr result"
    by (cases "decode_record wire_message_lib 5010000000000 5010000000000 sample_payload 3000000000") simp_all
  from decode_record_rejects_trailing [OF this, of "[0]"] show ?thesis by simp
qed

text \<open>
  The storage key, which identifies a record in a snapshot, determines the cache key:
  namespace, key format and encoded dimensions.
\<close>

lemma storage_key_injective:
  assumes "namespace_ok (ck_namespace k)" "namespace_ok (ck_namespace k')"
    and "encode_storage_key k = Inr bs" "encode_storage_key k' = Inr bs'"
  shows "bs = bs' \<longleftrightarrow> k = k'"
  using assms
  by (cases k; cases k')
    (auto simp: encode_storage_key_def put_bytes_Inr namespace.enc_append_iff u16_bytes.enc_append_iff
      key_field.delim.enc_inject u16_bytes.enc_inject dest!: encode_namespace_Inr)

lemma storage_key_injective_witness:
  "encode_storage_key sample_key \<noteq> encode_storage_key (sample_key\<lparr>ck_encoded := [1, 2]\<rparr>)"
proof -
  have ok: "namespace_ok (ck_namespace sample_key)" "namespace_ok (ck_namespace (sample_key\<lparr>ck_encoded := [1, 2]\<rparr>))"
    by code_simp+
  have "sample_key \<noteq> sample_key\<lparr>ck_encoded := [1, 2]\<rparr>" by code_simp
  moreover have "\<not> isl (encode_storage_key sample_key)" by code_simp
  ultimately show ?thesis using storage_key_injective [OF ok] by (metis sum.collapse(2))
qed

end
