(* ===== verification/Cache_Facade.thy ===== *)
theory Cache_Facade
  imports Cache_Port Cache_Codec_Laws
begin

text \<open>
  The cache facade (\<open>backend/src/cache/service.rs\<close>): lookups by freshness, writes through admission, the
  commit of a single-flight leader and the bound on optimistic refreshes, over any store of the cache port;
  and the client answer built from a fresh record (\<open>backend/src/dns/policy.rs\<close>).
\<close>

section \<open>Options, refresh admission and permits\<close>

record cache_facade_options =
  fo_enabled :: bool
  fo_optimistic_enabled :: bool
  fo_admission :: cache_admission_policy

definition facade_options_default :: cache_facade_options where
  "facade_options_default = \<lparr>fo_enabled = True, fo_optimistic_enabled = False, fo_admission = admission_policy_default\<rparr>"

datatype facade_build_error = ZeroRefreshCapacity

record refresh_admission =
  ra_max_concurrency :: nat
  ra_in_flight :: nat

definition usize_max :: nat where
  "usize_max = u64_max"

definition refresh_admission_new :: "nat option \<Rightarrow> facade_build_error + refresh_admission" where
  "refresh_admission_new capacity =
     (case capacity of
        Some n \<Rightarrow> if n = 0 then Inl ZeroRefreshCapacity else Inr \<lparr>ra_max_concurrency = n, ra_in_flight = 0\<rparr>
      | None \<Rightarrow> Inr \<lparr>ra_max_concurrency = usize_max, ra_in_flight = 0\<rparr>)"

text \<open>\<open>try_acquire\<close> as one step on the counter; that the exchange loop below takes effect as this step is
  proved of its interleavings.\<close>

definition try_acquire :: "refresh_admission \<Rightarrow> bool \<times> refresh_admission" where
  "try_acquire ra =
     (if ra_max_concurrency ra \<le> ra_in_flight ra \<or> ra_in_flight ra = usize_max then (False, ra)
      else (True, ra\<lparr>ra_in_flight := ra_in_flight ra + 1\<rparr>))"

definition drop_refresh_lease :: "refresh_admission \<Rightarrow> refresh_admission" where
  "drop_refresh_lease ra = ra\<lparr>ra_in_flight := ra_in_flight ra - 1\<rparr>"

text \<open>The acquisition as its threads run it: a thread observes the counter and gives up at once when it is
  at the limit; it observes it again whenever the weak exchange fails, which it may do without a reason;
  the exchange succeeds only on the observed value. A holder gives its slot back once, when the last clone
  of its lease is dropped.\<close>

datatype acquirer = Arriving | Observed nat | Holding | Refused | Released

record admission_world =
  aw_admission :: refresh_admission
  aw_acquirers :: "acquirer list"

definition observe :: "refresh_admission \<Rightarrow> acquirer" where
  "observe ra =
     (if ra_max_concurrency ra \<le> ra_in_flight ra \<or> ra_in_flight ra = usize_max then Refused
      else Observed (ra_in_flight ra))"

inductive refresh_step :: "admission_world \<Rightarrow> admission_world \<Rightarrow> bool" where
  arrive: "refresh_step w (w\<lparr>aw_acquirers := aw_acquirers w @ [Arriving]\<rparr>)"
| load: "i < length (aw_acquirers w) \<Longrightarrow> aw_acquirers w ! i = Arriving \<Longrightarrow>
    refresh_step w (w\<lparr>aw_acquirers := (aw_acquirers w)[i := observe (aw_admission w)]\<rparr>)"
| exchange_failed: "i < length (aw_acquirers w) \<Longrightarrow> aw_acquirers w ! i = Observed current \<Longrightarrow>
    refresh_step w (w\<lparr>aw_acquirers := (aw_acquirers w)[i := observe (aw_admission w)]\<rparr>)"
| exchanged: "i < length (aw_acquirers w) \<Longrightarrow> aw_acquirers w ! i = Observed current \<Longrightarrow>
    ra_in_flight (aw_admission w) = current \<Longrightarrow>
    refresh_step w (w\<lparr>aw_admission := (aw_admission w)\<lparr>ra_in_flight := current + 1\<rparr>,
      aw_acquirers := (aw_acquirers w)[i := Holding]\<rparr>)"
| drop: "i < length (aw_acquirers w) \<Longrightarrow> aw_acquirers w ! i = Holding \<Longrightarrow>
    refresh_step w (w\<lparr>aw_admission := drop_refresh_lease (aw_admission w), aw_acquirers := (aw_acquirers w)[i := Released]\<rparr>)"

definition max_concurrency :: "refresh_admission \<Rightarrow> nat option" where
  "max_concurrency ra = (if ra_max_concurrency ra \<noteq> usize_max then Some (ra_max_concurrency ra) else None)"

record refresh_permit =
  rp_key :: cache_key
  rp_version :: "64 word"
  rp_consumed :: bool
  rp_admitted :: bool

definition try_consume :: "refresh_permit \<Rightarrow> bool \<times> refresh_permit" where
  "try_consume permit =
     (if rp_admitted permit \<and> \<not> rp_consumed permit then (True, permit\<lparr>rp_consumed := True\<rparr>) else (False, permit))"

section \<open>Lookups and writes\<close>

datatype ('n, 'd, 'e) cache_lookup =
    LookupDisabled
  | LookupMiss
  | LookupFresh "('n, 'd, 'e) cache_record"
  | LookupStale "('n, 'd, 'e) cache_record" refresh_permit
  | LookupExpired "('n, 'd, 'e) cache_record"
  | LookupStoreUnavailable

datatype facade_error = FacadeAdmission cache_admission_error | FacadeStore port_error

definition lookup_at ::
  "('st, 'n, 'd, 'e) store_ops \<Rightarrow> cache_facade_options \<Rightarrow> cache_key \<Rightarrow> deadline \<Rightarrow> instant \<Rightarrow> instant \<Rightarrow> instant \<Rightarrow>
     refresh_admission \<Rightarrow> 'st \<Rightarrow> (facade_error + ('n, 'd, 'e) cache_lookup) \<times> refresh_admission \<times> 'st" where
  "lookup_at ops options key deadline now at store_now refresh st =
     (if \<not> fo_enabled options then (Inr LookupDisabled, refresh, st)
      else case op_get ops key deadline at store_now st of
          (Inr None, st) \<Rightarrow> (Inr LookupMiss, refresh, st)
        | (Inl err, st) \<Rightarrow>
            if pe_class err = PortUnavailable then (Inr LookupStoreUnavailable, refresh, st)
            else (Inl (FacadeStore err), refresh, st)
        | (Inr (Some rec), st) \<Rightarrow>
            if now < ce_expires_at (cr_entry rec) then (Inr (LookupFresh rec), refresh, st)
            else if fo_optimistic_enabled options \<and>
                (case ce_stale_until (cr_entry rec) of Some stale_until \<Rightarrow> now < stale_until | None \<Rightarrow> False)
            then
              let (admitted, refresh) = try_acquire refresh
              in (Inr (LookupStale rec \<lparr>rp_key = key, rp_version = cr_version rec, rp_consumed = False, rp_admitted = admitted\<rparr>),
                  refresh, st)
            else (Inr (LookupExpired rec), refresh, st))"

record ('n, 'd, 'e) cache_write_request =
  wr_key :: cache_key
  wr_condition :: cache_condition
  wr_response :: "('n, 'd, 'e) canonical_response"
  wr_upstream :: cache_upstream_provenance
  wr_now :: instant
  wr_producer_revision :: "64 word"
  wr_deadline :: deadline

datatype ('n, 'd, 'e) cache_write_result =
    WriteStored cache_write_outcome "('n, 'd, 'e) cache_record option"
  | WriteRejected cache_admission_rejection

definition write_response ::
  "('n, 'd, 'e, 's) message_lib \<Rightarrow> ('st, 'n, 'd, 'e) store_ops \<Rightarrow> cache_facade_options \<Rightarrow>
     ('n, 'd, 'e) cache_write_request \<Rightarrow> instant \<Rightarrow> instant \<Rightarrow> 'st \<Rightarrow>
     (facade_error + ('n, 'd, 'e) cache_write_result) \<times> 'st" where
  "write_response lib ops options request at store_now st =
     (if \<not> fo_enabled options then (Inr (WriteRejected RejectOtherResponse), st)
      else case admit_response lib (fo_admission options) (wr_response request) (wr_upstream request) (wr_now request)
          (wr_producer_revision request) of
          Inl err \<Rightarrow> (Inl (FacadeAdmission err), st)
        | Inr (Rejected rejection) \<Rightarrow> (Inr (WriteRejected rejection), st)
        | Inr (Accepted entry) \<Rightarrow>
            (case op_swap ops (wr_key request) (wr_condition request) entry (wr_deadline request) at store_now st of
               (Inl err, st) \<Rightarrow> (Inl (FacadeStore err), st)
             | (Inr outcome, st) \<Rightarrow>
                 let rec = (case outcome of
                        Inserted version \<Rightarrow> Some \<lparr>cr_version = version, cr_entry = entry\<rparr>
                      | Replaced version \<Rightarrow> Some \<lparr>cr_version = version, cr_entry = entry\<rparr>
                      | Conflict _ \<Rightarrow> None
                      | RejectedQuality \<Rightarrow> None)
                 in (Inr (WriteStored outcome rec), st)))"

datatype cache_commit_outcome = CommitStored | CommitRejected | CommitConflict | CommitUnavailable | CommitDropped

text \<open>The end of a commit: what the leader reports and what it publishes to its followers.\<close>

fun commit_completion ::
  "(facade_error + ('n, 'd, 'e) cache_write_result) \<Rightarrow> instant \<Rightarrow>
     cache_commit_outcome \<times> ('n, 'd, 'e) cache_load_completion" where
  "commit_completion (Inr (WriteStored (Inserted v) (Some rec))) now =
     (if now < ce_expires_at (cr_entry rec) then (CommitStored, LoadReady rec) else (CommitRejected, LoadMiss))"
| "commit_completion (Inr (WriteStored (Replaced v) (Some rec))) now =
     (if now < ce_expires_at (cr_entry rec) then (CommitStored, LoadReady rec) else (CommitRejected, LoadMiss))"
| "commit_completion (Inr (WriteStored (Conflict c) rec)) now = (CommitConflict, LoadMiss)"
| "commit_completion (Inr (WriteStored outcome rec)) now = (CommitRejected, LoadMiss)"
| "commit_completion (Inr (WriteRejected rejection)) now = (CommitRejected, LoadMiss)"
| "commit_completion (Inl err) now = (CommitUnavailable, LoadFailed LoadUnavailable)"

text \<open>\<open>commit\<close>: the clock is read for the deadline, twice in each write, and once for the freshness of the
  written record. A refused publication drops the lease, whose guard is still armed. The addition of the
  timeout to the clock panics on overflow, which is the value \<open>None\<close>.\<close>

definition commit ::
  "('n, 'd, 'e, 's) message_lib \<Rightarrow> ('st, 'n, 'd, 'e) store_ops \<Rightarrow> cache_facade_options \<Rightarrow>
     ('n, 'd, 'e) cache_write_request \<Rightarrow> load_token \<Rightarrow> duration \<Rightarrow> (nat \<Rightarrow> instant) \<Rightarrow> 'st \<Rightarrow>
     (cache_commit_outcome \<times> nat list \<times> 'st) option" where
  "commit lib ops options request lease budget clock st =
     (case instant_checked_add (clock 0) budget of
        None \<Rightarrow> None
      | Some deadline \<Rightarrow> Some (
          let request = request\<lparr>wr_deadline := deadline\<rparr>;
              absent_retry = (case wr_condition request of
                  ConditionVersion _ \<Rightarrow> Some (request\<lparr>wr_condition := ConditionAbsent\<rparr>)
                | ConditionAbsent \<Rightarrow> None);
              (written, st) = write_response lib ops options request (clock 1) (clock 2) st;
              (written, st) =
                (case (written, absent_retry) of
                   (Inr (WriteStored (Conflict None) _), Some retry) \<Rightarrow>
                     write_response lib ops options retry (clock 3) (clock 4) st
                 | _ \<Rightarrow> (written, st));
              (outcome, completion) = commit_completion written (clock 5)
          in case op_publish ops lease completion st of
              (Inr wakers, st) \<Rightarrow> (outcome, wakers, st)
            | (Inl _, st) \<Rightarrow> (let (wakers, st) = op_drop_lease ops lease st in (CommitUnavailable, wakers, st))))"

definition facade_reserve_load ::
  "('st, 'n, 'd, 'e) store_ops \<Rightarrow> cache_facade_options \<Rightarrow> cache_key \<Rightarrow> deadline \<Rightarrow> instant \<Rightarrow> 'st \<Rightarrow>
     (facade_error + cache_load_reservation) \<times> 'st" where
  "facade_reserve_load ops options key deadline at st =
     (if \<not> fo_enabled options
      then (Inl (FacadeStore (port_error_new PortUnavailable ''cache_facade.reserve_load'')), st)
      else let (result, st) = op_reserve ops key deadline at st in (map_err FacadeStore result, st))"

datatype activity_outcome =
    ActivityPending | ActivityInserted | ActivityUpdated | ActivityRejected | ActivityConflict | ActivityFailed
  | ActivitySkipped | ActivityCoalesced | ActivityDropped | ActivityUnrecorded

fun cache_activity_outcome :: "(facade_error + ('n, 'd, 'e) cache_write_result) \<Rightarrow> activity_outcome" where
  "cache_activity_outcome (Inr (WriteStored (Inserted v) rec)) = ActivityInserted"
| "cache_activity_outcome (Inr (WriteStored (Replaced v) rec)) = ActivityUpdated"
| "cache_activity_outcome (Inr (WriteStored (Conflict c) rec)) = ActivityConflict"
| "cache_activity_outcome (Inr result) = ActivityRejected"
| "cache_activity_outcome (Inl err) = ActivityFailed"

fun cache_written_ttl_secs :: "(facade_error + ('n, 'd, 'e) cache_write_result) \<Rightarrow> nat option" where
  "cache_written_ttl_secs (Inr (WriteStored (Inserted v) (Some rec))) =
     Some (saturating_duration_since (ce_expires_at (cr_entry rec)) (ce_inserted_at (cr_entry rec)) div 1000000000)"
| "cache_written_ttl_secs (Inr (WriteStored (Replaced v) (Some rec))) =
     Some (saturating_duration_since (ce_expires_at (cr_entry rec)) (ce_inserted_at (cr_entry rec)) div 1000000000)"
| "cache_written_ttl_secs written = None"

text \<open>The answer built from a fresh record.\<close>

definition fresh_cache_response ::
  "('n, 'd, 'e) cache_record \<Rightarrow> duration option \<Rightarrow> instant \<Rightarrow> ('n, 'd, 'e) canonical_response" where
  "fresh_cache_response rec negative_maximum now =
     (let response = age_ttl (saturating_duration_since now (ce_inserted_at (cr_entry rec))) (ce_response (cr_entry rec)) in
      if is_negative response then
        let remaining = saturating_duration_since (ce_expires_at (cr_entry rec)) now;
            cap = (case negative_maximum of Some m \<Rightarrow> min remaining m | None \<Rightarrow> remaining)
        in cap_negative_ttl cap response
      else response)"

end
