(* ===== verification/Cache_Facade_Laws.thy ===== *)
theory Cache_Facade_Laws
  imports Cache_Facade
begin

text \<open>
  Laws of the cache facade: what a lookup may serve, proved for every lawful store and used on the
  in-memory one; a commit as a run of the single flight; the bound on refreshes under interleaving; and
  the lifetime a client is told for a fresh record.
\<close>

section \<open>Lookups and writes over a lawful store\<close>

text \<open>The record a lookup is based on, and when each answer is given.\<close>

fun lookup_sound ::
  "cache_facade_options \<Rightarrow> cache_key \<Rightarrow> instant \<Rightarrow> ('n, 'd, 'e) cache_record option \<Rightarrow> ('n, 'd, 'e) cache_lookup \<Rightarrow> bool" where
  "lookup_sound options key now seen LookupDisabled \<longleftrightarrow> \<not> fo_enabled options"
| "lookup_sound options key now seen LookupMiss \<longleftrightarrow> fo_enabled options \<and> seen = None"
| "lookup_sound options key now seen (LookupFresh rec) \<longleftrightarrow>
     fo_enabled options \<and> seen = Some rec \<and> now < ce_expires_at (cr_entry rec)"
| "lookup_sound options key now seen (LookupStale rec permit) \<longleftrightarrow>
     fo_enabled options \<and> fo_optimistic_enabled options \<and> seen = Some rec \<and> ce_expires_at (cr_entry rec) \<le> now \<and>
     (case ce_stale_until (cr_entry rec) of Some until \<Rightarrow> now < until | None \<Rightarrow> False) \<and>
     rp_key permit = key \<and> rp_version permit = cr_version rec \<and> \<not> rp_consumed permit"
| "lookup_sound options key now seen (LookupExpired rec) \<longleftrightarrow>
     fo_enabled options \<and> seen = Some rec \<and> ce_expires_at (cr_entry rec) \<le> now \<and>
     (fo_optimistic_enabled options \<longrightarrow>
       (case ce_stale_until (cr_entry rec) of Some until \<Rightarrow> until \<le> now | None \<Rightarrow> True))"
| "lookup_sound options key now seen LookupStoreUnavailable \<longleftrightarrow> fo_enabled options"

context lawful_store
begin

lemma lookup_classifies:
  assumes "ok st" "lookup_at ops options key deadline now at store_now refresh st = (Inr result, refresh', st')"
  shows "ok st' \<and> view store_now (contents st') = view store_now (contents st) \<and>
    lookup_sound options key now (view store_now (contents st) key) result"
proof (cases "fo_enabled options")
  case True
  obtain found st1 where get: "op_get ops key deadline at store_now st = (found, st1)" by fastforce
  have st1: "ok st1" "view store_now (contents st1) = view store_now (contents st)"
    using get_ok [OF assms(1), of key deadline at store_now] get_view [OF assms(1), of store_now key deadline at] get by simp_all
  show ?thesis
  proof (cases found)
    case (Inl err)
    then show ?thesis using assms(2) True get st1 by (auto simp: lookup_at_def split: if_splits)
  next
    case (Inr seen)
    then have "seen = view store_now (contents st) key" using get_found [OF assms(1)] get by blast
    then show ?thesis
      using assms(2) True get st1 Inr
      by (cases seen) (auto simp: lookup_at_def Let_def split: if_splits option.splits prod.splits)
  qed
qed (use assms in \<open>auto simp: lookup_at_def\<close>)

lemma write_stored:
  assumes "write_response lib ops options request at now st = (Inr (WriteStored outcome (Some rec)), st')"
  obtains v where "fo_enabled options" "outcome = Inserted v \<or> outcome = Replaced v" "cr_version rec = v"
    "admit_response lib (fo_admission options) (wr_response request) (wr_upstream request) (wr_now request)
       (wr_producer_revision request) = Inr (Accepted (cr_entry rec))"
    "op_swap ops (wr_key request) (wr_condition request) (cr_entry rec) (wr_deadline request) at now st = (Inr outcome, st')"
  using assms
  by (auto simp: write_response_def Let_def
      split: if_splits sum.splits cache_admission_outcome.splits prod.splits cache_write_outcome.splits)

lemma lookup_after_write:
  assumes "ok st" and wrote: "write_response lib ops options request at now st = (Inr (WriteStored outcome (Some rec)), st')"
    and newest: "\<forall>k r. contents st k = Some r \<longrightarrow> ce_inserted_at (cr_entry r) < wr_now request"
    and "\<not> is_expired deadline' at'" "now' < ce_expires_at (cr_entry rec)" "t < ce_expires_at (cr_entry rec)"
  shows "fst (lookup_at ops options (wr_key request) deadline' t at' now' refresh st') = Inr (LookupFresh rec) \<and>
    ce_response (cr_entry rec) = wr_response request"
proof -
  obtain v where v: "fo_enabled options" "outcome = Inserted v \<or> outcome = Replaced v" "cr_version rec = v"
    and admit: "admit_response lib (fo_admission options) (wr_response request) (wr_upstream request) (wr_now request)
       (wr_producer_revision request) = Inr (Accepted (cr_entry rec))"
    and swap: "op_swap ops (wr_key request) (wr_condition request) (cr_entry rec) (wr_deadline request) at now st = (Inr outcome, st')"
    using wrote by (rule write_stored)
  have entry: "ce_inserted_at (cr_entry rec) = wr_now request" "ce_response (cr_entry rec) = wr_response request"
    using admit by (auto elim: admit_response_accepted)
  have "now' < retention_deadline (cr_entry rec)" using retention_covers(1) [of "cr_entry rec"] assms(5) by linarith
  then have "fst (op_get ops (wr_key request) deadline' at' now' st') = Inr (Some \<lparr>cr_version = v, cr_entry = cr_entry rec\<rparr>)"
    using read_after_write [OF assms(1) swap v(2) _ assms(4)] newest entry(1) by simp
  then have "fst (op_get ops (wr_key request) deadline' at' now' st') = Inr (Some rec)" using v(3) by simp
  then show ?thesis
    using v(1) assms(6) entry(2) by (auto simp: lookup_at_def split: prod.splits)
qed

end

section \<open>A commit as a run of the single flight\<close>

lemma write_response_run:
  "(flight_step lib)\<^sup>*\<^sup>* w (w\<lparr>w_store := snd (write_response lib (memory_ops lib) options request at now (w_store w))\<rparr>)"
proof -
  have "snd (write_response lib (memory_ops lib) options request at now (w_store w)) = w_store w \<or>
    (\<exists>entry. snd (write_response lib (memory_ops lib) options request at now (w_store w)) =
       snd (memory_compare_and_swap lib (wr_key request) (wr_condition request) entry (wr_deadline request) at now (w_store w)))"
    by (auto simp: write_response_def memory_ops_def Let_def
        split: sum.splits cache_admission_outcome.splits prod.splits) (metis snd_conv)+
  then show ?thesis
  proof
    assume "\<exists>entry. snd (write_response lib (memory_ops lib) options request at now (w_store w)) =
       snd (memory_compare_and_swap lib (wr_key request) (wr_condition request) entry (wr_deadline request) at now (w_store w))"
    then have "flight_step lib w (w\<lparr>w_store := snd (write_response lib (memory_ops lib) options request at now (w_store w))\<rparr>)"
      by (metis flight_step.swap)
    then show ?thesis by (rule r_into_rtranclp)
  qed simp
qed

lemma write_response_open:
  "ms_shutting_down (st_state (snd (write_response lib (memory_ops lib) options request at now store))) =
     ms_shutting_down (st_state store)"
proof -
  have "ms_shutting_down (st_state store1) = ms_shutting_down (st_state store)"
    if "memory_compare_and_swap lib key condition entry deadline at now store = (result, store1)"
    for key condition entry deadline result store1
    using record_operations_frame(3) [of store1 lib key deadline at now store condition entry] that by simp
  then show ?thesis
    by (auto simp: write_response_def memory_ops_def Let_def
        split: sum.splits cache_admission_outcome.splits prod.splits)
qed

text \<open>The writes of a commit: the last one decides what is published.\<close>

lemma commit_phases:
  assumes "commit lib (memory_ops lib) options request lease budget clock (w_store w) = Some (outcome, wakers, store)"
  obtains written r at now before st o1 c where
    "write_response lib (memory_ops lib) options r at now before = (written, st)" "wr_response r = wr_response request"
    "(flight_step lib)\<^sup>*\<^sup>* w (w\<lparr>w_store := st\<rparr>)"
    "ms_shutting_down (st_state st) = ms_shutting_down (st_state (w_store w))" "commit_completion written (clock 5) = (o1, c)"
    "(case memory_publish_load lease c st of
        (Inr ws, st') \<Rightarrow> (o1, ws, st')
      | (Inl _, st') \<Rightarrow> (case drop_lease lease st' of (ws, st'') \<Rightarrow> (CommitUnavailable, ws, st''))) = (outcome, wakers, store)"
proof -
  let ?wr = "write_response lib (memory_ops lib) options"
  obtain deadline where deadline: "instant_checked_add (clock 0) budget = Some deadline"
    using assms by (auto simp: commit_def split: option.splits)
  let ?r = "request\<lparr>wr_deadline := deadline\<rparr>"
  obtain w1 s1 where first: "?wr ?r (clock 1) (clock 2) (w_store w) = (w1, s1)" by fastforce
  have run1: "(flight_step lib)\<^sup>*\<^sup>* w (w\<lparr>w_store := s1\<rparr>)" using write_response_run [of lib w options ?r "clock 1" "clock 2"] first by simp
  obtain w2 s2 where second: "?wr (?r\<lparr>wr_condition := ConditionAbsent\<rparr>) (clock 3) (clock 4) s1 = (w2, s2)" by fastforce
  have run2: "(flight_step lib)\<^sup>*\<^sup>* w (w\<lparr>w_store := s2\<rparr>)"
    using run1 write_response_run [of lib "w\<lparr>w_store := s1\<rparr>" options "?r\<lparr>wr_condition := ConditionAbsent\<rparr>" "clock 3" "clock 4"] second
    by simp
  have open1: "ms_shutting_down (st_state s1) = ms_shutting_down (st_state (w_store w))"
    and open2: "ms_shutting_down (st_state s2) = ms_shutting_down (st_state (w_store w))"
    using write_response_open [of lib options ?r "clock 1" "clock 2" "w_store w"] first
      write_response_open [of lib options "?r\<lparr>wr_condition := ConditionAbsent\<rparr>" "clock 3" "clock 4" s1] second by simp_all
  let ?retry = "(\<exists>v. wr_condition request = ConditionVersion v) \<and> (\<exists>x. w1 = Inr (WriteStored (Conflict None) x))"
  let ?fin = "\<lambda>written st. case commit_completion written (clock 5) of (o1, c) \<Rightarrow>
      case memory_publish_load lease c st of
        (Inr ws, st') \<Rightarrow> (o1, ws, st')
      | (Inl _, st') \<Rightarrow> (case drop_lease lease st' of (ws, st'') \<Rightarrow> (CommitUnavailable, ws, st''))"
  have "(if ?retry then ?fin w2 s2 else ?fin w1 s1) = (outcome, wakers, store)"
    using assms deadline first second
    by (auto simp: commit_def memory_ops_def Let_def
        split: cache_condition.splits sum.splits cache_write_result.splits cache_write_outcome.splits option.splits prod.splits)
  then show thesis
  proof (cases ?retry)
    case True
    then show thesis
      using that [OF second _ run2 open2] \<open>(if ?retry then ?fin w2 s2 else ?fin w1 s1) = (outcome, wakers, store)\<close>
      by (cases "commit_completion w2 (clock 5)") simp
  next
    case False
    then have "?fin w1 s1 = (outcome, wakers, store)"
      using \<open>(if ?retry then ?fin w2 s2 else ?fin w1 s1) = (outcome, wakers, store)\<close> by argo
    then show thesis using that [OF first _ run1 open1] by (cases "commit_completion w1 (clock 5)") simp
  qed
qed

lemma publish_open:
  assumes "reachable lib limit w" "lease \<in> set (w_leases w)" "\<not> ms_shutting_down (st_state (w_store w))"
  obtains wakers store where "memory_publish_load lease c (w_store w) = (Inr wakers, store)"
    "lease \<in> set (w_waiters w) \<Longrightarrow> fst (poll_load lease deadline waker at store) = Ready (Inr c)"
proof -
  have w: "world_ok w" by (rule reachable_ok [OF assms(1)])
  then have ok: "flight_ok False (loads_of (w_store w)) (w_leases w) (w_waiters w) (w_parked w)"
    and poison: "\<not> st_poisoned (w_store w)" using assms(3) by (simp_all add: world_ok_def)
  obtain l where l: "loads_of (w_store w) (tok_key lease) = Some l" "ml_generation l = tok_generation lease" "ml_completion l = None"
    using flight_okD(6) [OF ok _ assms(2)] by blast
  obtain wakers store where run: "memory_publish_load lease c (w_store w) = (Inr wakers, store)"
    using l poison by (simp add: memory_publish_load_def complete_load_def lock_def Let_def)
  have "fst (poll_load lease deadline waker at store) = Ready (Inr c)" if "lease \<in> set (w_waiters w)"
  proof -
    have "0 < ml_followers l" using waiters_of_pos [OF that] flight_okD(2) [OF ok l(1)] by simp
    then show ?thesis
      using run l poison
      by (auto simp: memory_publish_load_def complete_load_def poll_load_def lock_def AList.update_conv' Let_def)
  qed
  with run show thesis by (rule that)
qed

text \<open>What a commit publishes for each outcome it reports.\<close>

fun published :: "('n, 'd, 'e) canonical_response \<Rightarrow> instant \<Rightarrow> cache_commit_outcome \<Rightarrow> ('n, 'd, 'e) cache_load_completion \<Rightarrow> bool" where
  "published response now CommitStored c \<longleftrightarrow>
     (\<exists>rec. c = LoadReady rec \<and> ce_response (cr_entry rec) = response \<and> now < ce_expires_at (cr_entry rec))"
| "published response now CommitRejected c \<longleftrightarrow> c = LoadMiss"
| "published response now CommitConflict c \<longleftrightarrow> c = LoadMiss"
| "published response now CommitUnavailable c \<longleftrightarrow> c = LoadFailed LoadUnavailable"
| "published response now CommitDropped c \<longleftrightarrow> False"

lemma write_response_entry:
  assumes "write_response lib ops options r at now st = (Inr (WriteStored outcome (Some rec)), st')"
  shows "ce_response (cr_entry rec) = wr_response r"
  using assms
  by (auto simp: write_response_def Let_def elim: admit_response_accepted
      split: if_splits sum.splits cache_admission_outcome.splits prod.splits cache_write_outcome.splits)

lemma commit_completion_published:
  assumes "write_response lib ops options r at t st = (written, st')" "commit_completion written now = (o1, c)"
  shows "published (wr_response r) now o1 c"
  using assms write_response_entry
  by (cases "(written, now)" rule: commit_completion.cases) (fastforce split: if_splits)+

section \<open>Refresh admission\<close>

lemma observe_refuses: "observe ra = Refused \<longleftrightarrow> try_acquire ra = (False, ra)"
  by (simp add: observe_def try_acquire_def)

definition admission_ok :: "admission_world \<Rightarrow> bool" where
  "admission_ok w \<longleftrightarrow>
     ra_in_flight (aw_admission w) = count_list (aw_acquirers w) Holding \<and>
     ra_in_flight (aw_admission w) \<le> ra_max_concurrency (aw_admission w) \<and>
     ra_in_flight (aw_admission w) \<le> usize_max \<and>
     (\<forall>c. Observed c \<in> set (aw_acquirers w) \<longrightarrow> c < ra_max_concurrency (aw_admission w) \<and> c < usize_max)"

lemma set_update_cases: "z \<in> set (xs[i := y]) \<Longrightarrow> z = y \<or> z \<in> set xs"
  using set_update_subset_insert [of xs i y] by blast

lemma observe_Observed:
  "observe ra = Observed c \<Longrightarrow> ra_in_flight ra \<le> usize_max \<Longrightarrow> c < ra_max_concurrency ra \<and> c < usize_max"
  by (auto simp: observe_def split: if_splits)

lemma observe_not_Holding [simp]: "observe ra \<noteq> Holding"
  by (simp add: observe_def)

lemma refresh_step_ok: "refresh_step w w' \<Longrightarrow> admission_ok w \<Longrightarrow> admission_ok w'"
proof (induction rule: refresh_step.induct)
  case (arrive w)
  then show ?case by (simp add: admission_ok_def)
next
  case (load i w)
  then show ?case
    using count_list_update [of i "aw_acquirers w" "observe (aw_admission w)" Holding] observe_Observed [of "aw_admission w"]
    by (auto simp: admission_ok_def dest!: set_update_cases)
next
  case (exchange_failed i w current)
  then show ?case
    using count_list_update [of i "aw_acquirers w" "observe (aw_admission w)" Holding] observe_Observed [of "aw_admission w"]
    by (auto simp: admission_ok_def dest!: set_update_cases)
next
  case (exchanged i w current)
  then have "Observed current \<in> set (aw_acquirers w)" by (metis nth_mem)
  with exchanged show ?case
    using count_list_update [of i "aw_acquirers w" Holding Holding]
    by (auto simp: admission_ok_def dest!: set_update_cases)
next
  case (drop i w)
  then show ?case
    using count_list_update [of i "aw_acquirers w" Released Holding]
    by (auto simp: admission_ok_def drop_refresh_lease_def dest!: set_update_cases)
qed

definition admission_start :: "refresh_admission \<Rightarrow> admission_world" where
  "admission_start ra = \<lparr>aw_admission = ra, aw_acquirers = []\<rparr>"

lemma admission_start_ok: "refresh_admission_new capacity = Inr ra \<Longrightarrow> admission_ok (admission_start ra)"
  by (auto simp: refresh_admission_new_def admission_start_def admission_ok_def split: option.splits if_splits)

lemma admission_reachable_ok: "refresh_step\<^sup>*\<^sup>* w w' \<Longrightarrow> admission_ok w \<Longrightarrow> admission_ok w'"
  by (induction rule: rtranclp_induct) (auto dest: refresh_step_ok)

lemma refresh_step_limit: "refresh_step\<^sup>*\<^sup>* w w' \<Longrightarrow> ra_max_concurrency (aw_admission w') = ra_max_concurrency (aw_admission w)"
  by (induction rule: rtranclp_induct) (auto simp: drop_refresh_lease_def elim!: refresh_step.cases)

section \<open>A concrete request\<close>

definition demo_options :: cache_facade_options where
  "demo_options = facade_options_default\<lparr>fo_optimistic_enabled := True\<rparr>"

definition demo_request :: "cache_condition \<Rightarrow> (string, unit, nat option) cache_write_request" where
  "demo_request condition = \<lparr>wr_key = demo_key 1, wr_condition = condition, wr_response = sample_response,
     wr_upstream = sample_provenance, wr_now = 3000, wr_producer_revision = 4, wr_deadline = 9000\<rparr>"

definition demo_admission :: refresh_admission where
  "demo_admission = \<lparr>ra_max_concurrency = 1, ra_in_flight = 0\<rparr>"

section \<open>Properties\<close>

text \<open>
  Property C6: a lookup serves only what the store holds, and by its age: fresh strictly before the expiry;
  stale only when optimistic answers are enabled and strictly before the end of the stale window, with a
  permit for exactly that key and version; expired otherwise. It leaves what readers see unchanged.
\<close>

theorem lookup_serves_only_valid:
  assumes "store_ok lib store"
    and "lookup_at (memory_ops lib) options key deadline now at store_now refresh store = (Inr result, refresh', store')"
  shows "store_ok lib store' \<and>
    view store_now (memory_contents store') = view store_now (memory_contents store) \<and>
    lookup_sound options key now (view store_now (memory_contents store) key) result"
  by (rule memory.lookup_classifies [OF assms])

theorem lookup_serves_only_valid_witness:
  "\<exists>rec. fst (lookup_at (memory_ops text_message_lib) demo_options (demo_key 2) 9000 3000 2500 2600 demo_admission demo_store) =
     Inr (LookupFresh rec) \<and> 3000 < ce_expires_at (cr_entry rec)"
proof -
  let ?run = "lookup_at (memory_ops text_message_lib) demo_options (demo_key 2) 9000 3000 2500 2600 demo_admission demo_store"
  have "(case fst ?run of Inr (LookupFresh _) \<Rightarrow> True | _ \<Rightarrow> False)" by code_simp
  then obtain rec refresh' store' where run: "?run = (Inr (LookupFresh rec), refresh', store')"
    by (cases ?run) (auto split: sum.splits cache_lookup.splits)
  from lookup_serves_only_valid [OF demo_store_ok run] run show ?thesis by simp
qed

text \<open>
  Property C39: an answer the facade stored is the answer a later lookup finds: when the write of the newest
  entry was stored, every lookup before its expiry is fresh with that record, which carries the response
  that was written.
\<close>

theorem stored_answer_is_looked_up:
  assumes "store_ok lib store"
    and "write_response lib (memory_ops lib) options request at now store = (Inr (WriteStored outcome (Some rec)), store')"
    and "\<forall>k r. memory_contents store k = Some r \<longrightarrow> ce_inserted_at (cr_entry r) < wr_now request"
    and "\<not> is_expired deadline' at'" "now' < ce_expires_at (cr_entry rec)" "t < ce_expires_at (cr_entry rec)"
  shows "fst (lookup_at (memory_ops lib) options (wr_key request) deadline' t at' now' refresh store') = Inr (LookupFresh rec) \<and>
    ce_response (cr_entry rec) = wr_response request"
  by (rule memory.lookup_after_write [OF assms])

theorem stored_answer_is_looked_up_witness:
  "\<exists>rec. fst (lookup_at (memory_ops text_message_lib) demo_options (demo_key 1) 9000 5000 5000 5000 demo_admission
     (snd (write_response text_message_lib (memory_ops text_message_lib) demo_options (demo_request (ConditionVersion 1)) 3000 3000 demo_store))) =
     Inr (LookupFresh rec) \<and> ce_response (cr_entry rec) = sample_response"
proof -
  let ?run = "write_response text_message_lib (memory_ops text_message_lib) demo_options (demo_request (ConditionVersion 1)) 3000 3000 demo_store"
  have "(case fst ?run of Inr (WriteStored _ (Some rec)) \<Rightarrow> 5000 < ce_expires_at (cr_entry rec) | _ \<Rightarrow> False)" by code_simp
  then obtain outcome rec store' where run: "?run = (Inr (WriteStored outcome (Some rec)), store')"
    and fresh: "5000 < ce_expires_at (cr_entry rec)"
    by (cases ?run) (auto split: sum.splits cache_write_result.splits option.splits)
  have "list_all (\<lambda>(k, r). ce_inserted_at (cr_entry r) < 3000) (ms_records (st_state demo_store))" by code_simp
  then have "\<forall>k r. memory_contents demo_store k = Some r \<longrightarrow> ce_inserted_at (cr_entry r) < wr_now (demo_request (ConditionVersion 1))"
    by (fastforce simp: list_all_iff demo_request_def dest: map_of_SomeD)
  moreover have "wr_key (demo_request c) = demo_key 1" "wr_response (demo_request c) = sample_response" for c
    by (simp_all add: demo_request_def)
  ultimately show ?thesis
    using stored_answer_is_looked_up [OF demo_store_ok run _ _ fresh fresh, of 9000 5000 demo_admission] run
    by (auto simp: is_expired_def)
qed

text \<open>
  Property C1: a commit always ends its load: on an open store it is a run of the single flight that ends
  the lease, and every follower of the load then has a result. The result agrees with the outcome the
  commit reports: the committed answer, still fresh, when it was stored; a miss when it was rejected or in
  conflict; a failure when the store failed.
\<close>

theorem commit_serves_followers:
  assumes "reachable lib limit w" "lease \<in> set (w_leases w)" "\<not> ms_shutting_down (st_state (w_store w))"
    and "commit lib (memory_ops lib) options request lease budget clock (w_store w) = Some (outcome, wakers, store)"
  shows "reachable lib limit (w\<lparr>w_store := store, w_leases := remove1 lease (w_leases w), w_parked := wake wakers (w_parked w)\<rparr>) \<and>
    (\<exists>c. published (wr_response request) (clock 5) outcome c \<and>
      (lease \<in> set (w_waiters w) \<longrightarrow> fst (poll_load lease deadline waker at store) = Ready (Inr c)))"
proof -
  obtain written r a n before st o1 c where
    wrote: "write_response lib (memory_ops lib) options r a n before = (written, st)" "wr_response r = wr_response request"
    and run: "(flight_step lib)\<^sup>*\<^sup>* w (w\<lparr>w_store := st\<rparr>)"
    and opened: "ms_shutting_down (st_state st) = ms_shutting_down (st_state (w_store w))"
    and completion: "commit_completion written (clock 5) = (o1, c)"
    and finish: "(case memory_publish_load lease c st of
        (Inr ws, st') \<Rightarrow> (o1, ws, st')
      | (Inl _, st') \<Rightarrow> (case drop_lease lease st' of (ws, st'') \<Rightarrow> (CommitUnavailable, ws, st''))) = (outcome, wakers, store)"
    using assms(4) by (rule commit_phases)
  let ?w = "w\<lparr>w_store := st\<rparr>"
  have reach: "reachable lib limit ?w" using assms(1) run unfolding reachable_def by (rule rtranclp_trans)
  obtain ws st' where pub: "memory_publish_load lease c (w_store ?w) = (Inr ws, st')"
    and polled: "lease \<in> set (w_waiters ?w) \<Longrightarrow> fst (poll_load lease deadline waker at st') = Ready (Inr c)"
    using assms(2,3) opened by (auto intro: publish_open [OF reach, of lease c deadline waker at])
  have same: "outcome = o1" "wakers = ws" "store = st'" using finish pub by simp_all
  have "flight_step lib ?w (?w\<lparr>w_store := st', w_leases := remove1 lease (w_leases ?w), w_parked := wake ws (w_parked ?w)\<rparr>)"
    by (rule flight_step.publish [OF _ pub]) (simp add: assms(2))
  with reach have "reachable lib limit (w\<lparr>w_store := store, w_leases := remove1 lease (w_leases w), w_parked := wake wakers (w_parked w)\<rparr>)"
    unfolding reachable_def same by (simp add: rtranclp.rtrancl_into_rtrancl)
  moreover have "published (wr_response request) (clock 5) outcome c"
    using commit_completion_published [OF wrote(1) completion] wrote(2) same(1) by simp
  ultimately show ?thesis using polled same(3) by auto
qed

theorem commit_serves_followers_witness:
  "\<exists>wakers store rec. commit text_message_lib (memory_ops text_message_lib) demo_options (demo_request ConditionAbsent) demo_lease 1000
     (\<lambda>_. 3500) (w_store demo_world) = Some (CommitStored, wakers, store) \<and>
     fst (poll_load demo_lease 5000 7 4000 store) = Ready (Inr (LoadReady rec)) \<and> ce_response (cr_entry rec) = sample_response"
proof -
  let ?run = "commit text_message_lib (memory_ops text_message_lib) demo_options (demo_request ConditionAbsent) demo_lease 1000
     (\<lambda>_. 3500) (w_store demo_world)"
  have "map_option fst ?run = Some CommitStored" by code_simp
  then obtain wakers store where run: "?run = Some (CommitStored, wakers, store)" by auto
  have world: "demo_lease \<in> set (w_leases demo_world)" "demo_lease \<in> set (w_waiters demo_world)"
    by (simp_all add: demo_world_def Let_def)
  have "\<not> ms_shutting_down (st_state (w_store demo_world))" by code_simp
  from commit_serves_followers [OF demo_world_reachable world(1) this run, of 5000 7 4000] world(2)
  obtain rec where "fst (poll_load demo_lease 5000 7 4000 store) = Ready (Inr (LoadReady rec))"
    "ce_response (cr_entry rec) = sample_response" by (auto simp: demo_request_def)
  with run show ?thesis by blast
qed

text \<open>
  Property C28: however the acquisitions interleave, the number of refreshes in flight is the number of
  slots held and never above the configured capacity; and an exchange that succeeds has the effect of one
  atomic acquisition on the counter at that moment.
\<close>

theorem refreshes_bounded:
  assumes "refresh_admission_new capacity = Inr ra" "refresh_step\<^sup>*\<^sup>* (admission_start ra) w"
  shows "ra_in_flight (aw_admission w) = count_list (aw_acquirers w) Holding \<and>
    ra_in_flight (aw_admission w) \<le> (case capacity of Some n \<Rightarrow> n | None \<Rightarrow> usize_max) \<and>
    (\<forall>current. Observed current \<in> set (aw_acquirers w) \<and> ra_in_flight (aw_admission w) = current \<longrightarrow>
      try_acquire (aw_admission w) = (True, (aw_admission w)\<lparr>ra_in_flight := current + 1\<rparr>))"
proof -
  have "admission_ok w" by (rule admission_reachable_ok [OF assms(2) admission_start_ok [OF assms(1)]])
  moreover have "ra_max_concurrency (aw_admission w) = (case capacity of Some n \<Rightarrow> n | None \<Rightarrow> usize_max)"
    using refresh_step_limit [OF assms(2)] assms(1)
    by (auto simp: refresh_admission_new_def admission_start_def split: option.splits if_splits)
  ultimately show ?thesis by (fastforce simp: admission_ok_def try_acquire_def)
qed

theorem refreshes_bounded_witness:
  "\<exists>w. refresh_step\<^sup>*\<^sup>* (admission_start demo_admission) w \<and> count_list (aw_acquirers w) Holding = 1 \<and>
     ra_in_flight (aw_admission w) = 1"
proof -
  let ?w0 = "admission_start demo_admission"
  let ?w1 = "?w0\<lparr>aw_acquirers := [Arriving]\<rparr>"
  let ?w2 = "?w1\<lparr>aw_acquirers := [Observed 0]\<rparr>"
  let ?w3 = "?w2\<lparr>aw_admission := demo_admission\<lparr>ra_in_flight := 1\<rparr>, aw_acquirers := [Holding]\<rparr>"
  have "refresh_step ?w0 ?w1" using refresh_step.arrive [of ?w0] by (simp add: admission_start_def)
  moreover have "observe demo_admission = Observed 0" by code_simp
  then have "refresh_step ?w1 ?w2" using refresh_step.load [of 0 ?w1] by (simp add: admission_start_def)
  moreover have "refresh_step ?w2 ?w3" using refresh_step.exchanged [of 0 ?w2 0] by (simp add: admission_start_def demo_admission_def)
  ultimately have run: "refresh_step\<^sup>*\<^sup>* ?w0 ?w3" by (meson converse_rtranclp_into_rtranclp r_into_rtranclp)
  moreover have "refresh_admission_new (Some 1) = Inr demo_admission" by code_simp
  from refreshes_bounded [OF this run] have "count_list (aw_acquirers ?w3) Holding = ra_in_flight (aw_admission ?w3)" by simp
  ultimately show ?thesis by (intro exI [of _ ?w3]) simp
qed

text \<open>
  Property C40: a restart is not counted in the lifetime a client is told: a positive record restored from a
  snapshot is answered with the TTLs it had when it was written, however long the process was down, while
  its remaining life has shrunk by that time.
\<close>

theorem restored_ttl_ignores_downtime:
  assumes "message_lib_ok lib" "storable lib key rec"
    and "Option.bind (lib_to_vec lib (resp_message (ce_response (cr_entry rec)))) (lib_from_vec lib) =
      Some (resp_message (ce_response (cr_entry rec)))"
    and "encode_record lib sys sys key rec now = Inr payload"
    and "clocks_ok (cr_entry rec) sys now sys' now'"
    and positive: "\<not> is_negative (ce_response (cr_entry rec))"
  shows "\<exists>rec'. decode_record lib sys' sys' payload now' = Inr (key, rec') \<and>
    fresh_cache_response rec' negative_maximum now' = fresh_cache_response rec negative_maximum now \<and>
    ce_expires_at (cr_entry rec') - now' = max 0 (ce_expires_at (cr_entry rec) - now - (sys' - sys))"
proof -
  have "is_negative (age_ttl d (ce_response (cr_entry rec))) = False" for d
    using positive by (simp add: is_negative_def age_ttl_def update_ttls_def Let_def)
  then show ?thesis
    using decode_encoded_record [OF assms(1-5)]
    by (simp add: fresh_cache_response_def restored_entry_def restored_at_def saturating_duration_since_def Let_def)
qed

theorem restored_ttl_ignores_downtime_witness:
  "\<exists>rec. decode_record wire_message_lib 5010000000000 5010000000000 sample_payload 3000000000 = Inr (sample_key, rec) \<and>
     tm_min_ttl (resp_ttl (fresh_cache_response rec None 3000000000)) = Some 15 \<and>
     ce_expires_at (cr_entry rec) - 3000000000 = 5000000000"
proof -
  have "Option.bind (lib_to_vec wire_message_lib (resp_message (ce_response (cr_entry sample_record)))) (lib_from_vec wire_message_lib) =
      Some (resp_message (ce_response (cr_entry sample_record)))" by code_simp
  moreover have "clocks_ok (cr_entry sample_record) 5000000000000 105000000000 5010000000000 3000000000" by code_simp
  moreover have "\<not> is_negative (ce_response (cr_entry sample_record))" by code_simp
  moreover have "tm_min_ttl (resp_ttl (fresh_cache_response sample_record None 105000000000)) = Some 15" by code_simp
  moreover have "ce_expires_at (cr_entry sample_record) = 120000000000" by code_simp
  ultimately show ?thesis
    using restored_ttl_ignores_downtime [OF wire_message_lib_ok sample_storable _ sample_payload_encoded, of 5010000000000 3000000000 None]
    by auto
qed

end
