(* ===== verification/Cache_Finalizer.thy ===== *)
theory Cache_Finalizer
  imports Flux_Prelude
begin

text \<open>
  The late cache finalizer (\<open>LateCacheFinalizer\<close> of \<open>backend/src/cache/service.rs\<close>): bounded background tasks
  and their shutdown. A submission holds the mutex of the task set while it checks for the shutdown, takes a
  permit, counts itself and spawns; the tasks and the callers of \<open>shutdown\<close> interleave with it. The
  properties: never more tasks than the capacity, and no task outlives the shutdown that waits for it.
\<close>

section \<open>State\<close>

datatype finalizer_build_error = ZeroCapacity

datatype submit_error = SubmitShutdown | SubmitCapacity

text \<open>A task that has run drops its guard: first the count of active tasks goes down, then the permit is
  given back. Whoever holds the mutex is in one of the phases of a submission.\<close>

datatype task_phase = Running | Releasing | Ended

datatype submit_phase = Unlocked | Checked | Permitted | Counted

record finalizer =
  lf_permits :: nat
  lf_closed :: bool
  lf_cancelled :: bool
  lf_active :: nat
  lf_lock :: submit_phase
  lf_tasks :: "task_phase list"
  lf_joining :: "task_phase list list"

definition finalizer_new :: "nat \<Rightarrow> finalizer_build_error + finalizer" where
  "finalizer_new capacity =
     (if capacity = 0 then Inl ZeroCapacity
      else Inr \<lparr>lf_permits = capacity, lf_closed = False, lf_cancelled = False, lf_active = 0, lf_lock = Unlocked,
        lf_tasks = [], lf_joining = []\<rparr>)"

section \<open>Submission\<close>

definition submit_check :: "finalizer \<Rightarrow> submit_error + finalizer" where
  "submit_check f = (if lf_cancelled f then Inl SubmitShutdown else Inr (f\<lparr>lf_lock := Checked\<rparr>))"

definition submit_acquire :: "finalizer \<Rightarrow> submit_error + finalizer" where
  "submit_acquire f =
     (if lf_closed f \<or> lf_permits f = 0 then Inl SubmitCapacity
      else Inr (f\<lparr>lf_permits := lf_permits f - 1, lf_lock := Permitted\<rparr>))"

definition submit_count :: "finalizer \<Rightarrow> finalizer" where
  "submit_count f = f\<lparr>lf_active := lf_active f + 1, lf_lock := Counted\<rparr>"

definition submit_spawn :: "finalizer \<Rightarrow> finalizer" where
  "submit_spawn f = f\<lparr>lf_tasks := filter (\<lambda>t. t \<noteq> Ended) (lf_tasks f) @ [Running], lf_lock := Unlocked\<rparr>"

text \<open>A submission that nothing interleaves with.\<close>

definition submit_task :: "finalizer \<Rightarrow> submit_error + finalizer" where
  "submit_task f =
     and_then (submit_check f) (\<lambda>f. and_then (submit_acquire f) (\<lambda>f. Inr (submit_spawn (submit_count f))))"

definition active_tasks :: "finalizer \<Rightarrow> nat" where
  "active_tasks f = lf_active f"

definition is_shutdown :: "finalizer \<Rightarrow> bool" where
  "is_shutdown f = lf_cancelled f"

section \<open>Interleavings\<close>

text \<open>\<open>cancel\<close>, \<open>close\<close> and \<open>take\<close> are the three actions of \<open>take_tasks_for_shutdown\<close>; the flags are never reset,
  so the caller that takes the set finds both. \<open>drop_guard\<close> and \<open>drop_permit\<close> end a task in the set of the
  finalizer or in a set that a shutdown waits for, whether the task returned, was cancelled, panicked or was
  aborted. \<open>join\<close> is the wait of a shutdown.\<close>

inductive finalizer_step :: "finalizer \<Rightarrow> finalizer \<Rightarrow> bool" where
  check: "lf_lock f = Unlocked \<Longrightarrow> submit_check f = Inr f' \<Longrightarrow> finalizer_step f f'"
| acquire: "lf_lock f = Checked \<Longrightarrow> submit_acquire f = Inr f' \<Longrightarrow> finalizer_step f f'"
| refuse: "lf_lock f = Checked \<Longrightarrow> submit_acquire f = Inl err \<Longrightarrow> finalizer_step f (f\<lparr>lf_lock := Unlocked\<rparr>)"
| count: "lf_lock f = Permitted \<Longrightarrow> finalizer_step f (submit_count f)"
| spawn: "lf_lock f = Counted \<Longrightarrow> finalizer_step f (submit_spawn f)"
| drop_guard: "i < length (lf_tasks f) \<Longrightarrow> lf_tasks f ! i = Running \<Longrightarrow>
    finalizer_step f (f\<lparr>lf_active := lf_active f - 1, lf_tasks := (lf_tasks f)[i := Releasing]\<rparr>)"
| drop_permit: "i < length (lf_tasks f) \<Longrightarrow> lf_tasks f ! i = Releasing \<Longrightarrow>
    finalizer_step f (f\<lparr>lf_permits := lf_permits f + 1, lf_tasks := (lf_tasks f)[i := Ended]\<rparr>)"
| cancel: "finalizer_step f (f\<lparr>lf_cancelled := True\<rparr>)"
| close: "lf_cancelled f \<Longrightarrow> finalizer_step f (f\<lparr>lf_closed := True\<rparr>)"
| take: "lf_cancelled f \<Longrightarrow> lf_closed f \<Longrightarrow> lf_lock f = Unlocked \<Longrightarrow>
    finalizer_step f (f\<lparr>lf_tasks := [], lf_joining := lf_joining f @ [lf_tasks f]\<rparr>)"
| joining_guard: "lf_joining f = pre @ (ts @ Running # us) # post \<Longrightarrow>
    finalizer_step f (f\<lparr>lf_active := lf_active f - 1, lf_joining := pre @ (ts @ Releasing # us) # post\<rparr>)"
| joining_permit: "lf_joining f = pre @ (ts @ Releasing # us) # post \<Longrightarrow>
    finalizer_step f (f\<lparr>lf_permits := lf_permits f + 1, lf_joining := pre @ (ts @ Ended # us) # post\<rparr>)"
| join: "lf_joining f = pre @ (ts @ Ended # us) # post \<Longrightarrow>
    finalizer_step f (f\<lparr>lf_joining := pre @ (ts @ us) # post\<rparr>)"

section \<open>The invariant\<close>

definition all_tasks :: "finalizer \<Rightarrow> task_phase list" where
  "all_tasks f = lf_tasks f @ concat (lf_joining f)"

definition finalizer_ok :: "nat \<Rightarrow> finalizer \<Rightarrow> bool" where
  "finalizer_ok capacity f \<longleftrightarrow>
     lf_permits f + count_list (all_tasks f) Running + count_list (all_tasks f) Releasing +
       (if lf_lock f \<in> {Permitted, Counted} then 1 else 0) = capacity \<and>
     lf_active f = count_list (all_tasks f) Running + (if lf_lock f = Counted then 1 else 0) \<and>
     (lf_closed f \<longrightarrow> lf_cancelled f) \<and>
     (lf_joining f \<noteq> [] \<longrightarrow> lf_closed f \<and> lf_lock f = Unlocked \<and> lf_tasks f = [])"

lemma count_list_filter: "x \<noteq> y \<Longrightarrow> count_list (filter (\<lambda>t. t \<noteq> y) xs) x = count_list xs x"
  by (induction xs) auto

lemma finalizer_step_ok: "finalizer_step f f' \<Longrightarrow> finalizer_ok capacity f \<Longrightarrow> finalizer_ok capacity f'"
proof (induction rule: finalizer_step.induct)
  case (drop_guard i f)
  then show ?case
    using count_list_update [of i "lf_tasks f" Releasing Running] count_list_update [of i "lf_tasks f" Releasing Releasing]
    by (auto simp: finalizer_ok_def all_tasks_def)
next
  case (drop_permit i f)
  then show ?case
    using count_list_update [of i "lf_tasks f" Ended Running] count_list_update [of i "lf_tasks f" Ended Releasing]
    by (auto simp: finalizer_ok_def all_tasks_def)
qed (auto simp: finalizer_ok_def all_tasks_def submit_check_def submit_acquire_def submit_count_def submit_spawn_def
    count_list_filter split: if_splits)

lemma finalizer_new_ok: "finalizer_new capacity = Inr f \<Longrightarrow> finalizer_ok capacity f"
  by (auto simp: finalizer_new_def finalizer_ok_def all_tasks_def split: if_splits)

lemma finalizer_reachable_ok: "finalizer_step\<^sup>*\<^sup>* f f' \<Longrightarrow> finalizer_ok capacity f \<Longrightarrow> finalizer_ok capacity f'"
  by (induction rule: rtranclp_induct) (auto dest: finalizer_step_ok)

lemma submit_task_run:
  assumes "lf_lock f = Unlocked" "submit_task f = Inr f'"
  shows "finalizer_step\<^sup>*\<^sup>* f f'"
proof -
  obtain f1 f2 where f1: "submit_check f = Inr f1" and f2: "submit_acquire f1 = Inr f2" and f': "f' = submit_spawn (submit_count f2)"
    using assms(2) by (auto simp: submit_task_def submit_check_def submit_acquire_def split: if_splits)
  have "finalizer_step f f1" by (rule finalizer_step.check [OF assms(1) f1])
  moreover have "finalizer_step f1 f2" using f1 f2 by (intro finalizer_step.acquire) (auto simp: submit_check_def split: if_splits)
  moreover have "finalizer_step f2 (submit_count f2)"
    using f2 by (intro finalizer_step.count) (auto simp: submit_acquire_def split: if_splits)
  moreover have "finalizer_step (submit_count f2) f'" unfolding f' by (intro finalizer_step.spawn) (simp add: submit_count_def)
  ultimately show ?thesis by (meson converse_rtranclp_into_rtranclp r_into_rtranclp)
qed

section \<open>Properties\<close>

definition demo_finalizer :: finalizer where
  "demo_finalizer = \<lparr>lf_permits = 1, lf_closed = False, lf_cancelled = False, lf_active = 0, lf_lock = Unlocked,
     lf_tasks = [], lf_joining = []\<rparr>"

text \<open>
  Property C18: the finalizer is bounded and its shutdown is complete. In every interleaving at most
  \<open>capacity\<close> tasks are active; once a shutdown has taken the task set, no submission is accepted, every
  remaining task is in a set that a shutdown waits for, and when these sets are joined nothing is active
  and every permit is back.
\<close>

theorem finalizer_shutdown_complete:
  assumes "finalizer_new capacity = Inr f0" "finalizer_step\<^sup>*\<^sup>* f0 f"
  shows "active_tasks f \<le> capacity \<and>
    (lf_joining f \<noteq> [] \<longrightarrow> lf_tasks f = [] \<and> lf_lock f = Unlocked \<and> submit_task f = Inl SubmitShutdown \<and>
      (concat (lf_joining f) = [] \<longrightarrow> active_tasks f = 0 \<and> lf_permits f = capacity))"
proof -
  have "finalizer_ok capacity f" by (rule finalizer_reachable_ok [OF assms(2) finalizer_new_ok [OF assms(1)]])
  then show ?thesis
    by (auto simp: finalizer_ok_def all_tasks_def active_tasks_def submit_task_def submit_check_def
        simp del: concat_eq_Nil_conv split: if_splits)
qed

theorem finalizer_shutdown_complete_witness:
  "\<exists>f. finalizer_step\<^sup>*\<^sup>* demo_finalizer f \<and> lf_joining f = [[Running]] \<and> active_tasks f = 1 \<and>
     submit_task f = Inl SubmitShutdown"
proof -
  let ?f1 = "demo_finalizer\<lparr>lf_permits := 0, lf_active := 1, lf_tasks := [Running]\<rparr>"
  let ?f2 = "?f1\<lparr>lf_cancelled := True\<rparr>"
  let ?f3 = "?f2\<lparr>lf_closed := True\<rparr>"
  let ?f4 = "?f3\<lparr>lf_tasks := [], lf_joining := [[Running]]\<rparr>"
  have "finalizer_step\<^sup>*\<^sup>* demo_finalizer ?f1"
    by (rule submit_task_run)
      (simp_all add: demo_finalizer_def submit_task_def submit_check_def submit_acquire_def submit_count_def submit_spawn_def)
  moreover have "finalizer_step ?f1 ?f2" by (rule finalizer_step.cancel)
  moreover have "finalizer_step ?f2 ?f3" by (rule finalizer_step.close) simp
  moreover have "finalizer_step ?f3 ?f4" using finalizer_step.take [of ?f3] by (simp add: demo_finalizer_def)
  ultimately have run: "finalizer_step\<^sup>*\<^sup>* demo_finalizer ?f4" by (meson rtranclp.rtrancl_into_rtrancl)
  moreover have "finalizer_new 1 = Inr demo_finalizer" by (simp add: finalizer_new_def demo_finalizer_def)
  from finalizer_shutdown_complete [OF this run] have "submit_task ?f4 = Inl SubmitShutdown" by simp
  ultimately show ?thesis by (intro exI [of _ ?f4]) (simp add: active_tasks_def)
qed

end
