(* ===== verification/Upstream_Outcome.thy ===== *)
theory Upstream_Outcome
  imports Dns_Message Cache_Types "HOL-Library.Multiset"
begin

text \<open>
  The results of an upstream group (\<open>backend/src/upstream/outcome.rs\<close>, types of
  \<open>backend/src/ports/exchange.rs\<close>): the assessment of one attempt, when a fallback is tried, the order of
  connectors, and the aggregation of finished attempts into one outcome. The properties: the order in which
  attempts finish does not matter, and which attempt wins.
\<close>

section \<open>Types\<close>

datatype connector_id = ConnectorId (connector_str: string)

datatype selection_policy = Sequential | RoundRobin | LoadBalance | Parallel | Failover

datatype transport_failure_class =
    FailConnect | FailDnsBootstrap | FailProxy | FailTls | FailHttpStatus | FailMediaType | FailBodyLimit | FailTimeout
  | FailWire | FailQuestionMismatch | FailUnavailable | FailProtocolViolation | FailResourceExhausted | FailInternal

record transport_failure =
  tf_connector :: connector_id
  tf_class :: transport_failure_class
  tf_retryable :: bool
  tf_safe_context :: "string option"

datatype ('n, 'd, 'e) upstream_outcome =
    OutcomeResponse "('n, 'd, 'e) canonical_response"
  | OutcomeFailure transport_failure
  | OutcomeCancelled cancel_reason

datatype attempt_class =
    AttemptResponse response_class
  | AttemptFailure transport_failure_class bool
  | AttemptCancelled cancel_reason

datatype fallback_decision = FallbackContinue | FallbackStop

record attempt_assessment =
  as_class :: attempt_class
  as_fallback :: fallback_decision

record ('n, 'd, 'e) upstream_attempt =
  ua_index :: nat
  ua_connector :: connector_id
  ua_outcome :: "('n, 'd, 'e) upstream_outcome"

record ('n, 'd, 'e) aggregated_outcome =
  ag_connector :: "connector_id option"
  ag_outcome :: "('n, 'd, 'e) upstream_outcome"

datatype outcome_error = DuplicateAttemptIndex nat

section \<open>Assessment and fallback\<close>

fun assess :: "('n, 'd, 'e) upstream_outcome \<Rightarrow> attempt_assessment" where
  "assess (OutcomeResponse response) =
     \<lparr>as_class = AttemptResponse (resp_class response),
      as_fallback = (if resp_class response = ClassServFail \<or> resp_class response = ClassTruncated
        then FallbackContinue else FallbackStop)\<rparr>"
| "assess (OutcomeFailure failure) =
     \<lparr>as_class = AttemptFailure (tf_class failure) (tf_retryable failure),
      as_fallback = (if tf_retryable failure then FallbackContinue else FallbackStop)\<rparr>"
| "assess (OutcomeCancelled reason) = \<lparr>as_class = AttemptCancelled reason, as_fallback = FallbackStop\<rparr>"

definition should_enter_fallback :: "('n, 'd, 'e) upstream_attempt list \<Rightarrow> bool" where
  "should_enter_fallback attempts \<longleftrightarrow>
     attempts \<noteq> [] \<and> list_all (\<lambda>a. as_fallback (assess (ua_outcome a)) = FallbackContinue) attempts"

text \<open>A filter that keeps what its set of seen connectors accepts.\<close>

fun retain_unseen :: "connector_id list \<Rightarrow> connector_id list \<Rightarrow> connector_id list" where
  "retain_unseen seen [] = []"
| "retain_unseen seen (c # cs) = (if c \<in> set seen then retain_unseen seen cs else c # retain_unseen (c # seen) cs)"

definition deduplicate_connector_order :: "connector_id list \<Rightarrow> connector_id list \<Rightarrow> connector_id list" where
  "deduplicate_connector_order primary fallback = retain_unseen [] (primary @ fallback)"

section \<open>Aggregation\<close>

fun response_preference :: "response_class \<Rightarrow> nat" where
  "response_preference ClassPositive = 3"
| "response_preference ClassNoData = 2"
| "response_preference ClassServFail = 0"
| "response_preference ClassTruncated = 0"
| "response_preference _ = 1"

fun cancel_priority :: "cancel_reason \<Rightarrow> nat" where
  "cancel_priority CancelShutdown = 5"
| "cancel_priority ClientDisconnected = 4"
| "cancel_priority DeadlineExceeded = 3"
| "cancel_priority GroupPolicy = 2"
| "cancel_priority UpstreamCancelled = 1"

definition prefer_cancel ::
  "(connector_id \<times> cancel_reason) option \<Rightarrow> connector_id \<Rightarrow> cancel_reason \<Rightarrow> connector_id \<times> cancel_reason" where
  "prefer_cancel current connector reason =
     (case current of
        None \<Rightarrow> (connector, reason)
      | Some cur \<Rightarrow> if cancel_priority (snd cur) < cancel_priority reason then (connector, reason) else cur)"

text \<open>The duplicate check on neighbours of the sorted attempts.\<close>

fun first_duplicate :: "('n, 'd, 'e) upstream_attempt list \<Rightarrow> nat option" where
  "first_duplicate (a # b # rest) = (if ua_index a = ua_index b then Some (ua_index a) else first_duplicate (b # rest))"
| "first_duplicate _ = None"

record ('n, 'd, 'e) aggregation =
  ac_cancellation :: "(connector_id \<times> cancel_reason) option"
  ac_selected :: "(connector_id \<times> ('n, 'd, 'e) canonical_response) option"
  ac_blocked :: bool

definition note_cancel :: "connector_id \<Rightarrow> cancel_reason \<Rightarrow> ('n, 'd, 'e) aggregation \<Rightarrow> ('n, 'd, 'e) aggregation" where
  "note_cancel connector reason st =
     st\<lparr>ac_cancellation := Some (prefer_cancel (ac_cancellation st) connector reason)\<rparr>"

text \<open>One round of the loop over the attempts.\<close>

definition aggregate_step ::
  "selection_policy \<Rightarrow> ('n, 'd, 'e) upstream_attempt \<Rightarrow> ('n, 'd, 'e) aggregation \<Rightarrow> ('n, 'd, 'e) aggregation" where
  "aggregate_step mode attempt st =
     (if ac_blocked st then
        (case ua_outcome attempt of OutcomeCancelled reason \<Rightarrow> note_cancel (ua_connector attempt) reason st | _ \<Rightarrow> st)
      else case as_fallback (assess (ua_outcome attempt)) of
          FallbackContinue \<Rightarrow>
            (case ua_outcome attempt of OutcomeCancelled reason \<Rightarrow> note_cancel (ua_connector attempt) reason st | _ \<Rightarrow> st)
        | FallbackStop \<Rightarrow>
            (case ua_outcome attempt of
               OutcomeResponse answer \<Rightarrow>
                 let replace = (case ac_selected st of
                       None \<Rightarrow> True
                     | Some (_, current) \<Rightarrow> mode = Parallel \<and>
                         response_preference (resp_class current) < response_preference (resp_class answer))
                 in if replace then st\<lparr>ac_selected := Some (ua_connector attempt, answer)\<rparr> else st
             | OutcomeCancelled reason \<Rightarrow> note_cancel (ua_connector attempt) reason st
             | OutcomeFailure failure \<Rightarrow>
                 st\<lparr>ac_blocked := ac_blocked st \<or> mode \<noteq> Parallel \<and> \<not> tf_retryable failure\<rparr>))"

text \<open>The value \<open>None\<close> is the panic of \<open>expect\<close> on the fixed answer.\<close>

definition aggregate_with_connector ::
  "('n, 'd, 'e, 's) message_lib \<Rightarrow> selection_policy \<Rightarrow> ('n, 'd, 'e) canonical_query \<Rightarrow> ('n, 'd, 'e) upstream_attempt list \<Rightarrow>
     (outcome_error + ('n, 'd, 'e) aggregated_outcome) option" where
  "aggregate_with_connector lib mode query attempts =
     (let attempts = sort_key ua_index attempts in
      case first_duplicate attempts of
        Some index \<Rightarrow> Some (Inl (DuplicateAttemptIndex index))
      | None \<Rightarrow>
          let st = fold (aggregate_step mode) attempts \<lparr>ac_cancellation = None, ac_selected = None, ac_blocked = False\<rparr> in
          case ac_cancellation st of
            Some (connector, reason) \<Rightarrow>
              if 3 \<le> cancel_priority reason then
                Some (Inr \<lparr>ag_connector = Some connector, ag_outcome = OutcomeCancelled reason\<rparr>)
              else (case ac_selected st of
                  Some (c, response) \<Rightarrow> Some (Inr \<lparr>ag_connector = Some c, ag_outcome = OutcomeResponse response\<rparr>)
                | None \<Rightarrow> Some (Inr \<lparr>ag_connector = Some connector, ag_outcome = OutcomeCancelled reason\<rparr>))
          | None \<Rightarrow>
              (case ac_selected st of
                 Some (c, response) \<Rightarrow> Some (Inr \<lparr>ag_connector = Some c, ag_outcome = OutcomeResponse response\<rparr>)
               | None \<Rightarrow>
                   (case empty_response lib query RcServFail of
                      Inr response \<Rightarrow> Some (Inr \<lparr>ag_connector = None, ag_outcome = OutcomeResponse response\<rparr>)
                    | Inl _ \<Rightarrow> None)))"

definition aggregate ::
  "('n, 'd, 'e, 's) message_lib \<Rightarrow> selection_policy \<Rightarrow> ('n, 'd, 'e) canonical_query \<Rightarrow> ('n, 'd, 'e) upstream_attempt list \<Rightarrow>
     (outcome_error + ('n, 'd, 'e) upstream_outcome) option" where
  "aggregate lib mode query attempts =
     map_option (\<lambda>result. and_then result (\<lambda>r. Inr (ag_outcome r))) (aggregate_with_connector lib mode query attempts)"

section \<open>The order in which attempts finish\<close>

lemma first_duplicate_keys:
  "map ua_index as = map ua_index bs \<Longrightarrow> first_duplicate as = first_duplicate bs"
proof (induction as arbitrary: bs rule: first_duplicate.induct)
  case (1 a b rest)
  then obtain a' b' rest' where "bs = a' # b' # rest'" by (auto simp: map_eq_Cons_conv Cons_eq_map_conv)
  with 1 show ?case by simp
qed (auto simp: map_eq_Cons_conv Cons_eq_map_conv)

lemma first_duplicate_None: "sorted (map ua_index as) \<Longrightarrow> first_duplicate as = None \<longleftrightarrow> distinct (map ua_index as)"
proof (induction as rule: first_duplicate.induct)
  case (1 a b rest)
  have "ua_index a \<noteq> ua_index b \<Longrightarrow> ua_index a \<notin> set (map ua_index (b # rest))" using "1.prems" by fastforce
  with 1 show ?case by auto
qed auto

lemma first_duplicate_member: "first_duplicate as = Some i \<Longrightarrow> \<not> distinct (map ua_index as)"
  by (induction as rule: first_duplicate.induct) (auto split: if_splits)

lemma sort_key_keys: "map f (sort_key f xs) = sort (map f xs)"
  by (rule properties_for_sort [symmetric]) (simp_all add: mset_map)

lemma sort_key_mset:
  assumes "mset xs = mset ys" "distinct (map f xs)"
  shows "sort_key f xs = sort_key f ys"
proof (rule map_sorted_distinct_set_unique [of f])
  have "set xs = set ys" using assms(1) by (metis set_mset_mset)
  moreover have "distinct (map f ys)"
    using assms by (metis mset_map mset_eq_imp_distinct_iff)
  ultimately show "inj_on f (set (sort_key f xs) \<union> set (sort_key f ys))" "set (sort_key f xs) = set (sort_key f ys)"
    "distinct (map f (sort_key f xs))" "distinct (map f (sort_key f ys))"
    using assms(2) by (simp_all add: distinct_map)
qed simp_all

lemma aggregate_mset:
  assumes "mset xs = mset ys"
  shows "aggregate_with_connector lib mode query xs = aggregate_with_connector lib mode query ys"
proof (cases "distinct (map ua_index xs)")
  case True
  then show ?thesis by (simp add: aggregate_with_connector_def sort_key_mset [OF assms])
next
  case False
  have "sort (map ua_index xs) = sort (map ua_index ys)"
    by (rule properties_for_sort) (simp_all add: assms mset_map)
  then have keys: "map ua_index (sort_key ua_index xs) = map ua_index (sort_key ua_index ys)" by (simp add: sort_key_keys)
  have "\<not> distinct (map ua_index (sort_key ua_index xs))" using False by (simp add: sort_key_keys)
  then obtain i where i: "first_duplicate (sort_key ua_index xs) = Some i"
    using first_duplicate_None [of "sort_key ua_index xs"] by auto
  then have "first_duplicate (sort_key ua_index ys) = Some i" using first_duplicate_keys [OF keys] by simp
  with i show ?thesis by (simp add: aggregate_with_connector_def)
qed

section \<open>Which attempt wins\<close>

text \<open>The first of the elements with the greatest rank.\<close>

fun first_max :: "('a \<Rightarrow> nat) \<Rightarrow> 'a option \<Rightarrow> 'a list \<Rightarrow> 'a option" where
  "first_max rank best [] = best"
| "first_max rank best (x # xs) =
     first_max rank (case best of None \<Rightarrow> Some x | Some b \<Rightarrow> if rank b < rank x then Some x else Some b) xs"

definition cancels :: "('n, 'd, 'e) upstream_attempt list \<Rightarrow> (connector_id \<times> cancel_reason) list" where
  "cancels as = concat (map (\<lambda>a. case ua_outcome a of OutcomeCancelled reason \<Rightarrow> [(ua_connector a, reason)] | _ \<Rightarrow> []) as)"

definition blocks :: "('n, 'd, 'e) upstream_attempt \<Rightarrow> bool" where
  "blocks a \<longleftrightarrow> (case ua_outcome a of OutcomeFailure failure \<Rightarrow> \<not> tf_retryable failure | _ \<Rightarrow> False)"

definition answers :: "('n, 'd, 'e) upstream_attempt list \<Rightarrow> (connector_id \<times> ('n, 'd, 'e) canonical_response) list" where
  "answers as = concat (map (\<lambda>a. case ua_outcome a of
       OutcomeResponse r \<Rightarrow> if resp_class r \<noteq> ClassServFail \<and> resp_class r \<noteq> ClassTruncated then [(ua_connector a, r)] else []
     | _ \<Rightarrow> []) as)"

text \<open>The answers that count: in a parallel batch all of them, otherwise those before a failure that must
  not be retried. A parallel batch takes the best of them, the other modes the first.\<close>

definition best_answer ::
  "selection_policy \<Rightarrow> ('n, 'd, 'e) upstream_attempt list \<Rightarrow> (connector_id \<times> ('n, 'd, 'e) canonical_response) option" where
  "best_answer mode as =
     (if mode = Parallel then first_max (\<lambda>(_, r). response_preference (resp_class r)) None (answers as)
      else first_max (\<lambda>_. 0) None (answers (takeWhile (\<lambda>a. \<not> blocks a) as)))"

lemma first_max_const: "first_max (\<lambda>_. 0) (Some b) xs = Some b"
  by (induction xs) simp_all

lemma first_max_is_max:
  "first_max rank best xs = Some y \<Longrightarrow>
     (best = Some y \<or> y \<in> set xs) \<and> (\<forall>x \<in> set xs. rank x \<le> rank y) \<and> (\<forall>b. best = Some b \<longrightarrow> rank b \<le> rank y)"
  by (induction xs arbitrary: best) (fastforce split: option.splits if_splits)+

lemma aggregate_blocked:
  "ac_blocked st \<Longrightarrow> fold (aggregate_step mode) as st =
     st\<lparr>ac_cancellation := first_max (\<lambda>(_, r). cancel_priority r) (ac_cancellation st) (cancels as)\<rparr>"
proof (induction as arbitrary: st)
  case (Cons a as)
  have "ac_blocked (aggregate_step mode a st)" using Cons.prems
    by (auto simp: aggregate_step_def note_cancel_def split: upstream_outcome.splits)
  from Cons.IH [OF this] Cons.prems show ?case
    by (auto simp: aggregate_step_def note_cancel_def prefer_cancel_def cancels_def split: upstream_outcome.splits option.splits prod.splits)
qed (simp add: cancels_def)

lemma aggregate_parallel:
  "\<not> ac_blocked st \<Longrightarrow> fold (aggregate_step Parallel) as st =
     st\<lparr>ac_cancellation := first_max (\<lambda>(_, r). cancel_priority r) (ac_cancellation st) (cancels as),
        ac_selected := first_max (\<lambda>(_, r). response_preference (resp_class r)) (ac_selected st) (answers as)\<rparr>"
proof (induction as arbitrary: st)
  case (Cons a as)
  have "\<not> ac_blocked (aggregate_step Parallel a st)" using Cons.prems
    by (auto simp: aggregate_step_def note_cancel_def Let_def split: upstream_outcome.splits fallback_decision.splits)
  from Cons.IH [OF this] Cons.prems show ?case
    by (auto simp: aggregate_step_def note_cancel_def prefer_cancel_def cancels_def answers_def Let_def
        split: upstream_outcome.splits option.splits prod.splits)
qed (simp add: cancels_def answers_def)

lemma aggregate_ordered:
  "mode \<noteq> Parallel \<Longrightarrow> \<not> ac_blocked st \<Longrightarrow>
     ac_cancellation (fold (aggregate_step mode) as st) = first_max (\<lambda>(_, r). cancel_priority r) (ac_cancellation st) (cancels as) \<and>
     ac_selected (fold (aggregate_step mode) as st) =
       first_max (\<lambda>_. 0) (ac_selected st) (answers (takeWhile (\<lambda>a. \<not> blocks a) as))"
proof (induction as arbitrary: st)
  case (Cons a as)
  show ?case
  proof (cases "blocks a")
    case True
    then have "ac_blocked (aggregate_step mode a st)" "ac_cancellation (aggregate_step mode a st) = ac_cancellation st"
      "ac_selected (aggregate_step mode a st) = ac_selected st" "cancels (a # as) = cancels as"
      using Cons.prems by (auto simp: blocks_def aggregate_step_def cancels_def split: upstream_outcome.splits)
    then show ?thesis using aggregate_blocked [of "aggregate_step mode a st" mode as] True by (simp add: answers_def)
  next
    case False
    then have "\<not> ac_blocked (aggregate_step mode a st)" using Cons.prems
      by (auto simp: blocks_def aggregate_step_def note_cancel_def Let_def split: upstream_outcome.splits)
    from Cons.IH [OF Cons.prems(1) this] False Cons.prems show ?thesis
      by (auto simp: blocks_def aggregate_step_def note_cancel_def prefer_cancel_def cancels_def answers_def Let_def
          split: upstream_outcome.splits option.splits prod.splits)
  qed
qed (simp add: cancels_def answers_def)

lemma aggregate_fold:
  "ac_cancellation (fold (aggregate_step mode) as \<lparr>ac_cancellation = None, ac_selected = None, ac_blocked = False\<rparr>) =
     first_max (\<lambda>(_, r). cancel_priority r) None (cancels as)"
  "ac_selected (fold (aggregate_step mode) as \<lparr>ac_cancellation = None, ac_selected = None, ac_blocked = False\<rparr>) =
     best_answer mode as"
  using aggregate_parallel [of "\<lparr>ac_cancellation = None, ac_selected = None, ac_blocked = False\<rparr>" as]
    aggregate_ordered [of mode "\<lparr>ac_cancellation = None, ac_selected = None, ac_blocked = False\<rparr>" as]
  by (cases "mode = Parallel"; simp add: best_answer_def)+

text \<open>The fixed answer can always be built.\<close>

lemma empty_servfail:
  assumes "message_lib_ok lib" "canonical_query_ok lib q"
  obtains r where "empty_response lib q RcServFail = Inr r" "resp_class r = ClassServFail" "matches_query lib r q"
proof -
  have question: "question_from_query lib (question_to_query (query_question q)) = query_question q"
    using assms(2) by (simp add: canonical_query_ok_def)
  obtain r where r: "empty_response lib q RcServFail = Inr r" "resp_class r = ClassServFail"
    by (simp add: empty_response_def response_with_code_def response_from_message_def validate_common_def
        lib_new_eq [OF assms(1)] plain_metadata_def question classify_response_def Let_def)
  with response_from_message_ok(2) [OF assms(1)] show thesis
    by (intro that [OF r]) (auto simp: empty_response_def response_with_code_def Let_def)
qed

text \<open>What the attempts of a group aggregate to, with the fixed answer at hand.\<close>

definition group_choice ::
  "selection_policy \<Rightarrow> ('n, 'd, 'e) upstream_attempt list \<Rightarrow> ('n, 'd, 'e) canonical_response \<Rightarrow> ('n, 'd, 'e) aggregated_outcome" where
  "group_choice mode as fixed =
     (case (first_max (\<lambda>(_, r). cancel_priority r) None (cancels as), best_answer mode as) of
        (Some (c, reason), best) \<Rightarrow>
          if 3 \<le> cancel_priority reason \<or> best = None then \<lparr>ag_connector = Some c, ag_outcome = OutcomeCancelled reason\<rparr>
          else \<lparr>ag_connector = Some (fst (the best)), ag_outcome = OutcomeResponse (snd (the best))\<rparr>
      | (None, Some (c, r)) \<Rightarrow> \<lparr>ag_connector = Some c, ag_outcome = OutcomeResponse r\<rparr>
      | (None, None) \<Rightarrow> \<lparr>ag_connector = None, ag_outcome = OutcomeResponse fixed\<rparr>)"

lemma aggregate_choice:
  assumes "message_lib_ok lib" "canonical_query_ok lib query" "distinct (map ua_index attempts)"
  obtains fixed where "resp_class fixed = ClassServFail" "matches_query lib fixed query"
    "aggregate_with_connector lib mode query attempts = Some (Inr (group_choice mode (sort_key ua_index attempts) fixed))"
proof -
  have "first_duplicate (sort_key ua_index attempts) = None"
    using first_duplicate_None [of "sort_key ua_index attempts"] assms(3) by (simp add: sort_key_keys)
  moreover obtain fixed where fixed: "empty_response lib query RcServFail = Inr fixed" "resp_class fixed = ClassServFail"
    "matches_query lib fixed query" using empty_servfail [OF assms(1,2)] by blast
  ultimately show thesis
    by (intro that [OF fixed(2,3)])
      (auto simp: aggregate_with_connector_def group_choice_def aggregate_fold Let_def split: option.splits prod.splits)
qed

section \<open>Concrete attempts\<close>

definition sample_attempt :: "nat \<Rightarrow> string \<Rightarrow> (string, unit, nat option) upstream_outcome \<Rightarrow> (string, unit, nat option) upstream_attempt" where
  "sample_attempt i name outcome = \<lparr>ua_index = i, ua_connector = ConnectorId name, ua_outcome = outcome\<rparr>"

definition sample_failure :: "bool \<Rightarrow> (string, unit, nat option) upstream_outcome" where
  "sample_failure retryable = OutcomeFailure \<lparr>tf_connector = ConnectorId ''x'', tf_class = FailTimeout, tf_retryable = retryable,
     tf_safe_context = None\<rparr>"

section \<open>Properties\<close>

text \<open>
  Property C20: the order in which the attempts of a group finish does not change the result: any two orders
  of the same attempts aggregate to the same outcome, connector and error, also when an index is duplicated.
\<close>

theorem aggregate_order_independent:
  assumes "mset attempts = mset attempts'"
  shows "aggregate_with_connector lib mode query attempts = aggregate_with_connector lib mode query attempts' \<and>
    aggregate lib mode query attempts = aggregate lib mode query attempts'"
  by (simp add: aggregate_def aggregate_mset [OF assms])

theorem aggregate_order_independent_witness:
  "aggregate text_message_lib Parallel sample_query
       [sample_attempt 1 ''b'' (OutcomeResponse sample_response), sample_attempt 0 ''a'' (sample_failure True)] =
     aggregate text_message_lib Parallel sample_query
       [sample_attempt 0 ''a'' (sample_failure True), sample_attempt 1 ''b'' (OutcomeResponse sample_response)]"
  by (rule conjunct2 [OF aggregate_order_independent]) (simp add: add_mset_commute)

text \<open>
  Property C21: what a group answers. Distinct attempts of a canonical query always aggregate to an outcome:
  a cancellation from outside the group (shutdown, disconnect, deadline) wins over everything, the strongest
  and then the first; else the chosen answer, which is the first of the best in a parallel batch and the
  first before an unretryable failure otherwise; else a cancellation; else SERVFAIL for the question.
\<close>

theorem aggregate_chooses:
  assumes "message_lib_ok lib" "canonical_query_ok lib query" "distinct (map ua_index attempts)"
  defines "as \<equiv> sort_key ua_index attempts"
  shows "\<exists>result. aggregate_with_connector lib mode query attempts = Some (Inr result) \<and>
    (case first_max (\<lambda>(_, r). cancel_priority r) None (cancels as) of
       Some (c, reason) \<Rightarrow>
         if reason \<in> {CancelShutdown, ClientDisconnected, DeadlineExceeded} \<or> best_answer mode as = None
         then result = \<lparr>ag_connector = Some c, ag_outcome = OutcomeCancelled reason\<rparr>
         else \<exists>c' r. best_answer mode as = Some (c', r) \<and> result = \<lparr>ag_connector = Some c', ag_outcome = OutcomeResponse r\<rparr>
     | None \<Rightarrow>
         (case best_answer mode as of
            Some (c, r) \<Rightarrow> result = \<lparr>ag_connector = Some c, ag_outcome = OutcomeResponse r\<rparr>
          | None \<Rightarrow> \<exists>r. result = \<lparr>ag_connector = None, ag_outcome = OutcomeResponse r\<rparr> \<and>
              resp_class r = ClassServFail \<and> matches_query lib r query))"
proof -
  have "3 \<le> cancel_priority reason \<longleftrightarrow> reason \<in> {CancelShutdown, ClientDisconnected, DeadlineExceeded}" for reason
    by (cases reason) simp_all
  moreover obtain fixed where "resp_class fixed = ClassServFail" "matches_query lib fixed query"
    "aggregate_with_connector lib mode query attempts = Some (Inr (group_choice mode as fixed))"
    using aggregate_choice [OF assms(1-3)] unfolding as_def by blast
  ultimately show ?thesis by (auto simp: group_choice_def split: option.splits prod.splits)
qed

theorem aggregate_chooses_witness:
  "\<exists>result. aggregate_with_connector text_message_lib Failover sample_query
       [sample_attempt 2 ''c'' (OutcomeResponse sample_response), sample_attempt 0 ''a'' (sample_failure False)] = Some (Inr result) \<and>
     ag_connector result = None"
proof -
  let ?as = "[sample_attempt 2 ''c'' (OutcomeResponse sample_response), sample_attempt 0 ''a'' (sample_failure False)]"
  have "distinct (map ua_index ?as)" by (simp add: sample_attempt_def)
  moreover have "canonical_query_ok text_message_lib sample_query"
    by (rule query_from_message_ok [OF text_message_lib_ok sample_query_parsed])
  moreover have "first_max (\<lambda>(_, r). cancel_priority r) None (cancels (sort_key ua_index ?as)) = None"
    "best_answer Failover (sort_key ua_index ?as) = None" by code_simp+
  ultimately show ?thesis
    using aggregate_chooses [OF text_message_lib_ok, of sample_query ?as Failover] by auto
qed

end
