(* ===== verification/Upstream_Group.thy ===== *)
theory Upstream_Group
  imports Config_Types Upstream_Outcome
begin

text \<open>
  The selector of an upstream group (\<open>backend/src/upstream/group.rs\<close>): its construction, the smooth weighted
  round robin, the choice of the least loaded member and the leases that count the load. The properties:
  the round robin gives every member its exact share in each period and never runs ahead of it, and the
  balanced choice is a member with the fewest live leases for its weight.

  The counters of the balanced choice are shared. Each of its accesses is one step, and what other threads do to them
  just before an access is an argument: events under the number of the access.
\<close>

section \<open>State and construction\<close>

record smooth_state =
  sm_current :: "int list"
  sm_total_weight :: int

record load_state =
  ld_in_flight :: "64 word list"
  ld_cursor :: "64 word"

record group_selector =
  gs_mode :: selection_policy
  gs_members :: "resolved_upstream_member list"
  gs_smooth :: smooth_state
  gs_load :: load_state

datatype group_selector_error =
    EmptyMembers
  | ZeroWeight nat
  | DuplicateMember nat
  | InvalidMode selection_policy
  | NoPrimary selection_policy
  | InvalidMemberIndex nat
  | FixedWeightRequired nat selection_policy

fun policy_of_mode :: "upstream_mode \<Rightarrow> selection_policy" where
  "policy_of_mode ModeParallel = Parallel"
| "policy_of_mode ModeRoundRobin = RoundRobin"
| "policy_of_mode ModeLoadBalance = LoadBalance"
| "policy_of_mode ModeFailover = Failover"

abbreviation weight :: "resolved_upstream_member \<Rightarrow> int" where
  "weight m \<equiv> uint (member_weight m)"

text \<open>The loop of \<open>new\<close> over the members, with the members before the current one; the sum of the weights is
  kept in an \<open>i128\<close>, which a sum of 32-bit weights does not leave.\<close>

fun members_loop ::
  "selection_policy \<Rightarrow> resolved_upstream_member list \<Rightarrow> resolved_upstream_member list \<Rightarrow> int list \<Rightarrow> int \<Rightarrow>
     group_selector_error + int list \<times> int" where
  "members_loop mode previous [] current tot = Inr (current, tot)"
| "members_loop mode previous (m # ms) current tot =
     (if member_weight m = 0 then Inl (ZeroWeight (length previous))
      else if list_ex (\<lambda>p. member_name p = member_name m) previous then Inl (DuplicateMember (length previous))
      else if (mode = Parallel \<or> mode = Failover) \<and> member_weight m \<noteq> 1
      then Inl (FixedWeightRequired (length previous) mode)
      else members_loop mode (previous @ [m]) ms (current @ [0]) (tot + weight m))"

definition group_selector_new ::
  "selection_policy \<Rightarrow> resolved_upstream_member list \<Rightarrow> group_selector_error + group_selector" where
  "group_selector_new mode members =
     (if members = [] then Inl EmptyMembers
      else if mode = Sequential then Inl (InvalidMode mode)
      else and_then (members_loop mode [] members [] 0) (\<lambda>(current, tot).
        Inr \<lparr>gs_mode = mode, gs_members = members,
          gs_smooth = \<lparr>sm_current = current, sm_total_weight = tot\<rparr>,
          gs_load = \<lparr>ld_in_flight = replicate (length members) 0, ld_cursor = 0\<rparr>\<rparr>))"

definition from_upstream_mode :: "upstream_mode \<Rightarrow> resolved_upstream_member list \<Rightarrow> group_selector_error + group_selector" where
  "from_upstream_mode mode members = group_selector_new (policy_of_mode mode) members"

section \<open>Selection\<close>

fun smooth_loop :: "nat \<Rightarrow> resolved_upstream_member list \<Rightarrow> int list \<Rightarrow> nat \<Rightarrow> int list \<times> nat" where
  "smooth_loop index [] current selected = (current, selected)"
| "smooth_loop index (m # ms) current selected =
     (let current = current[index := current ! index + weight m];
          selected = (if current ! selected < current ! index then index else selected)
      in smooth_loop (Suc index) ms current selected)"

definition smooth_select :: "smooth_state \<Rightarrow> resolved_upstream_member list \<Rightarrow> nat \<times> smooth_state" where
  "smooth_select state members =
     (let (current, selected) = smooth_loop 0 members (sm_current state) 0
      in (selected, state\<lparr>sm_current := current[selected := current ! selected - sm_total_weight state]\<rparr>))"

definition load_ratio_is_less :: "64 word \<Rightarrow> 32 word \<Rightarrow> 64 word \<Rightarrow> 32 word \<Rightarrow> bool" where
  "load_ratio_is_less candidate_in_flight candidate_weight current_in_flight current_weight \<longleftrightarrow>
     (ucast candidate_in_flight :: 128 word) * ucast current_weight < ucast current_in_flight * ucast candidate_weight"

definition drop_selection_lease :: "nat \<Rightarrow> group_selector \<Rightarrow> group_selector" where
  "drop_selection_lease index g =
     (let load = gs_load g; value = ld_in_flight load ! index in
      if value = 0 then g
      else g\<lparr>gs_load := load\<lparr>ld_in_flight := (ld_in_flight load)[index := value - 1]\<rparr>\<rparr>)"

text \<open>What another thread does to the shared counters in one step: it drops a lease, it takes one, or it moves the
  cursor.\<close>

datatype load_event = LeaseDropped nat | LeaseTaken nat | CursorMoved

fun other_access :: "load_event \<Rightarrow> group_selector \<Rightarrow> group_selector" where
  "other_access (LeaseDropped i) g = drop_selection_lease i g"
| "other_access (LeaseTaken i) g =
     g\<lparr>gs_load := (gs_load g)\<lparr>ld_in_flight := (ld_in_flight (gs_load g))[i := ld_in_flight (gs_load g) ! i + 1]\<rparr>\<rparr>"
| "other_access CursorMoved g = g\<lparr>gs_load := (gs_load g)\<lparr>ld_cursor := ld_cursor (gs_load g) + 1\<rparr>\<rparr>"

type_synonym load_events = "nat \<Rightarrow> load_event list"

definition undisturbed :: load_events where
  "undisturbed k = []"

text \<open>The scan: the counter of the candidate is loaded and then that of the best member so far, under the
  numbers \<open>2 * offset\<close> and \<open>2 * offset + 1\<close>.\<close>

fun balance_loop :: "load_events \<Rightarrow> nat \<Rightarrow> nat list \<Rightarrow> nat \<Rightarrow> group_selector \<Rightarrow> nat \<times> group_selector" where
  "balance_loop others start [] best g = (best, g)"
| "balance_loop others start (offset # rest) best g =
     (let candidate = (start + offset) mod length (gs_members g);
          g1 = fold other_access (others (2 * offset)) g;
          g2 = fold other_access (others (2 * offset + 1)) g1;
          less = load_ratio_is_less (ld_in_flight (gs_load g1) ! candidate) (member_weight (gs_members g ! candidate))
            (ld_in_flight (gs_load g2) ! best) (member_weight (gs_members g ! best))
      in balance_loop others start rest (if less then candidate else best) g2)"

definition load_balance_index :: "load_events \<Rightarrow> group_selector \<Rightarrow> nat \<times> group_selector" where
  "load_balance_index others g =
     (let n = length (gs_members g);
          load = gs_load g;
          start = unat (ld_cursor load) mod n
      in balance_loop others start [1..<n] start (g\<lparr>gs_load := load\<lparr>ld_cursor := ld_cursor load + 1\<rparr>\<rparr>))"

definition select_primary :: "load_events \<Rightarrow> group_selector \<Rightarrow> (group_selector_error + nat) \<times> group_selector" where
  "select_primary others g =
     (case gs_mode g of
        RoundRobin \<Rightarrow>
          (let (selected, smooth) = smooth_select (gs_smooth g) (gs_members g) in (Inr selected, g\<lparr>gs_smooth := smooth\<rparr>))
      | LoadBalance \<Rightarrow> (let (selected, g) = load_balance_index others g in (Inr selected, g))
      | Failover \<Rightarrow> (Inr 0, g)
      | Parallel \<Rightarrow> (Inl (NoPrimary (gs_mode g)), g)
      | Sequential \<Rightarrow> (Inl (InvalidMode (gs_mode g)), g))"

text \<open>The increment of the chosen counter is the access with the number 0.\<close>

definition acquire_primary :: "load_events \<Rightarrow> group_selector \<Rightarrow> (group_selector_error + nat) \<times> group_selector" where
  "acquire_primary others g =
     (if gs_mode g \<noteq> LoadBalance then (Inl (InvalidMode (gs_mode g)), g)
      else
        let (index, g) = load_balance_index others g;
            g = fold other_access (others 0) g;
            load = gs_load g
        in (Inr index, g\<lparr>gs_load := load\<lparr>ld_in_flight := (ld_in_flight load)[index := ld_in_flight load ! index + 1]\<rparr>\<rparr>))"

definition in_flight :: "nat \<Rightarrow> group_selector \<Rightarrow> group_selector_error + 64 word" where
  "in_flight index g = ok_or (InvalidMemberIndex index) (nth_opt (ld_in_flight (gs_load g)) index)"

definition ordered_candidates :: "nat \<Rightarrow> group_selector \<Rightarrow> group_selector_error + nat list" where
  "ordered_candidates primary g =
     (if length (gs_members g) \<le> primary then Inl (InvalidMemberIndex primary)
      else Inr (filter (\<lambda>index. index \<noteq> primary) [0..<length (gs_members g)]))"

definition parallel_order :: "group_selector \<Rightarrow> nat list" where
  "parallel_order g = [0..<length (gs_members g)]"

section \<open>Construction\<close>

lemma members_loop_Inr:
  "members_loop mode previous ms current tot = Inr (current', total') \<Longrightarrow>
     current' = current @ replicate (length ms) 0 \<and> total' = tot + (\<Sum>m\<leftarrow>ms. weight m) \<and>
     (\<forall>m \<in> set ms. member_weight m \<noteq> 0)"
  by (induction mode previous ms current tot rule: members_loop.induct)
    (auto split: if_splits simp: replicate_append_same)

definition group_ok :: "group_selector \<Rightarrow> bool" where
  "group_ok g \<longleftrightarrow> gs_members g \<noteq> [] \<and> (\<forall>m \<in> set (gs_members g). member_weight m \<noteq> 0) \<and>
     length (ld_in_flight (gs_load g)) = length (gs_members g) \<and>
     sm_total_weight (gs_smooth g) = (\<Sum>m\<leftarrow>gs_members g. weight m)"

lemma group_selector_new_Inr:
  assumes "group_selector_new mode members = Inr g"
  shows "group_ok g" "gs_members g = members" "gs_mode g = mode" "sm_current (gs_smooth g) = replicate (length members) 0"
    "ld_in_flight (gs_load g) = replicate (length members) 0"
  using assms members_loop_Inr [of mode "[]" members "[]" 0]
  by (auto simp: group_selector_new_def group_ok_def split: if_splits)

lemma weight_pos: "member_weight m \<noteq> 0 \<Longrightarrow> 0 < weight m"
  by (metis uint_0_iff uint_ge_0 order_le_less)

lemma total_weight_pos: "ms \<noteq> [] \<Longrightarrow> (\<forall>m \<in> set ms. member_weight m \<noteq> 0) \<Longrightarrow> 0 < (\<Sum>m\<leftarrow>ms. weight m)"
proof (induction ms)
  case (Cons m ms)
  then show ?case using weight_pos [of m] by (cases "ms = []") fastforce+
qed simp

section \<open>One round of the round robin\<close>

lemma smooth_loop_spec:
  assumes "length current = index + length ms" "selected < length current" "selected \<le> index"
    and "\<forall>j < index. current ! j \<le> current ! selected" "index = 0 \<or> selected < index"
    and "smooth_loop index ms current selected = (current', selected')"
  shows "current' = take index current @ map2 (\<lambda>c m. c + weight m) (drop index current) ms \<and>
    selected' < length current \<and> (\<forall>j < length current. current' ! j \<le> current' ! selected')"
  using assms
proof (induction ms arbitrary: index current selected)
  case (Cons m ms)
  let ?c = "current[index := current ! index + weight m]"
  let ?s = "if ?c ! selected < ?c ! index then index else selected"
  have index: "index < length current" using Cons.prems(1) by simp
  have max: "\<forall>j < Suc index. ?c ! j \<le> ?c ! ?s"
    using Cons.prems(4,5) index by (auto simp: nth_list_update less_Suc_eq)
  have run: "smooth_loop (Suc index) ms ?c ?s = (current', selected')" using Cons.prems(6) by (simp add: Let_def)
  have bounds: "length ?c = Suc index + length ms" "?s < length ?c" "?s \<le> Suc index" "Suc index = 0 \<or> ?s < Suc index"
    using Cons.prems(1,2,3,5) index by auto
  have "take (Suc index) ?c = take index current @ [current ! index + weight m]" "drop (Suc index) ?c = drop (Suc index) current"
    "drop index current = current ! index # drop (Suc index) current"
    using index by (simp_all add: take_Suc_conv_app_nth Cons_nth_drop_Suc)
  then have same: "take (Suc index) ?c @ map2 (\<lambda>c m. c + weight m) (drop (Suc index) ?c) ms =
      take index current @ map2 (\<lambda>c m. c + weight m) (drop index current) (m # ms)" by simp
  show ?case using Cons.IH [OF bounds(1-3) max bounds(4) run] unfolding same length_list_update .
qed auto

lemma smooth_select_spec:
  assumes "length (sm_current st) = length ms" "ms \<noteq> []" "smooth_select st ms = (selected, st')"
  shows "selected < length ms" "sm_total_weight st' = sm_total_weight st" "length (sm_current st') = length ms"
    and "\<And>j. j < length ms \<Longrightarrow> sm_current st' ! j =
      sm_current st ! j + weight (ms ! j) - (if j = selected then sm_total_weight st else 0)"
    and "\<And>j. j < length ms \<Longrightarrow> sm_current st ! j + weight (ms ! j) \<le> sm_current st ! selected + weight (ms ! selected)"
proof -
  obtain current where loop: "smooth_loop 0 ms (sm_current st) 0 = (current, selected)"
    and st': "st' = st\<lparr>sm_current := current[selected := current ! selected - sm_total_weight st]\<rparr>"
    using assms(3) by (auto simp: smooth_select_def split: prod.splits)
  have "current = take 0 (sm_current st) @ map2 (\<lambda>c m. c + weight m) (drop 0 (sm_current st)) ms \<and>
      selected < length (sm_current st) \<and> (\<forall>j < length (sm_current st). current ! j \<le> current ! selected)"
    by (rule smooth_loop_spec [OF _ _ _ _ _ loop]) (use assms(1,2) in auto)
  then have spec: "current = map2 (\<lambda>c m. c + weight m) (sm_current st) ms" "selected < length ms"
    "\<forall>j < length ms. current ! j \<le> current ! selected"
    unfolding take_0 drop_0 append_Nil assms(1) by blast+
  then have nth: "current ! j = sm_current st ! j + weight (ms ! j)" if "j < length ms" for j using that assms(1) by simp
  show "selected < length ms" "sm_total_weight st' = sm_total_weight st" "length (sm_current st') = length ms"
    using spec assms(1) by (simp_all add: st')
  show "sm_current st' ! j = sm_current st ! j + weight (ms ! j) - (if j = selected then sm_total_weight st else 0)"
    if "j < length ms" for j
    using nth [OF that] nth [OF spec(2)] that spec(1) assms(1) by (simp add: st' nth_list_update)
  show "sm_current st ! j + weight (ms ! j) \<le> sm_current st ! selected + weight (ms ! selected)" if "j < length ms" for j
  proof -
    have "current ! j \<le> current ! selected" using spec(3) that by blast
    then show ?thesis by (simp only: nth [OF that] nth [OF spec(2)])
  qed
qed

section \<open>Fairness of the round robin\<close>

text \<open>The members chosen in a row, the latest first.\<close>

fun round_robin :: "nat \<Rightarrow> smooth_state \<Rightarrow> resolved_upstream_member list \<Rightarrow> nat list \<times> smooth_state" where
  "round_robin 0 st ms = ([], st)"
| "round_robin (Suc k) st ms =
     (let (chosen, st) = round_robin k st ms; (selected, st) = smooth_select st ms in (selected # chosen, st))"

text \<open>After \<open>k\<close> rounds the account of a member is what it is due minus what it got, in units of the total
  weight; the accounts add up to nothing and none is in debt by a whole unit.\<close>

definition accounts_ok :: "resolved_upstream_member list \<Rightarrow> nat \<Rightarrow> nat list \<Rightarrow> smooth_state \<Rightarrow> bool" where
  "accounts_ok ms k chosen st \<longleftrightarrow>
     length (sm_current st) = length ms \<and> sm_total_weight st = (\<Sum>m\<leftarrow>ms. weight m) \<and>
     length chosen = k \<and> (\<forall>i \<in> set chosen. i < length ms) \<and>
     (\<forall>j < length ms. sm_current st ! j = int k * weight (ms ! j) - sm_total_weight st * int (count_list chosen j) \<and>
        - sm_total_weight st < sm_current st ! j)"

lemma sum_weights: "(\<Sum>j<length ms. weight (ms ! j)) = (\<Sum>m\<leftarrow>ms. weight m)"
  by (simp add: sum_list_sum_nth atLeast0LessThan)

lemma sum_count_list: "\<forall>i \<in> set chosen. i < n \<Longrightarrow> (\<Sum>j<(n :: nat). count_list chosen j) = length chosen"
  by (rule sum_count_set) auto

lemma accounts_step:
  assumes ok: "accounts_ok ms k chosen st" and ms: "ms \<noteq> []" "\<forall>m \<in> set ms. member_weight m \<noteq> 0"
    and select: "smooth_select st ms = (selected, st')"
  shows "accounts_ok ms (Suc k) (selected # chosen) st'"
proof -
  let ?W = "sm_total_weight st"
  have len: "length (sm_current st) = length ms" and W: "?W = (\<Sum>m\<leftarrow>ms. weight m)"
    and acc: "\<And>j. j < length ms \<Longrightarrow> sm_current st ! j = int k * weight (ms ! j) - ?W * int (count_list chosen j)"
    and debt: "\<And>j. j < length ms \<Longrightarrow> - ?W < sm_current st ! j"
    and chosen: "length chosen = k" "\<forall>i \<in> set chosen. i < length ms"
    using ok by (auto simp: accounts_ok_def)
  note spec = smooth_select_spec [OF len ms(1) select]
  have pos: "0 < ?W" unfolding W by (rule total_weight_pos [OF ms])
  have "(\<Sum>j<length ms. sm_current st ! j) = 0"
  proof -
    have "(\<Sum>j<length ms. sm_current st ! j) = int k * (\<Sum>j<length ms. weight (ms ! j)) - ?W * int (\<Sum>j<length ms. count_list chosen j)"
      by (simp add: acc sum_subtractf sum_distrib_left)
    then show ?thesis unfolding sum_weights sum_count_list [OF chosen(2)] W [symmetric] by (simp add: chosen(1))
  qed
  then have raised: "(\<Sum>j<length ms. sm_current st ! j + weight (ms ! j)) = ?W" by (simp add: sum.distrib sum_weights W)
  have positive: "0 < sm_current st ! selected + weight (ms ! selected)"
  proof (rule ccontr)
    assume "\<not> 0 < sm_current st ! selected + weight (ms ! selected)"
    then have "(\<Sum>j<length ms. sm_current st ! j + weight (ms ! j)) \<le> 0" using spec(5) by (intro sum_nonpos) fastforce
    with raised pos show False by simp
  qed
  have "- ?W < sm_current st' ! j" if "j < length ms" for j
    using spec(4) [OF that] positive debt [OF that] weight_pos [of "ms ! j"] ms(2) that by (auto split: if_splits)
  moreover have "sm_current st' ! j = int (Suc k) * weight (ms ! j) - ?W * int (count_list (selected # chosen) j)"
    if "j < length ms" for j
    using spec(4) [OF that] acc [OF that] by (cases "j = selected") (simp_all add: algebra_simps)
  ultimately show ?thesis
    using spec(1-3) W chosen unfolding accounts_ok_def by simp
qed

lemma round_robin_accounts:
  assumes "ms \<noteq> []" "\<forall>m \<in> set ms. member_weight m \<noteq> 0" "accounts_ok ms 0 [] st" "round_robin k st ms = (chosen, st')"
  shows "accounts_ok ms k chosen st'"
  using assms(4)
proof (induction k arbitrary: chosen st')
  case (Suc k)
  then obtain cs s sel where "round_robin k st ms = (cs, s)" "smooth_select s ms = (sel, st')" "chosen = sel # cs"
    by (auto split: prod.splits)
  with accounts_step [OF Suc.IH assms(1,2)] show ?case by blast
qed (use assms(3) in simp)

section \<open>The least loaded member\<close>

text \<open>The products of a 64-bit and a 32-bit number do not wrap in 128 bits.\<close>

lemma unat_product: "unat ((ucast (a :: 64 word) :: 128 word) * ucast (b :: 32 word)) = unat a * unat b"
proof -
  have less: "unat a < 2 ^ 64" "unat b < 2 ^ 32" using unsigned_less [of a] unsigned_less [of b] by simp_all
  then have product: "unat a * unat b < 2 ^ 64 * 2 ^ 32" by (intro mult_strict_mono) simp_all
  have "unat (ucast a :: 128 word) = unat a" "unat (ucast b :: 128 word) = unat b"
    using less by (simp_all add: unsigned_ucast_eq take_bit_nat_eq_self_iff)
  with product show ?thesis by (simp add: unat_word_ariths)
qed

lemma load_ratio_is_less_iff: "load_ratio_is_less a wa b wb \<longleftrightarrow> unat a * unat wb < unat b * unat wa"
  by (simp add: load_ratio_is_less_def word_less_nat_alt unat_product)

lemma rotation_covers:
  assumes "j < (n :: nat)"
  obtains offset where "offset < n" "(start + offset) mod n = j"
proof
  show "(j + n - start mod n) mod n < n" using assms by simp
  have "(start + (j + n - start mod n) mod n) mod n = (start mod n + (j + n - start mod n)) mod n"
    by (simp add: mod_add_eq mod_add_left_eq mod_add_right_eq)
  also have "start mod n + (j + n - start mod n) = j + n" using assms mod_less_divisor [of n start] by linarith
  finally show "(start + (j + n - start mod n) mod n) mod n = j" using assms by simp
qed

abbreviation loads_of_group :: "group_selector \<Rightarrow> nat list" where
  "loads_of_group g \<equiv> map unat (ld_in_flight (gs_load g))"

text \<open>Without others the scan changes nothing.\<close>

lemma balance_loop_undisturbed:
  "start < length (gs_members g) \<Longrightarrow> best < length (gs_members g) \<Longrightarrow>
     \<exists>best'. balance_loop undisturbed start offsets best g = (best', g) \<and> best' < length (gs_members g)"
proof (induction offsets arbitrary: best)
  case (Cons offset rest)
  have "(start + offset) mod length (gs_members g) < length (gs_members g)" using Cons.prems(1) by (intro mod_less_divisor) linarith
  with Cons show ?case by (simp add: undisturbed_def Let_def)
qed simp

lemma load_balance_index_undisturbed:
  assumes "group_ok g" "load_balance_index undisturbed g = (best, g')"
  shows "best < length (gs_members g)" "g' = g\<lparr>gs_load := (gs_load g)\<lparr>ld_cursor := ld_cursor (gs_load g) + 1\<rparr>\<rparr>"
proof -
  let ?g = "g\<lparr>gs_load := (gs_load g)\<lparr>ld_cursor := ld_cursor (gs_load g) + 1\<rparr>\<rparr>"
  have "unat (ld_cursor (gs_load g)) mod length (gs_members g) < length (gs_members ?g)" using assms(1) by (simp add: group_ok_def)
  from balance_loop_undisturbed [OF this this, of "[1..<length (gs_members g)]"] assms(2)
  show "best < length (gs_members g)" "g' = ?g" by (auto simp: load_balance_index_def Let_def)
qed

section \<open>Leases\<close>

text \<open>The selector with the leases that are alive, each under the index of its member. As many leases as
  the counter has values do not fit the memory.\<close>

record group_world =
  gw_selector :: group_selector
  gw_leases :: "nat list"

text \<open>What others do while the selection lock is held: they may drop live leases and move the cursor, but take none.\<close>

fun leases_dropped :: "load_event list \<Rightarrow> nat list" where
  "leases_dropped [] = []"
| "leases_dropped (LeaseDropped i # events) = i # leases_dropped events"
| "leases_dropped (_ # events) = leases_dropped events"

definition scan_events :: "load_events \<Rightarrow> nat list \<Rightarrow> load_event list" where
  "scan_events others offsets = concat (map (\<lambda>offset. others (2 * offset) @ others (2 * offset + 1)) offsets)"

definition acquire_events :: "load_events \<Rightarrow> nat \<Rightarrow> load_event list" where
  "acquire_events others n = scan_events others [1..<n] @ others 0"

definition under_lock :: "load_event list \<Rightarrow> nat list \<Rightarrow> bool" where
  "under_lock events leases \<longleftrightarrow> (\<forall>i. LeaseTaken i \<notin> set events) \<and> mset (leases_dropped events) \<subseteq># mset leases"

text \<open>A selection without a lease changes the cursor alone, so what others do meanwhile can as well come before or
  after it.\<close>

inductive group_step :: "group_world \<Rightarrow> group_world \<Rightarrow> bool" where
  acquire: "acquire_primary others (gw_selector w) = (Inr i, g) \<Longrightarrow>
    under_lock (acquire_events others (length (gs_members (gw_selector w)))) (gw_leases w) \<Longrightarrow> length (gw_leases w) < u64_max \<Longrightarrow>
    group_step w \<lparr>gw_selector = g,
      gw_leases = i # fold remove1 (leases_dropped (acquire_events others (length (gs_members (gw_selector w))))) (gw_leases w)\<rparr>"
| release: "i \<in> set (gw_leases w) \<Longrightarrow>
    group_step w \<lparr>gw_selector = drop_selection_lease i (gw_selector w), gw_leases = remove1 i (gw_leases w)\<rparr>"
| select: "group_step w (w\<lparr>gw_selector := snd (select_primary undisturbed (gw_selector w))\<rparr>)"

definition leases_ok :: "resolved_upstream_member list \<Rightarrow> group_world \<Rightarrow> bool" where
  "leases_ok ms w \<longleftrightarrow> group_ok (gw_selector w) \<and> gs_members (gw_selector w) = ms \<and>
     length (gw_leases w) \<le> u64_max \<and> (\<forall>i \<in> set (gw_leases w). i < length ms) \<and>
     loads_of_group (gw_selector w) = map (count_list (gw_leases w)) [0..<length ms]"

lemma count_list_remove1: "x \<in> set xs \<Longrightarrow> count_list (remove1 x xs) y = count_list xs y - (if y = x then 1 else 0)"
  by (induction xs) (auto simp: count_list_0_iff Suc_diff_Suc)

lemma group_ok_load:
  "group_ok g \<Longrightarrow> length l = length (ld_in_flight (gs_load g)) \<Longrightarrow> group_ok (g\<lparr>gs_load := (gs_load g)\<lparr>ld_in_flight := l, ld_cursor := c\<rparr>\<rparr>)"
  by (simp add: group_ok_def)

lemma leases_ok_nth:
  assumes "leases_ok ms w" "j < length ms"
  shows "unat (ld_in_flight (gs_load (gw_selector w)) ! j) = count_list (gw_leases w) j"
proof -
  have "length (ld_in_flight (gs_load (gw_selector w))) = length ms" using assms(1) by (auto simp: leases_ok_def group_ok_def)
  then have "loads_of_group (gw_selector w) ! j = unat (ld_in_flight (gs_load (gw_selector w)) ! j)" using assms(2) by simp
  then show ?thesis using assms by (simp add: leases_ok_def)
qed

lemma loads_update:
  assumes "length xs = n" "i < n" "map unat xs = map f [0..<n]" "unat v = f' i" "\<And>j. j \<noteq> i \<Longrightarrow> f' j = f j"
  shows "map unat (xs[i := v]) = map f' [0..<n]"
proof (rule nth_equalityI)
  fix j assume "j < length (map unat (xs[i := v]))"
  then have j: "j < n" using assms(1) by simp
  have "map unat xs ! j = map f [0..<n] ! j" by (simp only: assms(3))
  then show "map unat (xs[i := v]) ! j = map f' [0..<n] ! j"
    using j assms(1,2,4,5) by (cases "j = i") simp_all
qed (simp add: assms(1))

abbreviation tracks :: "resolved_upstream_member list \<Rightarrow> group_selector \<Rightarrow> nat list \<Rightarrow> bool" where
  "tracks ms g leases \<equiv> leases_ok ms \<lparr>gw_selector = g, gw_leases = leases\<rparr>"

lemma tracks_world: "tracks ms (gw_selector w) (gw_leases w) \<longleftrightarrow> leases_ok ms w"
  by (simp add: leases_ok_def)

lemma drop_tracks:
  assumes "tracks ms g leases" "i \<in> set leases"
  shows "tracks ms (drop_selection_lease i g) (remove1 i leases)"
proof -
  let ?l = "ld_in_flight (gs_load g)"
  have ok: "group_ok g" "gs_members g = ms" and i: "i < length ms" using assms by (auto simp: leases_ok_def)
  have count: "unat (?l ! i) = count_list leases i" using leases_ok_nth [OF assms(1) i] by simp
  moreover have "count_list leases i \<noteq> 0" using assms(2) by (simp add: count_list_0_iff)
  ultimately have nonzero: "?l ! i \<noteq> 0" by (metis unsigned_0)
  then have g: "drop_selection_lease i g = g\<lparr>gs_load := (gs_load g)\<lparr>ld_in_flight := ?l[i := ?l ! i - 1], ld_cursor := ld_cursor (gs_load g)\<rparr>\<rparr>"
    by (simp add: drop_selection_lease_def Let_def)
  have "unat (?l ! i - 1) = count_list (remove1 i leases) i"
    using count assms(2) nonzero by (simp add: count_list_remove1 unat_minus_one)
  then have "map unat (?l[i := ?l ! i - 1]) = map (count_list (remove1 i leases)) [0..<length ms]"
    using assms ok i
    by (intro loads_update [where f = "count_list leases"]) (auto simp: leases_ok_def group_ok_def count_list_remove1)
  then show ?thesis
    using assms unfolding leases_ok_def g group_ok_def by (auto simp: length_remove1 dest: notin_set_remove1)
qed

lemma cursor_tracks: "tracks ms (g\<lparr>gs_load := (gs_load g)\<lparr>ld_cursor := c\<rparr>\<rparr>) leases \<longleftrightarrow> tracks ms g leases"
  by (simp add: leases_ok_def group_ok_def)

lemma other_members [simp]: "gs_members (other_access e g) = gs_members g" "gs_mode (other_access e g) = gs_mode g"
  by (cases e; simp add: drop_selection_lease_def Let_def)+

lemma others_members [simp]: "gs_members (fold other_access es g) = gs_members g" "gs_mode (fold other_access es g) = gs_mode g"
  by (induction es arbitrary: g) simp_all

lemma leases_dropped_append: "leases_dropped (es @ fs) = leases_dropped es @ leases_dropped fs"
  by (induction es rule: leases_dropped.induct) simp_all

lemma mset_fold_remove1: "mset (fold remove1 xs ys) = mset ys - mset (xs :: nat list)"
  by (induction xs arbitrary: ys) simp_all

lemma length_fold_remove1: "length (fold remove1 xs ys) \<le> length (ys :: nat list)"
  by (metis mset_fold_remove1 size_mset size_mset_mono diff_subset_eq_self)

lemma acquire_events_undisturbed: "acquire_events undisturbed n = []"
  by (simp add: acquire_events_def scan_events_def undisturbed_def)

lemma under_lock_append: "under_lock (es @ fs) leases \<Longrightarrow> under_lock es leases \<and> under_lock fs (fold remove1 (leases_dropped es) leases)"
proof -
  assume lock: "under_lock (es @ fs) leases"
  have all: "count (mset (leases_dropped es)) k + count (mset (leases_dropped fs)) k \<le> count (mset leases) k" for k
    using lock by (simp add: under_lock_def leases_dropped_append subseteq_mset_def)
  then have "mset (leases_dropped es) \<subseteq># mset leases" "mset (leases_dropped fs) \<subseteq># mset leases - mset (leases_dropped es)"
    unfolding subseteq_mset_def by (metis add_leD1, metis add_le_imp_le_diff add.commute count_diff)
  with lock show ?thesis by (simp add: under_lock_def mset_fold_remove1)
qed

lemma others_track:
  "tracks ms g leases \<Longrightarrow> under_lock es leases \<Longrightarrow> tracks ms (fold other_access es g) (fold remove1 (leases_dropped es) leases)"
proof (induction es arbitrary: g leases)
  case (Cons e es)
  have split: "under_lock [e] leases" "under_lock es (fold remove1 (leases_dropped [e]) leases)"
    using under_lock_append [of "[e]" es leases] Cons.prems(2) by simp_all
  have step: "tracks ms (other_access e g) (fold remove1 (leases_dropped [e]) leases)"
    using Cons.prems(1) split(1) by (cases e) (auto simp: under_lock_def drop_tracks cursor_tracks)
  then show ?case using Cons.IH [OF step split(2)] by (cases e) (simp_all)
qed simp

lemma count_fold_remove1: "count_list (fold remove1 xs ys) (k :: nat) = count_list ys k - count_list xs k"
  using arg_cong [OF mset_fold_remove1 [of xs ys], of "\<lambda>m. count m k"] by (simp add: count_mset)

text \<open>Member \<open>i\<close> has at most the leases of member \<open>j\<close> for its weight, the former counted now and the latter at the start.\<close>

definition lighter :: "resolved_upstream_member list \<Rightarrow> nat list \<Rightarrow> nat list \<Rightarrow> nat \<Rightarrow> nat \<Rightarrow> bool" where
  "lighter ms now before i j \<longleftrightarrow>
     count_list now i * unat (member_weight (ms ! j)) \<le> count_list before j * unat (member_weight (ms ! i))"

lemma lighter_later: "lighter ms now before i j \<Longrightarrow> lighter ms (fold remove1 xs now) before i j"
  unfolding lighter_def count_fold_remove1 by (rule order_trans [OF mult_le_mono1 [OF diff_le_self]])

lemma lighter_trans:
  assumes "count_list now i * unat (member_weight (ms ! k)) < b * unat (member_weight (ms ! i))"
    "b * unat (member_weight (ms ! j)) \<le> count_list before j * unat (member_weight (ms ! k))" "member_weight (ms ! k) \<noteq> 0"
  shows "lighter ms now before i j"
proof -
  let ?w = "\<lambda>i. unat (member_weight (ms ! i))"
  have "?w k * (count_list now i * ?w j) \<le> (b * ?w i) * ?w j" using mult_le_mono1 [OF less_imp_le [OF assms(1)], of "?w j"] by (simp add: ac_simps)
  also have "\<dots> \<le> ?w k * (count_list before j * ?w i)" using mult_le_mono1 [OF assms(2), of "?w i"] by (simp add: ac_simps)
  finally show ?thesis using assms(3) by (simp add: lighter_def unat_gt_0)
qed

text \<open>One comparison of the scan.\<close>

lemma balance_step_lighter:
  assumes g1: "tracks ms g1 leases1" and g2: "tracks ms g2 (fold remove1 xs leases1)" and c: "c < length ms" and best: "best < length ms"
    and seen: "\<forall>j \<in> S. lighter ms leases1 before best j" and less: "\<forall>j. count_list leases1 j \<le> count_list before j"
  defines "best' \<equiv> if load_ratio_is_less (ld_in_flight (gs_load g1) ! c) (member_weight (ms ! c))
    (ld_in_flight (gs_load g2) ! best) (member_weight (ms ! best)) then c else best"
  shows "\<forall>j \<in> insert c S. lighter ms (fold remove1 xs leases1) before best' j"
proof -
  let ?w = "\<lambda>i. unat (member_weight (ms ! i))" and ?now = "fold remove1 xs leases1"
  have loads: "unat (ld_in_flight (gs_load g1) ! c) = count_list leases1 c" "unat (ld_in_flight (gs_load g2) ! best) = count_list ?now best"
    using leases_ok_nth [OF g1 c] leases_ok_nth [OF g2 best] by simp_all
  have weight: "member_weight (ms ! best) \<noteq> 0" using g1 best by (auto simp: leases_ok_def group_ok_def)
  have seen': "\<forall>j \<in> S. lighter ms ?now before best j" using seen lighter_later by blast
  have now: "count_list ?now c \<le> count_list leases1 c" "count_list ?now c \<le> count_list before c"
    using less by (auto simp: count_fold_remove1 intro: order_trans [OF diff_le_self])
  show ?thesis
  proof (cases "count_list leases1 c * ?w best < count_list ?now best * ?w c")
    case True
    then have first: "count_list ?now c * ?w best < count_list ?now best * ?w c"
      using mult_le_mono1 [OF now(1), of "?w best"] by linarith
    have "lighter ms ?now before c j" if "j \<in> S" for j
      by (rule lighter_trans [OF first _ weight]) (use seen' that in \<open>simp add: lighter_def\<close>)
    moreover have "lighter ms ?now before c c" using now(2) by (simp add: lighter_def)
    ultimately show ?thesis using True by (simp add: best'_def load_ratio_is_less_iff loads)
  next
    case False
    then have "lighter ms ?now before best c"
      using mult_le_mono1 [OF less [rule_format, of c], of "?w best"] unfolding lighter_def by linarith
    then show ?thesis using False seen' by (simp add: best'_def load_ratio_is_less_iff loads)
  qed
qed

lemma balance_loop_lighter:
  "tracks ms g leases \<Longrightarrow> under_lock (scan_events others offsets) leases \<Longrightarrow> best < length ms \<Longrightarrow> ms \<noteq> [] \<Longrightarrow>
     \<forall>j \<in> S. lighter ms leases before best j \<Longrightarrow> \<forall>j. count_list leases j \<le> count_list before j \<Longrightarrow>
     balance_loop others start offsets best g = (best', g') \<Longrightarrow>
     best' < length ms \<and> tracks ms g' (fold remove1 (leases_dropped (scan_events others offsets)) leases) \<and>
     (\<forall>j \<in> S \<union> (\<lambda>offset. (start + offset) mod length ms) ` set offsets.
        lighter ms (fold remove1 (leases_dropped (scan_events others offsets)) leases) before best' j)"
proof (induction offsets arbitrary: best g leases S)
  case (Cons offset rest)
  let ?c = "(start + offset) mod length ms"
  let ?es = "others (2 * offset)" and ?fs = "others (2 * offset + 1)"
  let ?g1 = "fold other_access ?es g" and ?l1 = "fold remove1 (leases_dropped ?es) leases"
  let ?g2 = "fold other_access ?fs ?g1" and ?l2 = "fold remove1 (leases_dropped ?fs) ?l1"
  have events: "scan_events others (offset # rest) = ?es @ ?fs @ scan_events others rest" by (simp add: scan_events_def)
  have locks: "under_lock ?es leases" "under_lock ?fs ?l1" "under_lock (scan_events others rest) ?l2"
    using Cons.prems(2) under_lock_append unfolding events by blast+
  have g1: "tracks ms ?g1 ?l1" by (rule others_track [OF Cons.prems(1) locks(1)])
  have g2: "tracks ms ?g2 ?l2" by (rule others_track [OF g1 locks(2)])
  have ms: "gs_members g = ms" and c: "?c < length ms" using Cons.prems(1,4) by (simp_all add: leases_ok_def)
  have less: "\<forall>j. count_list ?l1 j \<le> count_list before j" "\<forall>j. count_list ?l2 j \<le> count_list before j"
    using Cons.prems(6) by (auto simp: count_fold_remove1 intro: order_trans [OF diff_le_self] le_diff_conv [THEN iffD2] trans_le_add1)
  have seen: "\<forall>j \<in> S. lighter ms ?l1 before best j" using Cons.prems(5) lighter_later by blast
  note step = balance_step_lighter [OF g1 g2 c Cons.prems(3) seen less(1)]
  let ?best = "if load_ratio_is_less (ld_in_flight (gs_load ?g1) ! ?c) (member_weight (ms ! ?c))
    (ld_in_flight (gs_load ?g2) ! best) (member_weight (ms ! best)) then ?c else best"
  have best: "?best < length ms" using c Cons.prems(3) by simp
  have run: "balance_loop others start rest ?best ?g2 = (best', g')" using Cons.prems(7) ms by (simp add: Let_def)
  have dropped: "fold remove1 (leases_dropped (scan_events others (offset # rest))) leases =
      fold remove1 (leases_dropped (scan_events others rest)) ?l2"
    by (simp add: events leases_dropped_append)
  show ?case unfolding dropped using Cons.IH [OF g2 locks(3) best Cons.prems(4) step less(2) run] by auto
qed (simp add: scan_events_def)

lemma load_balance_index_lighter:
  assumes "tracks ms g leases" "under_lock (scan_events others [1..<length ms]) leases" "load_balance_index others g = (best, g')"
  defines "now \<equiv> fold remove1 (leases_dropped (scan_events others [1..<length ms])) leases"
  shows "best < length ms" "tracks ms g' now" "j < length ms \<Longrightarrow> lighter ms now leases best j"
proof -
  let ?start = "unat (ld_cursor (gs_load g)) mod length ms"
  have ms: "gs_members g = ms" "ms \<noteq> []" using assms(1) by (auto simp: leases_ok_def group_ok_def)
  then have start: "?start < length ms" by simp
  have "\<forall>j \<in> {?start}. lighter ms leases leases ?start j" by (simp add: lighter_def)
  note loop = balance_loop_lighter [OF cursor_tracks [THEN iffD2, OF assms(1)] assms(2) start ms(2) this,
      where start = ?start, folded now_def]
  have "balance_loop others ?start [1..<length ms] ?start (g\<lparr>gs_load := (gs_load g)\<lparr>ld_cursor := ld_cursor (gs_load g) + 1\<rparr>\<rparr>) = (best, g')"
    using assms(3) ms(1) by (simp add: load_balance_index_def Let_def)
  note result = loop [OF _ this, rule_format, OF order_refl]
  show "best < length ms" by (rule result [THEN conjunct1])
  show "tracks ms g' now" by (rule result [THEN conjunct2, THEN conjunct1])
  show "lighter ms now leases best j" if j: "j < length ms"
  proof -
    obtain offset where "offset < length ms" "(?start + offset) mod length ms = j" by (rule rotation_covers [OF j])
    then have "j \<in> {?start} \<union> (\<lambda>offset. (?start + offset) mod length ms) ` set [1..<length ms]" by (cases offset) force+
    then show ?thesis by (rule result [THEN conjunct2, THEN conjunct2, rule_format])
  qed
qed

lemma acquire_tracks:
  assumes "tracks ms g leases" "under_lock (acquire_events others (length ms)) leases" "acquire_primary others g = (Inr i, g')"
  defines "now \<equiv> fold remove1 (leases_dropped (acquire_events others (length ms))) leases"
  shows "i < length ms" "length leases < u64_max \<Longrightarrow> tracks ms g' (i # now)" "j < length ms \<Longrightarrow> lighter ms now leases i j"
proof -
  let ?scan = "scan_events others [1..<length ms]"
  let ?mid = "fold remove1 (leases_dropped ?scan) leases"
  have locks: "under_lock ?scan leases" "under_lock (others 0) ?mid"
    using assms(2) under_lock_append unfolding acquire_events_def by blast+
  have now: "now = fold remove1 (leases_dropped (others 0)) ?mid" by (simp add: now_def acquire_events_def leases_dropped_append)
  obtain g1 where index: "load_balance_index others g = (i, g1)"
    and g: "g' = (let g = fold other_access (others 0) g1 in
      g\<lparr>gs_load := (gs_load g)\<lparr>ld_in_flight := (ld_in_flight (gs_load g))[i := ld_in_flight (gs_load g) ! i + 1], ld_cursor := ld_cursor (gs_load g)\<rparr>\<rparr>)"
    using assms(3) by (auto simp: acquire_primary_def Let_def split: if_splits prod.splits)
  note scan = load_balance_index_lighter [OF assms(1) locks(1) index]
  let ?g = "fold other_access (others 0) g1" and ?l = "ld_in_flight (gs_load (fold other_access (others 0) g1))"
  show i: "i < length ms" by (rule scan(1))
  show "lighter ms now leases i j" if "j < length ms" unfolding now by (rule lighter_later [OF scan(3) [OF that]])
  have ok: "tracks ms ?g now" unfolding now by (rule others_track [OF scan(2) locks(2)])
  assume "length leases < u64_max"
  then have short: "length now < u64_max" using length_fold_remove1 [of _ leases] by (auto simp: now_def intro: le_less_trans)
  then have "unat (?l ! i + 1) = count_list (i # now) i"
    using leases_ok_nth [OF ok i] count_le_length [of now i] by (simp add: unat_word_ariths u64_max_def)
  then have "map unat (?l[i := ?l ! i + 1]) = map (count_list (i # now)) [0..<length ms]"
    using ok i by (intro loads_update [where f = "count_list now"]) (auto simp: leases_ok_def group_ok_def)
  then show "tracks ms g' (i # now)"
    using short ok i unfolding leases_ok_def g by (auto simp: Let_def group_ok_def)
qed

lemma group_step_ok: "group_step w w' \<Longrightarrow> leases_ok ms w \<Longrightarrow> leases_ok ms w'"
proof (induction rule: group_step.induct)
  case (acquire others w i g)
  have "gs_members (gw_selector w) = ms" using acquire.prems by (simp add: leases_ok_def)
  with acquire show ?case using acquire_tracks(2) [of ms "gw_selector w" "gw_leases w" others i g] by (simp add: tracks_world)
next
  case (release i w)
  then show ?case using drop_tracks [of ms "gw_selector w" "gw_leases w" i] by (simp add: tracks_world)
next
  case (select w)
  let ?g = "gw_selector w" and ?h = "snd (select_primary undisturbed (gw_selector w))"
  have ok: "group_ok ?g" using select by (simp add: leases_ok_def)
  have "gs_members ?h = gs_members ?g" "ld_in_flight (gs_load ?h) = ld_in_flight (gs_load ?g)"
    "sm_total_weight (gs_smooth ?h) = sm_total_weight (gs_smooth ?g)"
    using load_balance_index_undisturbed(2) [OF ok] ok
    by (auto simp: select_primary_def smooth_select_def group_ok_def Let_def split: selection_policy.splits prod.splits)
  then show ?case using select by (auto simp: leases_ok_def group_ok_def)
qed

lemma leases_reachable_ok: "group_step\<^sup>*\<^sup>* w w' \<Longrightarrow> leases_ok ms w \<Longrightarrow> leases_ok ms w'"
  by (induction rule: rtranclp_induct) (auto dest: group_step_ok)

section \<open>Runs of the round robin\<close>

fun select_run :: "nat \<Rightarrow> group_selector \<Rightarrow> nat list \<times> group_selector" where
  "select_run 0 g = ([], g)"
| "select_run (Suc k) g =
     (let (chosen, g) = select_run k g in
      case select_primary undisturbed g of (Inr selected, g) \<Rightarrow> (selected # chosen, g) | (Inl _, g) \<Rightarrow> (chosen, g))"

lemma select_run_round_robin:
  "gs_mode g = RoundRobin \<Longrightarrow> select_run k g =
     (fst (round_robin k (gs_smooth g) (gs_members g)), g\<lparr>gs_smooth := snd (round_robin k (gs_smooth g) (gs_members g))\<rparr>)"
  by (induction k) (auto simp: select_primary_def Let_def split: prod.splits)

lemma accounts_period:
  assumes ok: "accounts_ok ms k chosen st" and ms: "ms \<noteq> []" "\<forall>m \<in> set ms. member_weight m \<noteq> 0"
    and k: "int k = int q * (\<Sum>m\<leftarrow>ms. weight m)" and j: "j < length ms"
  shows "int (count_list chosen j) = int q * weight (ms ! j)"
proof -
  let ?W = "\<Sum>m\<leftarrow>ms. weight m"
  have pos: "0 < ?W" by (rule total_weight_pos [OF ms])
  have upper: "int (count_list chosen i) \<le> int q * weight (ms ! i)" if "i < length ms" for i
  proof -
    have "?W * int (count_list chosen i) < ?W * (int q * weight (ms ! i) + 1)"
      using ok that by (fastforce simp: accounts_ok_def k algebra_simps)
    then show ?thesis using pos by (simp add: mult_less_cancel_left)
  qed
  have sums: "(\<Sum>i<length ms. int (count_list chosen i)) = (\<Sum>i<length ms. int q * weight (ms ! i))"
  proof -
    have "(\<Sum>i<length ms. int (count_list chosen i)) = int (\<Sum>i<length ms. count_list chosen i)" by simp
    also have "\<dots> = int k" using ok sum_count_list [of chosen "length ms"] by (simp add: accounts_ok_def)
    also have "\<dots> = (\<Sum>i<length ms. int q * weight (ms ! i))" by (simp add: k sum_distrib_left [symmetric] sum_weights)
    finally show ?thesis .
  qed
  show ?thesis
    by (rule sum_mono_inv [OF sums]) (use upper j in auto)
qed

section \<open>Concrete groups\<close>

definition sample_members :: "resolved_upstream_member list" where
  "sample_members = [\<lparr>member_name = ConfigId ''a'', member_weight = 3\<rparr>, \<lparr>member_name = ConfigId ''b'', member_weight = 1\<rparr>]"

definition sample_group :: "selection_policy \<Rightarrow> group_selector" where
  "sample_group mode = \<lparr>gs_mode = mode, gs_members = sample_members,
     gs_smooth = \<lparr>sm_current = [0, 0], sm_total_weight = 4\<rparr>, gs_load = \<lparr>ld_in_flight = [0, 0], ld_cursor = 0\<rparr>\<rparr>"

section \<open>Properties\<close>

text \<open>
  Property C19: the smooth round robin is fair. After any number of selections from a new group no member has
  been chosen a whole turn more often than its share, and after a whole number of periods (a period is as
  many selections as the weights add up to) every member has been chosen exactly its weight in each.
\<close>

theorem round_robin_fair:
  assumes "group_selector_new RoundRobin members = Inr g" "select_run k g = (chosen, g')" "j < length members"
  defines "W \<equiv> \<Sum>m\<leftarrow>members. weight m"
  shows "length chosen = k \<and> W * int (count_list chosen j) < int k * weight (members ! j) + W \<and>
    (\<forall>q. int k = int q * W \<longrightarrow> int (count_list chosen j) = int q * weight (members ! j))"
proof -
  note new = group_selector_new_Inr [OF assms(1)]
  have ms: "members \<noteq> []" "\<forall>m \<in> set members. member_weight m \<noteq> 0" using new(1,2) by (simp_all add: group_ok_def)
  have "accounts_ok members 0 [] (gs_smooth g)"
    using new total_weight_pos [OF ms] by (simp add: accounts_ok_def group_ok_def)
  moreover obtain st where "round_robin k (gs_smooth g) members = (chosen, st)"
    using assms(2) select_run_round_robin [OF new(3), of k] new(2) by (cases "round_robin k (gs_smooth g) members") simp
  ultimately have ok: "accounts_ok members k chosen st" using round_robin_accounts [OF ms] by blast
  then have "length chosen = k" "W * int (count_list chosen j) < int k * weight (members ! j) + W"
    using assms(3) by (auto simp: accounts_ok_def W_def)
  with accounts_period [OF ok ms _ assms(3)] show ?thesis by (simp add: W_def)
qed

theorem round_robin_fair_witness:
  "\<exists>chosen g'. select_run 8 (sample_group RoundRobin) = (chosen, g') \<and> count_list chosen 0 = 6 \<and> count_list chosen 1 = 2"
proof -
  obtain chosen g' where run: "select_run 8 (sample_group RoundRobin) = (chosen, g')" by fastforce
  have new: "group_selector_new RoundRobin sample_members = Inr (sample_group RoundRobin)" by code_simp
  have "int (count_list chosen 0) = 6" "int (count_list chosen 1) = 2"
    using round_robin_fair [OF new run, of 0] round_robin_fair [OF new run, of 1] by (force simp: sample_members_def)+
  with run show ?thesis by simp
qed


text \<open>The lease of the first member is dropped between the two loads of the next choice.\<close>

definition sample_drop :: load_events where
  "sample_drop k = (if k = 3 then [LeaseDropped 0] else [])"


end
