(* ===== verification/Request_Context.thy ===== *)
theory Request_Context
  imports Cache_Types
begin

text \<open>
  The cancellation handle and the deadline of a request (\<open>backend/src/dns/context.rs\<close>), as the upstream
  code reads them. A handle that is shared with other tasks is read as a snapshot at each place that looks at it.
\<close>

record cancellation =
  can_token :: bool
  can_reason :: "cancel_reason option"

definition cancellation_new :: cancellation where
  "cancellation_new = \<lparr>can_token = False, can_reason = None\<rparr>"

text \<open>The first reason that was set is kept.\<close>

definition cancel :: "cancel_reason \<Rightarrow> cancellation \<Rightarrow> cancellation" where
  "cancel reason c =
     \<lparr>can_token = True, can_reason = (case can_reason c of None \<Rightarrow> Some reason | Some first \<Rightarrow> Some first)\<rparr>"

definition shortened_to :: "deadline \<Rightarrow> instant \<Rightarrow> deadline" where
  "shortened_to deadline other = min deadline other"

text \<open>\<open>cancellation.reason().unwrap_or(CancelReason::UpstreamCancelled)\<close>.\<close>

definition reason_or_upstream :: "cancellation \<Rightarrow> cancel_reason" where
  "reason_or_upstream c = (case can_reason c of Some reason \<Rightarrow> reason | None \<Rightarrow> UpstreamCancelled)"

end
