(* ===== verification/Upstream_Executor.thy ===== *)
theory Upstream_Executor
  imports Upstream_Group Request_Context
begin

text \<open>
  The execution of an upstream group (\<open>backend/src/upstream/executor.rs\<close>): the binding of connectors to the
  members of a selector, one exchange against cancellation and deadline, the ordered and the parallel phase,
  the late results of a parallel phase and the fallback phase.

  What the asynchronous code observes is data of the environment: the state of the cancellation handle at
  each place that reads it, each clock reading, which branch of a \<open>select!\<close> wins, what a connector answers
  to a query and the order in which the tasks of a parallel phase finish. The result of a nested group is an
  answer of the environment too: it is a run of the same executor on another group. The value \<open>None\<close> is a panic.
\<close>

section \<open>Types\<close>

datatype executor_build_error =
    EmptyExchanges
  | InvalidTimeout
  | InvalidMemberId nat
  | DuplicateConnector string
  | MissingConnector string
  | UnexpectedConnector string

datatype executor_error =
    ExecutorSelector group_selector_error
  | ExecutorAggregate outcome_error
  | TaskFailed

record ('n, 'd, 'e) group_execution_result =
  gx_connector :: "connector_id option"
  gx_outcome :: "('n, 'd, 'e) upstream_outcome"

text \<open>The handle of a member: the trait object of a connector or the executor of a nested group, here by
  the connector id it answers to.\<close>

datatype group_member = Direct connector_id | Nested connector_id

record execution_phase =
  ep_selector :: group_selector
  ep_exchanges :: "group_member list"
  ep_timeout :: "duration option"

record upstream_group_executor =
  ex_primary :: execution_phase
  ex_fallback :: "execution_phase option"

fun member_connector_id :: "group_member \<Rightarrow> connector_id" where
  "member_connector_id (Direct c) = c"
| "member_connector_id (Nested c) = c"

section \<open>Construction\<close>

definition connector_char :: "char \<Rightarrow> bool" where
  "connector_char c \<longleftrightarrow> is_ascii_alphanumeric c \<or> c = CHR ''-'' \<or> c = CHR ''_'' \<or> c = CHR ''.''"

definition connector_id_new :: "string \<Rightarrow> connector_id option" where
  "connector_id_new value =
     (if value = [] \<or> 128 < length value then None
      else if \<not> list_all connector_char value then None
      else Some (ConnectorId value))"

text \<open>The map of the handles by their id; its iteration order is not specified, here it is that of the insertions.\<close>

fun collect_members ::
  "group_member list \<Rightarrow> (connector_id \<times> group_member) list \<Rightarrow> executor_build_error + (connector_id \<times> group_member) list" where
  "collect_members [] by_id = Inr by_id"
| "collect_members (m # ms) by_id =
     (if map_of by_id (member_connector_id m) \<noteq> None
      then Inl (DuplicateConnector (connector_str (member_connector_id m)))
      else collect_members ms (by_id @ [(member_connector_id m, m)]))"

text \<open>The loop over the members of the selector takes each handle out of the map.\<close>

fun bind_members ::
  "nat \<Rightarrow> resolved_upstream_member list \<Rightarrow> (connector_id \<times> group_member) list \<Rightarrow> group_member list \<Rightarrow>
     executor_build_error + group_member list \<times> (connector_id \<times> group_member) list" where
  "bind_members index [] by_id ordered = Inr (ordered, by_id)"
| "bind_members index (m # ms) by_id ordered =
     and_then (ok_or (InvalidMemberId index) (connector_id_new (id_str (member_name m)))) (\<lambda>cid.
     and_then (ok_or (MissingConnector (connector_str cid)) (map_of by_id cid)) (\<lambda>exchange.
     bind_members (Suc index) ms (AList.delete cid by_id) (ordered @ [exchange])))"

definition phase_new_members ::
  "group_selector \<Rightarrow> group_member list \<Rightarrow> duration option \<Rightarrow> executor_build_error + execution_phase" where
  "phase_new_members selector members limit =
     (if members = [] then Inl EmptyExchanges
      else if limit = Some 0 then Inl InvalidTimeout
      else and_then (collect_members members []) (\<lambda>by_id.
           and_then (bind_members 0 (gs_members selector) by_id []) (\<lambda>(ordered, by_id).
           case by_id of
             (cid, _) # _ \<Rightarrow> Inl (UnexpectedConnector (connector_str cid))
           | [] \<Rightarrow> Inr \<lparr>ep_selector = selector, ep_exchanges = ordered, ep_timeout = limit\<rparr>)))"

definition phase_new ::
  "group_selector \<Rightarrow> connector_id list \<Rightarrow> duration option \<Rightarrow> executor_build_error + execution_phase" where
  "phase_new selector exchanges limit = phase_new_members selector (map Direct exchanges) limit"

definition build ::
  "group_selector \<Rightarrow> connector_id list \<Rightarrow> duration option \<Rightarrow> execution_phase option \<Rightarrow>
     executor_build_error + upstream_group_executor" where
  "build selector exchanges limit fallback =
     and_then (phase_new selector exchanges limit) (\<lambda>primary. Inr \<lparr>ex_primary = primary, ex_fallback = fallback\<rparr>)"

definition build_members ::
  "group_selector \<Rightarrow> group_member list \<Rightarrow> duration option \<Rightarrow> execution_phase option \<Rightarrow>
     executor_build_error + upstream_group_executor" where
  "build_members selector members limit fallback =
     and_then (phase_new_members selector members limit) (\<lambda>primary. Inr \<lparr>ex_primary = primary, ex_fallback = fallback\<rparr>)"

definition executor_new :: "group_selector \<Rightarrow> connector_id list \<Rightarrow> executor_build_error + upstream_group_executor" where
  "executor_new selector exchanges = build selector exchanges None None"

definition new_with_timeout ::
  "group_selector \<Rightarrow> connector_id list \<Rightarrow> duration \<Rightarrow> executor_build_error + upstream_group_executor" where
  "new_with_timeout selector exchanges limit = build selector exchanges (Some limit) None"

definition new_with_fallback ::
  "group_selector \<Rightarrow> connector_id list \<Rightarrow> duration \<Rightarrow> group_selector \<Rightarrow> connector_id list \<Rightarrow> duration \<Rightarrow>
     executor_build_error + upstream_group_executor" where
  "new_with_fallback selector exchanges limit fallback_selector fallback_exchanges fallback_limit =
     and_then (phase_new fallback_selector fallback_exchanges (Some fallback_limit)) (\<lambda>fallback.
     build selector exchanges (Some limit) (Some fallback))"

definition new_with_members ::
  "group_selector \<Rightarrow> group_member list \<Rightarrow> duration \<Rightarrow> executor_build_error + upstream_group_executor" where
  "new_with_members selector members limit = build_members selector members (Some limit) None"

definition new_with_fallback_members ::
  "group_selector \<Rightarrow> group_member list \<Rightarrow> duration \<Rightarrow> group_selector \<Rightarrow> group_member list \<Rightarrow> duration \<Rightarrow>
     executor_build_error + upstream_group_executor" where
  "new_with_fallback_members selector members limit fallback_selector fallback_members fallback_limit =
     and_then (phase_new_members fallback_selector fallback_members (Some fallback_limit)) (\<lambda>fallback.
     build_members selector members (Some limit) (Some fallback))"

section \<open>One exchange\<close>

text \<open>The winning branch of the \<open>select!\<close> of \<open>run_exchange\<close>.\<close>

datatype race = CancelWins cancellation | SleepWins | ExchangeWins

text \<open>What one attempt observes: the handle before the exchange and at its start, the clock at its start, the
  winner, what the connector answers to a query, the result of a nested group, and the clock afterwards.\<close>

record ('n, 'd, 'e) attempt_env =
  ae_before :: cancellation
  ae_start :: cancellation
  ae_now :: instant
  ae_race :: race
  ae_direct :: "('n, 'd, 'e) canonical_query \<Rightarrow> ('n, 'd, 'e) upstream_outcome"
  ae_nested :: "executor_error + ('n, 'd, 'e) group_execution_result"
  ae_after :: instant

type_synonym ('n, 'd, 'e) member_queries = "(connector_id \<rightharpoonup> ('n, 'd, 'e) canonical_query) option"

fun exchange ::
  "group_member \<Rightarrow> ('n, 'd, 'e) canonical_query \<Rightarrow> ('n, 'd, 'e) member_queries \<Rightarrow> ('n, 'd, 'e) attempt_env \<Rightarrow>
     ('n, 'd, 'e) upstream_outcome" where
  "exchange (Direct cid) query queries env =
     ae_direct env (case Option.bind queries (\<lambda>m. m cid) of Some q \<Rightarrow> q | None \<Rightarrow> query)"
| "exchange (Nested cid) query queries env =
     (case ae_nested env of
        Inr result \<Rightarrow> gx_outcome result
      | Inl _ \<Rightarrow> OutcomeFailure \<lparr>tf_connector = cid, tf_class = FailInternal, tf_retryable = False,
          tf_safe_context = Some ''nested group execution failed''\<rparr>)"

definition cancelled_outcome :: "cancellation \<Rightarrow> ('n, 'd, 'e) upstream_outcome option" where
  "cancelled_outcome c = (if can_token c then Some (OutcomeCancelled (reason_or_upstream c)) else None)"

definition timeout_failure :: "group_member \<Rightarrow> ('n, 'd, 'e) upstream_outcome" where
  "timeout_failure member = OutcomeFailure \<lparr>tf_connector = member_connector_id member, tf_class = FailTimeout,
     tf_retryable = True, tf_safe_context = Some ''upstream group deadline''\<rparr>"

definition run_exchange ::
  "group_member \<Rightarrow> ('n, 'd, 'e) canonical_query \<Rightarrow> deadline \<Rightarrow> ('n, 'd, 'e) member_queries \<Rightarrow> ('n, 'd, 'e) attempt_env \<Rightarrow>
     ('n, 'd, 'e) upstream_outcome" where
  "run_exchange member query deadline queries env =
     (case cancelled_outcome (ae_start env) of
        Some outcome \<Rightarrow> outcome
      | None \<Rightarrow>
          if saturating_duration_since deadline (ae_now env) = 0 then timeout_failure member
          else case ae_race env of
              CancelWins c \<Rightarrow> OutcomeCancelled (reason_or_upstream c)
            | SleepWins \<Rightarrow> timeout_failure member
            | ExchangeWins \<Rightarrow> exchange member query queries env)"

section \<open>The ordered phase\<close>

text \<open>The loop over the candidates; the environment of an attempt is found under its number.\<close>

fun ordered_loop ::
  "group_member list \<Rightarrow> ('n, 'd, 'e) canonical_query \<Rightarrow> deadline \<Rightarrow> ('n, 'd, 'e) member_queries \<Rightarrow>
     (nat \<Rightarrow> ('n, 'd, 'e) attempt_env) \<Rightarrow> nat \<Rightarrow> nat list \<Rightarrow> ('n, 'd, 'e) upstream_attempt list option" where
  "ordered_loop exchanges query deadline queries envs attempt_index [] = Some []"
| "ordered_loop exchanges query deadline queries envs attempt_index (index # rest) =
     (case nth_opt exchanges index of
        None \<Rightarrow> None
      | Some member \<Rightarrow>
          let env = envs attempt_index;
              outcome = (case cancelled_outcome (ae_before env) of
                  Some outcome \<Rightarrow> outcome
                | None \<Rightarrow> run_exchange member query deadline queries env);
              attempt = \<lparr>ua_index = attempt_index, ua_connector = member_connector_id member, ua_outcome = outcome\<rparr>
          in if as_fallback (assess outcome) = FallbackStop \<or> is_expired deadline (ae_after env) then Some [attempt]
             else map_option (Cons attempt)
                    (ordered_loop exchanges query deadline queries envs (Suc attempt_index) rest))"

definition execute_ordered_members ::
  "execution_phase \<Rightarrow> ('n, 'd, 'e) canonical_query \<Rightarrow> deadline \<Rightarrow> ('n, 'd, 'e) member_queries \<Rightarrow>
     (nat \<Rightarrow> ('n, 'd, 'e) attempt_env) \<Rightarrow> nat \<Rightarrow> (executor_error + ('n, 'd, 'e) upstream_attempt list) option" where
  "execute_ordered_members phase query deadline queries envs primary =
     (case ordered_candidates primary (ep_selector phase) of
        Inl e \<Rightarrow> Some (Inl (ExecutorSelector e))
      | Inr candidates \<Rightarrow>
          map_option Inr (ordered_loop (ep_exchanges phase) query deadline queries envs 0 (primary # candidates)))"

text \<open>The selector after the phase: a lease of the balanced mode is dropped again. The phase is run for itself; what
  other requests do to the counters during a choice is in \<open>Upstream_Group\<close>.\<close>

definition execute_ordered ::
  "execution_phase \<Rightarrow> ('n, 'd, 'e) canonical_query \<Rightarrow> deadline \<Rightarrow> ('n, 'd, 'e) member_queries \<Rightarrow>
     (nat \<Rightarrow> ('n, 'd, 'e) attempt_env) \<Rightarrow>
     (executor_error + ('n, 'd, 'e) upstream_attempt list) option \<times> group_selector" where
  "execute_ordered phase query deadline queries envs =
     (case gs_mode (ep_selector phase) of
        LoadBalance \<Rightarrow>
          (case acquire_primary undisturbed (ep_selector phase) of
             (Inl e, selector) \<Rightarrow> (Some (Inl (ExecutorSelector e)), selector)
           | (Inr lease, selector) \<Rightarrow>
               (execute_ordered_members (phase\<lparr>ep_selector := selector\<rparr>) query deadline queries envs lease,
                drop_selection_lease lease selector))
      | Sequential \<Rightarrow> (None, ep_selector phase)
      | Parallel \<Rightarrow> (None, ep_selector phase)
      | _ \<Rightarrow>
          (case select_primary undisturbed (ep_selector phase) of
             (Inl e, selector) \<Rightarrow> (Some (Inl (ExecutorSelector e)), selector)
           | (Inr primary, selector) \<Rightarrow>
               (execute_ordered_members (phase\<lparr>ep_selector := selector\<rparr>) query deadline queries envs primary, selector)))"

section \<open>The parallel phase\<close>

text \<open>What a parallel phase observes: the handle before each task is spawned, the environment of each task,
  which tasks fail, the order in which they finish, and at each turn of the loop the handle if its
  branch, which is polled first, wins.\<close>

record ('n, 'd, 'e) parallel_env =
  pl_spawn :: "nat \<Rightarrow> cancellation"
  pl_task :: "nat \<Rightarrow> ('n, 'd, 'e) attempt_env"
  pl_failed :: "nat \<Rightarrow> bool"
  pl_finish :: "nat list"
  pl_cancel :: "nat \<Rightarrow> cancellation option"

text \<open>The result of a task, \<open>None\<close> for a \<open>JoinError\<close>.\<close>

definition task_result ::
  "group_member list \<Rightarrow> ('n, 'd, 'e) canonical_query \<Rightarrow> deadline \<Rightarrow> ('n, 'd, 'e) member_queries \<Rightarrow>
     ('n, 'd, 'e) parallel_env \<Rightarrow> nat \<Rightarrow> ('n, 'd, 'e) upstream_attempt option" where
  "task_result exchanges query deadline queries env index =
     (if pl_failed env index then None
      else Some \<lparr>ua_index = index, ua_connector = member_connector_id (exchanges ! index),
        ua_outcome = run_exchange (exchanges ! index) query deadline queries (pl_task env index)\<rparr>)"

definition is_positive :: "('n, 'd, 'e) upstream_outcome \<Rightarrow> bool" where
  "is_positive outcome \<longleftrightarrow> (case outcome of OutcomeResponse r \<Rightarrow> resp_class r = ClassPositive | _ \<Rightarrow> False)"

definition is_response :: "('n, 'd, 'e) upstream_outcome \<Rightarrow> bool" where
  "is_response outcome \<longleftrightarrow> (case outcome of OutcomeResponse r \<Rightarrow> True | _ \<Rightarrow> False)"

text \<open>The drain of the tasks that are left: the attempts it submits to the sink.\<close>

fun late_attempt_drain :: "('n, 'd, 'e) upstream_attempt option list \<Rightarrow> ('n, 'd, 'e) upstream_attempt list" where
  "late_attempt_drain [] = []"
| "late_attempt_drain (None # tasks) = []"
| "late_attempt_drain (Some attempt # tasks) =
     (if is_response (ua_outcome attempt) then attempt # late_attempt_drain tasks else late_attempt_drain tasks)"

text \<open>The spawning loop: the attempt of the first reading that is cancelled.\<close>

fun spawn_tasks ::
  "group_member list \<Rightarrow> (nat \<Rightarrow> cancellation) \<Rightarrow> nat list \<Rightarrow> (('n, 'd, 'e) upstream_attempt + unit) option" where
  "spawn_tasks exchanges spawn [] = Some (Inr ())"
| "spawn_tasks exchanges spawn (index # rest) =
     (case nth_opt exchanges index of
        None \<Rightarrow> None
      | Some member \<Rightarrow>
          (case cancelled_outcome (spawn index) of
             Some outcome \<Rightarrow> Some (Inl \<lparr>ua_index = index, ua_connector = member_connector_id member, ua_outcome = outcome\<rparr>)
           | None \<Rightarrow> spawn_tasks exchanges spawn rest))"

text \<open>The joining loop over the tasks that are left, with the attempts so far; the second result is what the
  sink receives.\<close>

fun join_tasks ::
  "group_member list \<Rightarrow> bool \<Rightarrow> (nat \<Rightarrow> cancellation option) \<Rightarrow> nat \<Rightarrow> ('n, 'd, 'e) upstream_attempt option list \<Rightarrow>
     ('n, 'd, 'e) upstream_attempt list \<Rightarrow>
     (executor_error + ('n, 'd, 'e) upstream_attempt list) option \<times> ('n, 'd, 'e) upstream_attempt list" where
  "join_tasks exchanges late_sink cancels_at turn [] attempts = (Some (Inr attempts), [])"
| "join_tasks exchanges late_sink cancels_at turn (joined # tasks) attempts =
     (case cancels_at turn of
        Some c \<Rightarrow>
          (case (cancelled_outcome c, exchanges) of
             (Some outcome, member # _) \<Rightarrow>
               (Some (Inr [\<lparr>ua_index = length exchanges, ua_connector = member_connector_id member, ua_outcome = outcome\<rparr>]), [])
           | _ \<Rightarrow> (None, []))
      | None \<Rightarrow>
          (case joined of
             None \<Rightarrow> (Some (Inl TaskFailed), [])
           | Some attempt \<Rightarrow>
               if is_positive (ua_outcome attempt)
               then (Some (Inr (attempts @ [attempt])), if late_sink then late_attempt_drain tasks else [])
               else join_tasks exchanges late_sink cancels_at (Suc turn) tasks (attempts @ [attempt])))"

definition execute_parallel ::
  "execution_phase \<Rightarrow> ('n, 'd, 'e) canonical_query \<Rightarrow> deadline \<Rightarrow> ('n, 'd, 'e) member_queries \<Rightarrow> bool \<Rightarrow>
     ('n, 'd, 'e) parallel_env \<Rightarrow>
     (executor_error + ('n, 'd, 'e) upstream_attempt list) option \<times> ('n, 'd, 'e) upstream_attempt list" where
  "execute_parallel phase query deadline queries late_sink env =
     (case spawn_tasks (ep_exchanges phase) (pl_spawn env) (parallel_order (ep_selector phase)) of
        None \<Rightarrow> (None, [])
      | Some (Inl attempt) \<Rightarrow> (Some (Inr [attempt]), [])
      | Some (Inr _) \<Rightarrow>
          join_tasks (ep_exchanges phase) late_sink (pl_cancel env) 0
            (map (task_result (ep_exchanges phase) query deadline queries env) (pl_finish env)) [])"

section \<open>Phases and fallback\<close>

record ('n, 'd, 'e) phase_env =
  pv_now :: instant
  pv_attempts :: "nat \<Rightarrow> ('n, 'd, 'e) attempt_env"
  pv_parallel :: "('n, 'd, 'e) parallel_env"

record ('n, 'd, 'e) phase_result =
  pr_result :: "('n, 'd, 'e) group_execution_result"
  pr_enter_fallback :: bool

text \<open>The deadline of the context of a phase.\<close>

definition phase_context :: "deadline \<Rightarrow> duration option \<Rightarrow> instant \<Rightarrow> deadline" where
  "phase_context deadline limit now =
     (case Option.bind limit (instant_checked_add now) of
        Some until \<Rightarrow> shortened_to deadline until
      | None \<Rightarrow> deadline)"

text \<open>A phase gives its result, the selector it leaves and what it sends to the sink.\<close>

definition phase_attempts ::
  "execution_phase \<Rightarrow> ('n, 'd, 'e) canonical_query \<Rightarrow> deadline \<Rightarrow> ('n, 'd, 'e) member_queries \<Rightarrow> bool \<Rightarrow> ('n, 'd, 'e) phase_env \<Rightarrow>
     (executor_error + ('n, 'd, 'e) upstream_attempt list) option \<times> execution_phase \<times> ('n, 'd, 'e) upstream_attempt list" where
  "phase_attempts phase query deadline queries late_sink env =
     (let deadline = phase_context deadline (ep_timeout phase) (pv_now env) in
      if gs_mode (ep_selector phase) = Parallel then
        (let (attempts, late) = execute_parallel phase query deadline queries late_sink (pv_parallel env)
         in (attempts, phase, late))
      else
        (let (attempts, selector) = execute_ordered phase query deadline queries (pv_attempts env)
         in (attempts, phase\<lparr>ep_selector := selector\<rparr>, [])))"

definition execute_phase ::
  "('n, 'd, 'e, 's) message_lib \<Rightarrow> execution_phase \<Rightarrow> ('n, 'd, 'e) canonical_query \<Rightarrow> deadline \<Rightarrow>
     ('n, 'd, 'e) member_queries \<Rightarrow> bool \<Rightarrow> ('n, 'd, 'e) phase_env \<Rightarrow>
     (executor_error + ('n, 'd, 'e) phase_result) option \<times> execution_phase \<times> ('n, 'd, 'e) upstream_attempt list" where
  "execute_phase lib phase query deadline queries late_sink env =
     (case phase_attempts phase query deadline queries late_sink env of
        (None, phase', late) \<Rightarrow> (None, phase', late)
      | (Some (Inl e), phase', late) \<Rightarrow> (Some (Inl e), phase', late)
      | (Some (Inr attempts), phase', late) \<Rightarrow>
          (case aggregate_with_connector lib (gs_mode (ep_selector phase)) query attempts of
             None \<Rightarrow> (None, phase', late)
           | Some (Inl e) \<Rightarrow> (Some (Inl (ExecutorAggregate e)), phase', late)
           | Some (Inr result) \<Rightarrow>
               (Some (Inr \<lparr>pr_result = \<lparr>gx_connector = ag_connector result, gx_outcome = ag_outcome result\<rparr>,
                  pr_enter_fallback = should_enter_fallback attempts\<rparr>), phase', late)))"

text \<open>Between the phases the handle and the clock are read once more.\<close>

record ('n, 'd, 'e) group_env =
  ge_primary :: "('n, 'd, 'e) phase_env"
  ge_cancellation :: cancellation
  ge_now :: instant
  ge_fallback :: "('n, 'd, 'e) phase_env"

definition execute_inner ::
  "('n, 'd, 'e, 's) message_lib \<Rightarrow> upstream_group_executor \<Rightarrow> ('n, 'd, 'e) canonical_query \<Rightarrow> deadline \<Rightarrow> bool \<Rightarrow>
     ('n, 'd, 'e) member_queries \<Rightarrow> ('n, 'd, 'e) group_env \<Rightarrow>
     (executor_error + ('n, 'd, 'e) group_execution_result) option \<times> upstream_group_executor \<times> ('n, 'd, 'e) upstream_attempt list" where
  "execute_inner lib ex query deadline late_sink queries env =
     (case execute_phase lib (ex_primary ex) query deadline queries late_sink (ge_primary env) of
        (None, primary, late) \<Rightarrow> (None, ex\<lparr>ex_primary := primary\<rparr>, late)
      | (Some (Inl e), primary, late) \<Rightarrow> (Some (Inl e), ex\<lparr>ex_primary := primary\<rparr>, late)
      | (Some (Inr result), primary, late) \<Rightarrow>
          (case ex_fallback ex of
             Some fallback \<Rightarrow>
               if \<not> pr_enter_fallback result \<or> can_token (ge_cancellation env) \<or> is_expired deadline (ge_now env)
               then (Some (Inr (pr_result result)), ex\<lparr>ex_primary := primary\<rparr>, late)
               else
                 (let (answer, fallback, late') = execute_phase lib fallback query deadline queries late_sink (ge_fallback env)
                  in (map_option (\<lambda>a. and_then a (\<lambda>r. Inr (pr_result r))) answer,
                      ex\<lparr>ex_primary := primary, ex_fallback := Some fallback\<rparr>, late @ late'))
           | None \<Rightarrow> (Some (Inr (pr_result result)), ex\<lparr>ex_primary := primary\<rparr>, late)))"

definition outcome_only ::
  "(executor_error + ('n, 'd, 'e) group_execution_result) option \<Rightarrow> (executor_error + ('n, 'd, 'e) upstream_outcome) option" where
  "outcome_only answer = map_option (\<lambda>a. and_then a (\<lambda>r. Inr (gx_outcome r))) answer"

definition execute ::
  "('n, 'd, 'e, 's) message_lib \<Rightarrow> upstream_group_executor \<Rightarrow> ('n, 'd, 'e) canonical_query \<Rightarrow> deadline \<Rightarrow> ('n, 'd, 'e) group_env \<Rightarrow>
     (executor_error + ('n, 'd, 'e) upstream_outcome) option" where
  "execute lib ex query deadline env = outcome_only (fst (execute_inner lib ex query deadline False None env))"

definition execute_with_late_sink ::
  "('n, 'd, 'e, 's) message_lib \<Rightarrow> upstream_group_executor \<Rightarrow> ('n, 'd, 'e) canonical_query \<Rightarrow> deadline \<Rightarrow> ('n, 'd, 'e) group_env \<Rightarrow>
     (executor_error + ('n, 'd, 'e) upstream_outcome) option \<times> ('n, 'd, 'e) upstream_attempt list" where
  "execute_with_late_sink lib ex query deadline env =
     (let (answer, _, late) = execute_inner lib ex query deadline True None env in (outcome_only answer, late))"

definition execute_with_selection ::
  "('n, 'd, 'e, 's) message_lib \<Rightarrow> upstream_group_executor \<Rightarrow> ('n, 'd, 'e) canonical_query \<Rightarrow> deadline \<Rightarrow>
     ('n, 'd, 'e) member_queries \<Rightarrow> ('n, 'd, 'e) group_env \<Rightarrow> (executor_error + ('n, 'd, 'e) group_execution_result) option" where
  "execute_with_selection lib ex query deadline queries env = fst (execute_inner lib ex query deadline False queries env)"

definition execute_with_selection_and_late_sink ::
  "('n, 'd, 'e, 's) message_lib \<Rightarrow> upstream_group_executor \<Rightarrow> ('n, 'd, 'e) canonical_query \<Rightarrow> deadline \<Rightarrow>
     ('n, 'd, 'e) member_queries \<Rightarrow> ('n, 'd, 'e) group_env \<Rightarrow>
     (executor_error + ('n, 'd, 'e) group_execution_result) option \<times> ('n, 'd, 'e) upstream_attempt list" where
  "execute_with_selection_and_late_sink lib ex query deadline queries env =
     (let (answer, _, late) = execute_inner lib ex query deadline True queries env in (answer, late))"

section \<open>Binding\<close>

abbreviation member_ids :: "group_selector \<Rightarrow> connector_id list" where
  "member_ids selector \<equiv> map (\<lambda>m. ConnectorId (id_str (member_name m))) (gs_members selector)"

abbreviation keyed :: "group_member list \<Rightarrow> (connector_id \<times> group_member) list" where
  "keyed ms \<equiv> map (\<lambda>m. (member_connector_id m, m)) ms"

lemma connector_id_new_Some: "connector_id_new value = Some cid \<Longrightarrow> cid = ConnectorId value"
  by (auto simp: connector_id_new_def split: if_splits)

lemma collect_members_Inr:
  "collect_members ms by_id = Inr result \<longleftrightarrow>
     result = by_id @ keyed ms \<and> distinct (map member_connector_id ms) \<and> set (map member_connector_id ms) \<inter> fst ` set by_id = {}"
  by (induction ms by_id rule: collect_members.induct) (auto simp: map_of_eq_None_iff)

lemma mset_delete: "distinct (map fst kvs) \<Longrightarrow> map_of kvs k = Some v \<Longrightarrow> mset kvs = add_mset (k, v) (mset (AList.delete k kvs))"
  by (induction kvs) (auto simp: AList.delete_id split: if_splits)

lemma bind_members_Inr:
  assumes "bind_members index ms by_id ordered = Inr (ordered', rest)" "distinct (map fst by_id)"
    "\<forall>(k, m) \<in> set by_id. k = member_connector_id m"
  shows "\<exists>xs. ordered' = ordered @ xs \<and> mset by_id = mset (keyed xs) + mset rest \<and>
    map member_connector_id xs = map (\<lambda>m. ConnectorId (id_str (member_name m))) ms \<and>
    (\<forall>m \<in> set ms. connector_id_new (id_str (member_name m)) \<noteq> None)"
  using assms
proof (induction index ms by_id ordered rule: bind_members.induct)
  case (2 index m ms by_id ordered)
  then obtain cid x where cid: "connector_id_new (id_str (member_name m)) = Some cid" and x: "map_of by_id cid = Some x"
    and run: "bind_members (Suc index) ms (AList.delete cid by_id) (ordered @ [x]) = Inr (ordered', rest)" by auto
  have keys: "distinct (map fst (AList.delete cid by_id))" "\<forall>(k, m) \<in> set (AList.delete cid by_id). k = member_connector_id m"
    using 2(3,4) by (auto simp: AList.delete_eq distinct_map_filter)
  obtain xs where "ordered' = ordered @ x # xs" "mset (AList.delete cid by_id) = mset (keyed xs) + mset rest"
    "map member_connector_id xs = map (\<lambda>m. ConnectorId (id_str (member_name m))) ms"
    "\<forall>m \<in> set ms. connector_id_new (id_str (member_name m)) \<noteq> None"
    using "2.IH" [OF cid [THEN iffD2 [OF ok_or_iff(1)]] x [THEN iffD2 [OF ok_or_iff(1)]] run keys] by auto
  moreover have "cid = member_connector_id x" using map_of_SomeD [OF x] 2(4) by blast
  ultimately show ?case
    using cid connector_id_new_Some [OF cid] mset_delete [OF 2(3) x] by (intro exI [of _ "x # xs"]) auto
qed auto

lemma bind_members_total:
  assumes "mset (map fst by_id) = mset (map (\<lambda>m. ConnectorId (id_str (member_name m))) ms)" "distinct (map fst by_id)"
    "\<forall>m \<in> set ms. connector_id_new (id_str (member_name m)) \<noteq> None"
  shows "\<exists>ordered'. bind_members index ms by_id ordered = Inr (ordered', [])"
  using assms
proof (induction index ms by_id ordered rule: bind_members.induct)
  case (2 index m ms by_id ordered)
  let ?cid = "ConnectorId (id_str (member_name m))"
  obtain cid where cid: "connector_id_new (id_str (member_name m)) = Some cid" using "2.prems"(3) by auto
  have "?cid \<in> set (map fst by_id)" using "2.prems"(1) by (metis list.set_intros(1) list.simps(9) set_mset_mset)
  then obtain x where x: "map_of by_id ?cid = Some x" by (metis map_of_eq_None_iff not_None_eq set_map)
  have same: "cid = ?cid" by (rule connector_id_new_Some [OF cid])
  have "mset (map fst (AList.delete ?cid by_id)) = mset (map (\<lambda>m. ConnectorId (id_str (member_name m))) ms)"
    using "2.prems"(1) mset_delete [OF "2.prems"(2) x] by simp
  moreover have "distinct (map fst (AList.delete ?cid by_id))" using "2.prems"(2) by (simp add: AList.delete_eq distinct_map_filter)
  ultimately have "\<exists>ordered'. bind_members (Suc index) ms (AList.delete ?cid by_id) (ordered @ [x]) = Inr (ordered', [])"
    using "2.IH" [of ?cid x] cid x same "2.prems"(3) by simp
  then show ?case using cid x same by simp
qed auto

lemma phase_new_members_Inr:
  assumes "phase_new_members selector members limit = Inr phase"
  shows "ep_selector phase = selector" "ep_timeout phase = limit" "mset (ep_exchanges phase) = mset members"
    "map member_connector_id (ep_exchanges phase) = member_ids selector" "distinct (member_ids selector)"
    "members \<noteq> []" "limit \<noteq> Some 0" "\<forall>m \<in> set (gs_members selector). connector_id_new (id_str (member_name m)) \<noteq> None"
proof -
  obtain ordered where members: "members \<noteq> []" "limit \<noteq> Some 0" "distinct (map member_connector_id members)"
    and bind: "bind_members 0 (gs_members selector) (keyed members) [] = Inr (ordered, [])"
    and phase: "phase = \<lparr>ep_selector = selector, ep_exchanges = ordered, ep_timeout = limit\<rparr>"
    using assms by (auto simp: phase_new_members_def collect_members_Inr split: if_splits list.splits) (metis neq_Nil_conv surj_pair)
  have "distinct (map fst (keyed members))" "\<forall>(k, m) \<in> set (keyed members). k = member_connector_id m"
    using members(3) by (auto simp: comp_def)
  from bind_members_Inr [OF bind this] have mset: "mset (keyed members) = mset (keyed ordered)"
    and ids: "map member_connector_id ordered = member_ids selector"
    and valid: "\<forall>m \<in> set (gs_members selector). connector_id_new (id_str (member_name m)) \<noteq> None" by auto
  have "mset (map snd (keyed members)) = mset (map snd (keyed ordered))" by (subst (1 2) mset_map) (simp only: mset)
  then have perm: "mset ordered = mset members" by (simp add: comp_def)
  have "mset (map member_connector_id members) = mset (map member_connector_id ordered)" by (simp only: mset_map perm)
  then have "mset (map member_connector_id members) = mset (member_ids selector)" by (simp only: ids)
  then show "distinct (member_ids selector)" using members(3) mset_eq_imp_distinct_iff by blast
  show "ep_selector phase = selector" "ep_timeout phase = limit" "mset (ep_exchanges phase) = mset members"
    "map member_connector_id (ep_exchanges phase) = member_ids selector" "members \<noteq> []" "limit \<noteq> Some 0"
    "\<forall>m \<in> set (gs_members selector). connector_id_new (id_str (member_name m)) \<noteq> None"
    using perm ids members(1,2) valid by (simp_all add: phase)
qed

lemma phase_new_members_total:
  assumes "members \<noteq> []" "limit \<noteq> Some 0" "\<forall>m \<in> set (gs_members selector). connector_id_new (id_str (member_name m)) \<noteq> None"
    "distinct (member_ids selector)" "mset (map member_connector_id members) = mset (member_ids selector)"
  shows "\<exists>phase. phase_new_members selector members limit = Inr phase"
proof -
  have distinct: "distinct (map member_connector_id members)" using assms(4,5) mset_eq_imp_distinct_iff by blast
  have "map fst (keyed members) = map member_connector_id members" by (simp add: comp_def)
  then obtain ordered where "bind_members 0 (gs_members selector) (keyed members) [] = Inr (ordered, [])"
    using bind_members_total [of "keyed members" "gs_members selector" 0 "[]"] assms(3,5) distinct by metis
  then show ?thesis using assms(1,2) distinct collect_members_Inr [of members "[]"] by (simp add: phase_new_members_def)
qed

section \<open>Well-formed phases\<close>

definition selector_ok :: "group_selector \<Rightarrow> bool" where
  "selector_ok g \<longleftrightarrow> group_ok g \<and> length (sm_current (gs_smooth g)) = length (gs_members g) \<and> gs_mode g \<noteq> Sequential"

definition phase_ok :: "execution_phase \<Rightarrow> bool" where
  "phase_ok phase \<longleftrightarrow> selector_ok (ep_selector phase) \<and> distinct (map member_connector_id (ep_exchanges phase)) \<and>
     length (ep_exchanges phase) = length (gs_members (ep_selector phase))"

definition executor_ok :: "upstream_group_executor \<Rightarrow> bool" where
  "executor_ok ex \<longleftrightarrow> phase_ok (ex_primary ex) \<and> (\<forall>fallback. ex_fallback ex = Some fallback \<longrightarrow> phase_ok fallback)"

lemma group_selector_new_ok:
  assumes "group_selector_new mode members = Inr g"
  shows "selector_ok g"
  using group_selector_new_Inr [OF assms] assms by (auto simp: selector_ok_def group_selector_new_def split: if_splits)

lemma phase_new_members_ok:
  assumes "phase_new_members selector members limit = Inr phase" "selector_ok selector"
  shows "phase_ok phase"
proof -
  note new = phase_new_members_Inr [OF assms(1)]
  have "length (ep_exchanges phase) = length (gs_members selector)" using arg_cong [OF new(4), of length] by simp
  then show ?thesis using new(1,4,5) assms(2) by (simp add: phase_ok_def)
qed

lemma load_balance_index_ok:
  assumes "selector_ok g" "load_balance_index undisturbed g = (i, g')"
  shows "i < length (gs_members g)" "selector_ok g'" "gs_members g' = gs_members g" "gs_mode g' = gs_mode g"
    "ld_in_flight (gs_load g') = ld_in_flight (gs_load g)"
proof -
  have "group_ok g" using assms(1) by (simp add: selector_ok_def)
  from load_balance_index_undisturbed [OF this assms(2)] assms(1)
  show "i < length (gs_members g)" "selector_ok g'" "gs_members g' = gs_members g" "gs_mode g' = gs_mode g"
    "ld_in_flight (gs_load g') = ld_in_flight (gs_load g)" by (auto simp: selector_ok_def group_ok_def)
qed

lemma acquire_primary_ok:
  assumes "selector_ok g" "gs_mode g = LoadBalance"
  obtains i g' where "acquire_primary undisturbed g = (Inr i, g')" "i < length (gs_members g)" "selector_ok g'" "gs_members g' = gs_members g"
    "gs_mode g' = gs_mode g" "ld_in_flight (gs_load g') = (ld_in_flight (gs_load g))[i := ld_in_flight (gs_load g) ! i + 1]"
proof -
  obtain i g1 where index: "load_balance_index undisturbed g = (i, g1)" by fastforce
  note ok = load_balance_index_ok [OF assms(1) index]
  show thesis
    by (rule that [of i "snd (acquire_primary undisturbed g)"])
      (use ok assms in \<open>auto simp: acquire_primary_def undisturbed_def [of 0] index Let_def selector_ok_def group_ok_def\<close>)
qed

lemma select_primary_ok:
  assumes "selector_ok g" "gs_mode g \<noteq> Parallel"
  obtains i g' where "select_primary undisturbed g = (Inr i, g')" "i < length (gs_members g)" "selector_ok g'" "gs_members g' = gs_members g"
    "gs_mode g' = gs_mode g" "ld_in_flight (gs_load g') = ld_in_flight (gs_load g)"
proof (cases "gs_mode g")
  case RoundRobin
  have len: "length (sm_current (gs_smooth g)) = length (gs_members g)" "gs_members g \<noteq> []"
    using assms(1) by (simp_all add: selector_ok_def group_ok_def)
  obtain i st where select: "smooth_select (gs_smooth g) (gs_members g) = (i, st)" by fastforce
  note spec = smooth_select_spec(1-3) [OF len select]
  show thesis
    by (rule that [of i "g\<lparr>gs_smooth := st\<rparr>"])
      (use spec select RoundRobin assms(1) in \<open>auto simp: select_primary_def selector_ok_def group_ok_def\<close>)
next
  case LoadBalance
  obtain i g1 where index: "load_balance_index undisturbed g = (i, g1)" by fastforce
  show thesis
    by (rule that [of i g1]) (use load_balance_index_ok [OF assms(1) index] LoadBalance index in \<open>auto simp: select_primary_def\<close>)
next
  case Failover
  show thesis by (rule that [of 0 g]) (use assms Failover in \<open>auto simp: select_primary_def selector_ok_def group_ok_def\<close>)
qed (use assms in \<open>simp_all add: selector_ok_def\<close>)

lemma drop_selection_lease_ok:
  "selector_ok g \<Longrightarrow> selector_ok (drop_selection_lease i g)"
  "gs_members (drop_selection_lease i g) = gs_members g" "gs_mode (drop_selection_lease i g) = gs_mode g"
  by (auto simp: drop_selection_lease_def selector_ok_def group_ok_def Let_def)

section \<open>The ordered phase: attempts and result\<close>

abbreviation continues :: "('n, 'd, 'e) upstream_attempt \<Rightarrow> bool" where
  "continues a \<equiv> as_fallback (assess (ua_outcome a)) = FallbackContinue"

text \<open>The attempts of a run over some candidates: the first of them in order, numbered from \<open>k\<close>, all but the
  last inviting the next, and none left out unless the last one stops the run or the deadline has passed.\<close>

definition attempts_of ::
  "group_member list \<Rightarrow> deadline \<Rightarrow> (nat \<Rightarrow> ('n, 'd, 'e) attempt_env) \<Rightarrow> nat \<Rightarrow> nat list \<Rightarrow> ('n, 'd, 'e) upstream_attempt list \<Rightarrow> bool" where
  "attempts_of exchanges deadline envs k indices attempts \<longleftrightarrow>
     map ua_index attempts = [k..<k + length attempts] \<and>
     (\<exists>left. map (\<lambda>i. member_connector_id (exchanges ! i)) indices = map ua_connector attempts @ left \<and>
        (left \<noteq> [] \<longrightarrow> attempts \<noteq> [] \<and>
          (\<not> continues (last attempts) \<or> is_expired deadline (ae_after (envs (k + length attempts - 1)))))) \<and>
     list_all continues (butlast attempts)"

lemma ordered_loop_attempts:
  assumes "\<forall>i \<in> set indices. i < length exchanges"
  shows "\<exists>attempts. ordered_loop exchanges query deadline queries envs k indices = Some attempts \<and>
    attempts_of exchanges deadline envs k indices attempts \<and> (indices \<noteq> [] \<longrightarrow> attempts \<noteq> [])"
  using assms
proof (induction indices arbitrary: k)
  case (Cons index rest)
  define outcome where "outcome = (case cancelled_outcome (ae_before (envs k)) of
      Some outcome \<Rightarrow> outcome | None \<Rightarrow> run_exchange (exchanges ! index) query deadline queries (envs k))"
  define attempt where "attempt = \<lparr>ua_index = k, ua_connector = member_connector_id (exchanges ! index), ua_outcome = outcome\<rparr>"
  have unfold: "ordered_loop exchanges query deadline queries envs k (index # rest) =
      (if \<not> continues attempt \<or> is_expired deadline (ae_after (envs k)) then Some [attempt]
       else map_option (Cons attempt) (ordered_loop exchanges query deadline queries envs (Suc k) rest))"
    using Cons.prems fallback_decision.exhaust [of "as_fallback (assess outcome)"]
    by (auto simp: attempt_def outcome_def nth_opt_def Let_def)
  show ?case
  proof (cases "\<not> continues attempt \<or> is_expired deadline (ae_after (envs k))")
    case True
    then have "attempts_of exchanges deadline envs k (index # rest) [attempt]"
      by (auto simp: attempts_of_def attempt_def)
    then show ?thesis using True by (simp only: unfold) simp
  next
    case False
    then have go: "continues attempt" "\<not> is_expired deadline (ae_after (envs k))" by simp_all
    obtain attempts where run: "ordered_loop exchanges query deadline queries envs (Suc k) rest = Some attempts"
      and ok: "attempts_of exchanges deadline envs (Suc k) rest attempts" and some: "rest \<noteq> [] \<longrightarrow> attempts \<noteq> []"
      using Cons.IH [of "Suc k"] Cons.prems by auto
    have "attempts_of exchanges deadline envs k (index # rest) (attempt # attempts)"
      using ok some go unfolding attempts_of_def
      by (auto simp: attempt_def upt_conv_Cons)
    then show ?thesis unfolding unfold using run go by (intro exI [of _ "attempt # attempts"]) simp
  qed
qed (simp add: attempts_of_def)

lemma ordered_candidates_ok:
  assumes "primary < length (gs_members g)" "ordered_candidates primary g = Inr candidates"
  shows "distinct (primary # candidates)" "set (primary # candidates) = {..<length (gs_members g)}"
  using assms by (auto simp: ordered_candidates_def)

text \<open>A run gives back the lease it took: the counters are those from before it, unless one was at its maximum.\<close>

definition same_loads :: "group_selector \<Rightarrow> group_selector \<Rightarrow> bool" where
  "same_loads g g' \<longleftrightarrow> (-1 \<notin> set (ld_in_flight (gs_load g)) \<longrightarrow> ld_in_flight (gs_load g') = ld_in_flight (gs_load g))"

lemma lease_given_back:
  assumes "i < length (ld_in_flight (gs_load g))"
    "ld_in_flight (gs_load g') = (ld_in_flight (gs_load g))[i := ld_in_flight (gs_load g) ! i + 1]"
  shows "same_loads g (drop_selection_lease i g')"
proof -
  have "ld_in_flight (gs_load g) ! i + 1 = 0 \<longleftrightarrow> ld_in_flight (gs_load g) ! i = -1"
    by (metis add.commute add_eq_0_iff)
  then show ?thesis
    using assms by (auto simp: same_loads_def drop_selection_lease_def Let_def in_set_conv_nth)
qed

lemma execute_ordered_attempts:
  assumes "phase_ok phase" "gs_mode (ep_selector phase) \<noteq> Parallel"
  obtains primary candidates attempts selector where
    "execute_ordered phase query deadline queries envs = (Some (Inr attempts), selector)" "phase_ok (phase\<lparr>ep_selector := selector\<rparr>)"
    "same_loads (ep_selector phase) selector" "distinct (primary # candidates)"
    "set (primary # candidates) = {..<length (ep_exchanges phase)}"
    "attempts_of (ep_exchanges phase) deadline envs 0 (primary # candidates) attempts" "attempts \<noteq> []"
proof -
  note result = that
  let ?g = "ep_selector phase"
  have ok: "selector_ok ?g" and len: "length (ep_exchanges phase) = length (gs_members ?g)" using assms(1) by (simp_all add: phase_ok_def)
  have run: thesis
    if members: "gs_members g' = gs_members ?g" "gs_members g'' = gs_members ?g" and primary: "primary < length (gs_members ?g)"
      and ok': "selector_ok g''" "same_loads ?g g''"
      and eq: "execute_ordered phase query deadline queries envs =
        (execute_ordered_members (phase\<lparr>ep_selector := g'\<rparr>) query deadline queries envs primary, g'')" for g' g'' primary
  proof -
    obtain candidates where candidates: "ordered_candidates primary g' = Inr candidates"
      using primary members(1) by (simp add: ordered_candidates_def)
    have order: "distinct (primary # candidates)" "set (primary # candidates) = {..<length (ep_exchanges phase)}"
      using ordered_candidates_ok [of primary g' candidates] primary candidates members(1) len by simp_all
    then obtain attempts where
      "ordered_loop (ep_exchanges phase) query deadline queries envs 0 (primary # candidates) = Some attempts"
      "attempts_of (ep_exchanges phase) deadline envs 0 (primary # candidates) attempts" "attempts \<noteq> []"
      using ordered_loop_attempts [of "primary # candidates" "ep_exchanges phase" query deadline queries envs 0] by auto
    then show thesis
      using eq candidates members(2) ok' assms(1) order by (intro result [of attempts g'' primary candidates]) (simp_all del: ordered_loop.simps add: execute_ordered_members_def phase_ok_def)
  qed
  show thesis
  proof (cases "gs_mode ?g = LoadBalance")
    case True
    obtain i g' where acquired: "acquire_primary undisturbed ?g = (Inr i, g')" "i < length (gs_members ?g)" "selector_ok g'"
      "gs_members g' = gs_members ?g" "ld_in_flight (gs_load g') = (ld_in_flight (gs_load ?g))[i := ld_in_flight (gs_load ?g) ! i + 1]"
      by (rule acquire_primary_ok [OF ok True])
    then have "same_loads ?g (drop_selection_lease i g')"
      using ok by (intro lease_given_back) (simp_all add: selector_ok_def group_ok_def)
    with acquired show thesis
      using True by (intro run [of g' "drop_selection_lease i g'" i]) (simp_all add: execute_ordered_def drop_selection_lease_ok)
  next
    case False
    obtain i g' where selected: "select_primary undisturbed ?g = (Inr i, g')" "i < length (gs_members ?g)" "selector_ok g'"
      "gs_members g' = gs_members ?g" "ld_in_flight (gs_load g') = ld_in_flight (gs_load ?g)"
      by (rule select_primary_ok [OF ok assms(2)])
    then have "same_loads ?g g'" by (simp add: same_loads_def)
    with selected show thesis
      using False assms(2) ok by (intro run [of g' g' i]; cases "gs_mode ?g") (simp_all add: execute_ordered_def selector_ok_def)
  qed
qed

lemma continues_silent:
  assumes "list_all continues as"
  shows "cancels as = []" "answers as = []" "list_all (\<lambda>a. \<not> blocks a) as"
proof -
  have "(case ua_outcome a of OutcomeCancelled reason \<Rightarrow> [(ua_connector a, reason)] | _ \<Rightarrow> []) = []"
    "(case ua_outcome a of OutcomeResponse r \<Rightarrow>
        if resp_class r \<noteq> ClassServFail \<and> resp_class r \<noteq> ClassTruncated then [(ua_connector a, r)] else [] | _ \<Rightarrow> []) = []"
    "\<not> blocks a" if "continues a" for a :: "('a, 'b, 'c) upstream_attempt"
    using that by (cases "ua_outcome a"; auto simp: blocks_def split: if_splits)+
  with assms show "cancels as = []" "answers as = []" "list_all (\<lambda>a. \<not> blocks a) as"
    by (auto simp: cancels_def answers_def list_all_iff)
qed

text \<open>The result of an ordered run is that of its last attempt, or SERVFAIL when that is no answer.\<close>

definition last_result ::
  "('n, 'd, 'e) upstream_attempt \<Rightarrow> ('n, 'd, 'e) canonical_response \<Rightarrow> ('n, 'd, 'e) group_execution_result" where
  "last_result attempt fixed =
     (case ua_outcome attempt of
        OutcomeCancelled reason \<Rightarrow> \<lparr>gx_connector = Some (ua_connector attempt), gx_outcome = OutcomeCancelled reason\<rparr>
      | OutcomeResponse response \<Rightarrow>
          if continues attempt then \<lparr>gx_connector = None, gx_outcome = OutcomeResponse fixed\<rparr>
          else \<lparr>gx_connector = Some (ua_connector attempt), gx_outcome = OutcomeResponse response\<rparr>
      | OutcomeFailure _ \<Rightarrow> \<lparr>gx_connector = None, gx_outcome = OutcomeResponse fixed\<rparr>)"

lemma choice_of_last:
  assumes "mode \<noteq> Parallel" "as \<noteq> []" "list_all continues (butlast as)"
  shows "\<lparr>gx_connector = ag_connector (group_choice mode as fixed), gx_outcome = ag_outcome (group_choice mode as fixed)\<rparr> =
    last_result (last as) fixed"
proof -
  let ?a = "last as"
  have as: "as = butlast as @ [?a]" using assms(2) by simp
  note silent = continues_silent [OF assms(3)]
  have "cancels as = cancels [?a]" by (subst as) (use silent(1) in \<open>simp add: cancels_def\<close>)
  then have cancelled: "first_max (\<lambda>(_, r). cancel_priority r) None (cancels as) =
      (case ua_outcome ?a of OutcomeCancelled reason \<Rightarrow> Some (ua_connector ?a, reason) | _ \<Rightarrow> None)"
    by (simp add: cancels_def split: upstream_outcome.split)
  have "takeWhile (\<lambda>a. \<not> blocks a) as = butlast as @ takeWhile (\<lambda>a. \<not> blocks a) [?a]"
    by (subst as, rule takeWhile_append2) (use silent(3) in \<open>simp add: list_all_iff\<close>)
  then have "answers (takeWhile (\<lambda>a. \<not> blocks a) as) = answers (takeWhile (\<lambda>a. \<not> blocks a) [?a])"
    using silent(2) by (simp add: answers_def)
  then have best: "best_answer mode as =
      (case ua_outcome ?a of OutcomeResponse r \<Rightarrow> if continues ?a then None else Some (ua_connector ?a, r) | _ \<Rightarrow> None)"
    using assms(1) by (simp add: best_answer_def answers_def blocks_def split: upstream_outcome.split)
  show ?thesis by (cases "ua_outcome ?a") (simp_all add: group_choice_def cancelled best last_result_def)
qed

lemma choice_of_fallback:
  assumes "should_enter_fallback as"
  shows "group_choice mode (sort_key ua_index as) fixed = \<lparr>ag_connector = None, ag_outcome = OutcomeResponse fixed\<rparr>"
proof -
  have "list_all continues (sort_key ua_index as)" using assms by (simp add: should_enter_fallback_def list_all_iff)
  note silent = continues_silent [OF this]
  have "takeWhile (\<lambda>a. \<not> blocks a) (sort_key ua_index as) = sort_key ua_index as"
    using silent(3) by (simp add: takeWhile_eq_all_conv list_all_iff)
  then show ?thesis by (simp only: group_choice_def best_answer_def silent) simp
qed

section \<open>The parallel phase: attempts and late results\<close>

text \<open>The environment of a parallel phase follows the runtime: every task finishes once, and the branch of
  the cancellation wins only when the token is cancelled.\<close>

definition parallel_env_ok :: "nat \<Rightarrow> ('n, 'd, 'e) parallel_env \<Rightarrow> bool" where
  "parallel_env_ok n env \<longleftrightarrow> distinct (pl_finish env) \<and> set (pl_finish env) = {..<n} \<and>
     (\<forall>turn c. pl_cancel env turn = Some c \<longrightarrow> can_token c)"

lemma join_tasks_result:
  assumes "exchanges \<noteq> []" "\<forall>turn c. cancels_at turn = Some c \<longrightarrow> can_token c"
    "distinct (map ua_index attempts @ map (\<lambda>t. ua_index (the t)) (filter (\<lambda>t. t \<noteq> None) tasks))"
  shows "\<exists>late. join_tasks exchanges late_sink cancels_at turn tasks attempts = (Some (Inl TaskFailed), late) \<and> None \<in> set tasks \<or>
    (\<exists>result. join_tasks exchanges late_sink cancels_at turn tasks attempts = (Some (Inr result), late) \<and>
      distinct (map ua_index result))"
  using assms(3)
proof (induction tasks arbitrary: turn attempts)
  case (Cons joined tasks)
  show ?case
  proof (cases "cancels_at turn")
    case None
    show ?thesis
    proof (cases joined)
      case (Some attempt)
      have "distinct (map ua_index (attempts @ [attempt]) @ map (\<lambda>t. ua_index (the t)) (filter (\<lambda>t. t \<noteq> None) tasks))"
        using Cons.prems Some by auto
      from Cons.IH [OF this, of "Suc turn"] this None Some show ?thesis by auto
    qed (use None in simp)
  next
    case (Some c)
    then have "can_token c" using assms(2) by blast
    with Some assms(1) show ?thesis by (cases exchanges) (auto simp: cancelled_outcome_def)
  qed
qed simp

lemma spawn_tasks_total:
  assumes "\<forall>i \<in> set indices. i < length exchanges"
  shows "\<exists>r. spawn_tasks exchanges spawn indices = Some r"
  using assms by (induction indices) (auto simp: nth_opt_def split: option.splits)

lemma execute_parallel_result:
  fixes query :: "('n, 'd, 'e) canonical_query"
  assumes "phase_ok phase" "parallel_env_ok (length (ep_exchanges phase)) env"
  shows "\<exists>late. execute_parallel phase query deadline queries late_sink env = (Some (Inl TaskFailed), late) \<and>
      (\<exists>i < length (ep_exchanges phase). pl_failed env i) \<or>
    (\<exists>attempts. execute_parallel phase query deadline queries late_sink env = (Some (Inr attempts), late) \<and>
      distinct (map ua_index attempts))"
proof -
  let ?ex = "ep_exchanges phase"
  let ?task = "task_result ?ex query deadline queries env"
  have nonempty: "?ex \<noteq> []" using assms(1) by (auto simp: phase_ok_def selector_ok_def group_ok_def)
  have in_range: "\<forall>i \<in> set (parallel_order (ep_selector phase)). i < length ?ex"
    using assms(1) by (simp add: phase_ok_def parallel_order_def)
  obtain r :: "('n, 'd, 'e) upstream_attempt + unit" where spawn: "spawn_tasks ?ex (pl_spawn env) (parallel_order (ep_selector phase)) = Some r"
    using spawn_tasks_total [OF in_range] by blast
  have indices: "map (\<lambda>t. ua_index (the t)) (filter (\<lambda>t. t \<noteq> None) (map ?task is)) = filter (\<lambda>i. \<not> pl_failed env i) is" for "is"
    by (induction "is") (auto simp: task_result_def)
  have failed: "None \<in> set (map ?task (pl_finish env)) \<Longrightarrow> \<exists>i < length ?ex. pl_failed env i"
    using assms(2) by (auto simp: task_result_def parallel_env_ok_def split: if_splits)
  have "distinct (map ua_index [] @ map (\<lambda>t. ua_index (the t)) (filter (\<lambda>t. t \<noteq> None) (map ?task (pl_finish env))))"
    unfolding indices using assms(2) by (simp add: parallel_env_ok_def)
  from join_tasks_result [OF nonempty _ this, of "pl_cancel env" late_sink 0] assms(2) failed show ?thesis
    by (cases r) (auto simp: execute_parallel_def spawn parallel_env_ok_def)
qed

lemma late_attempt_drain_Some: "late_attempt_drain (map Some ts) = filter (\<lambda>a. is_response (ua_outcome a)) ts"
  by (induction ts) simp_all

lemma join_tasks_undisturbed:
  assumes "\<forall>turn. cancels_at turn = None"
  shows "join_tasks exchanges late_sink cancels_at turn (map Some ts) attempts =
    (Some (Inr (attempts @ takeWhile (\<lambda>a. \<not> is_positive (ua_outcome a)) ts @ take 1 (dropWhile (\<lambda>a. \<not> is_positive (ua_outcome a)) ts))),
     if late_sink then filter (\<lambda>a. is_response (ua_outcome a)) (drop 1 (dropWhile (\<lambda>a. \<not> is_positive (ua_outcome a)) ts)) else [])"
  using assms by (induction ts arbitrary: turn attempts) (auto simp: late_attempt_drain_Some)

lemma spawn_tasks_undisturbed:
  assumes "\<forall>i \<in> set indices. i < length exchanges" "\<forall>i. \<not> can_token (spawn i)"
  shows "spawn_tasks exchanges spawn indices = Some (Inr ())"
  using assms by (induction indices) (auto simp: cancelled_outcome_def nth_opt_def)

lemma first_max_Some: "xs \<noteq> [] \<or> best \<noteq> None \<Longrightarrow> first_max rank best xs \<noteq> None"
  by (induction xs arbitrary: best) (auto split: option.splits)

lemma choice_of_positive:
  assumes "a \<in> set as" "is_positive (ua_outcome a)" "cancels as = []"
  obtains b r where "b \<in> set as" "ua_outcome b = OutcomeResponse r" "resp_class r = ClassPositive"
    "group_choice Parallel as fixed = \<lparr>ag_connector = Some (ua_connector b), ag_outcome = OutcomeResponse r\<rparr>"
proof -
  let ?rank = "\<lambda>(_ :: connector_id, r). response_preference (resp_class r)"
  obtain r0 where r0: "(ua_connector a, r0) \<in> set (answers as)" "resp_class r0 = ClassPositive"
    using assms(1,2) by (fastforce simp: answers_def is_positive_def split: upstream_outcome.splits)
  then obtain c r where best: "first_max ?rank None (answers as) = Some (c, r)"
    using first_max_Some [of "answers as" None ?rank] by (cases "first_max ?rank None (answers as)") fastforce+
  with first_max_is_max [OF best] r0 have "3 \<le> response_preference (resp_class r)" "(c, r) \<in> set (answers as)" by fastforce+
  then obtain b where "b \<in> set as" "ua_connector b = c" "ua_outcome b = OutcomeResponse r" "resp_class r = ClassPositive"
    by (cases "resp_class r") (auto simp: answers_def split: upstream_outcome.splits if_splits)
  with best assms(3) show thesis by (intro that [of b r]) (auto simp: group_choice_def best_answer_def)
qed

text \<open>The attempts up to the first positive one: no other of them is positive.\<close>

lemma first_positive:
  fixes tasks :: "('n, 'd, 'e) upstream_attempt list"
  defines "early \<equiv> takeWhile (\<lambda>a. \<not> is_positive (ua_outcome a)) tasks"
    and "rest \<equiv> dropWhile (\<lambda>a. \<not> is_positive (ua_outcome a)) tasks"
  assumes "rest \<noteq> []"
  shows "tasks = (early @ take 1 rest) @ drop 1 rest" "hd rest \<in> set (early @ take 1 rest)" "is_positive (ua_outcome (hd rest))"
    "cancels early = [] \<Longrightarrow> cancels (early @ take 1 rest) = []"
    "b \<in> set (early @ take 1 rest) \<Longrightarrow> is_positive (ua_outcome b) \<Longrightarrow> b = hd rest"
proof -
  show "tasks = (early @ take 1 rest) @ drop 1 rest" unfolding append_assoc append_take_drop_id early_def rest_def by simp
  have one: "take 1 rest = [hd rest]" using assms(3) by (cases rest) simp_all
  then show "hd rest \<in> set (early @ take 1 rest)" by simp
  show positive: "is_positive (ua_outcome (hd rest))"
    using hd_dropWhile [of "\<lambda>a. \<not> is_positive (ua_outcome a)" tasks] assms(3) by (simp add: rest_def)
  show "cancels (early @ take 1 rest) = []" if "cancels early = []"
    using that positive unfolding one by (simp add: cancels_def is_positive_def split: upstream_outcome.splits)
  show "b = hd rest" if "b \<in> set (early @ take 1 rest)" "is_positive (ua_outcome b)"
    using that unfolding one by (auto simp: early_def dest: set_takeWhileD)
qed

section \<open>Phases\<close>

definition phase_env_ok :: "execution_phase \<Rightarrow> ('n, 'd, 'e) phase_env \<Rightarrow> bool" where
  "phase_env_ok phase env \<longleftrightarrow>
     (gs_mode (ep_selector phase) = Parallel \<longrightarrow> parallel_env_ok (length (ep_exchanges phase)) (pv_parallel env))"

definition task_fails :: "execution_phase \<Rightarrow> ('n, 'd, 'e) phase_env \<Rightarrow> bool" where
  "task_fails phase env \<longleftrightarrow>
     gs_mode (ep_selector phase) = Parallel \<and> (\<exists>i < length (ep_exchanges phase). pl_failed (pv_parallel env) i)"

text \<open>The answer of a group that no member answered.\<close>

definition own_servfail :: "('n, 'd, 'e, 's) message_lib \<Rightarrow> ('n, 'd, 'e) canonical_query \<Rightarrow> ('n, 'd, 'e) group_execution_result \<Rightarrow> bool" where
  "own_servfail lib query result \<longleftrightarrow> gx_connector result = None \<and>
     (case gx_outcome result of OutcomeResponse r \<Rightarrow> resp_class r = ClassServFail \<and> matches_query lib r query | _ \<Rightarrow> False)"

lemma list_all_last: "xs \<noteq> [] \<Longrightarrow> list_all P xs \<longleftrightarrow> list_all P (butlast xs) \<and> P (last xs)"
  by (induction xs rule: rev_induct) auto

lemma sorted_attempts: "map ua_index attempts = [k..<k + length attempts] \<Longrightarrow> sort_key ua_index attempts = attempts"
  by (rule sort_key_id_if_sorted) (simp add: sorted_upt)

lemma phase_attempts_result:
  assumes "phase_ok phase" "phase_env_ok phase env"
  shows "\<exists>phase' late. phase_ok phase' \<and>
    (phase_attempts phase query deadline queries late_sink env = (Some (Inl TaskFailed), phase', late) \<and> task_fails phase env \<or>
     (\<exists>attempts. phase_attempts phase query deadline queries late_sink env = (Some (Inr attempts), phase', late) \<and>
        distinct (map ua_index attempts)))"
proof (cases "gs_mode (ep_selector phase) = Parallel")
  case True
  then have "parallel_env_ok (length (ep_exchanges phase)) (pv_parallel env)" using assms(2) by (simp add: phase_env_ok_def)
  from execute_parallel_result [OF assms(1) this, of query "phase_context deadline (ep_timeout phase) (pv_now env)" queries late_sink]
  show ?thesis using True assms(1) by (auto simp: phase_attempts_def task_fails_def)
next
  case False
  obtain primary candidates attempts selector where run:
    "execute_ordered phase query (phase_context deadline (ep_timeout phase) (pv_now env)) queries (pv_attempts env) =
      (Some (Inr attempts), selector)" "phase_ok (phase\<lparr>ep_selector := selector\<rparr>)"
    "attempts_of (ep_exchanges phase) (phase_context deadline (ep_timeout phase) (pv_now env)) (pv_attempts env) 0
      (primary # candidates) attempts" by (rule execute_ordered_attempts [OF assms(1) False])
  then have "distinct (map ua_index attempts)" by (simp add: attempts_of_def)
  with run False show ?thesis by (fastforce simp: phase_attempts_def Let_def)
qed

lemma execute_phase_result:
  assumes "message_lib_ok lib" "canonical_query_ok lib query" "phase_ok phase" "phase_env_ok phase env"
  shows "\<exists>phase' late. phase_ok phase' \<and>
    (execute_phase lib phase query deadline queries late_sink env = (Some (Inl TaskFailed), phase', late) \<and> task_fails phase env \<or>
     (\<exists>result. execute_phase lib phase query deadline queries late_sink env = (Some (Inr result), phase', late) \<and>
        (pr_enter_fallback result \<longrightarrow> own_servfail lib query (pr_result result))))"
proof -
  obtain phase' late where ok: "phase_ok phase'" and
    "phase_attempts phase query deadline queries late_sink env = (Some (Inl TaskFailed), phase', late) \<and> task_fails phase env \<or>
     (\<exists>attempts. phase_attempts phase query deadline queries late_sink env = (Some (Inr attempts), phase', late) \<and>
        distinct (map ua_index attempts))"
    using phase_attempts_result [OF assms(3,4)] by blast
  then consider (failed) "phase_attempts phase query deadline queries late_sink env = (Some (Inl TaskFailed), phase', late)"
      "task_fails phase env"
    | (attempts) attempts where "phase_attempts phase query deadline queries late_sink env = (Some (Inr attempts), phase', late)"
      "distinct (map ua_index attempts)" by blast
  then show ?thesis
  proof cases
    case attempts
    obtain fixed where "resp_class fixed = ClassServFail" "matches_query lib fixed query"
      "aggregate_with_connector lib (gs_mode (ep_selector phase)) query attempts =
        Some (Inr (group_choice (gs_mode (ep_selector phase)) (sort_key ua_index attempts) fixed))"
      by (rule aggregate_choice [OF assms(1,2) attempts(2)])
    then show ?thesis
      using ok attempts(1) choice_of_fallback [of attempts "gs_mode (ep_selector phase)" fixed]
      by (fastforce simp: execute_phase_def own_servfail_def)
  qed (use ok in \<open>fastforce simp: execute_phase_def\<close>)
qed

section \<open>Concrete groups\<close>

definition sample_phase :: "selection_policy \<Rightarrow> execution_phase" where
  "sample_phase mode = \<lparr>ep_selector = sample_group mode, ep_exchanges = [Direct (ConnectorId ''a''), Direct (ConnectorId ''b'')],
     ep_timeout = Some 5\<rparr>"

definition sample_attempt_env :: "(string, unit, nat option) upstream_outcome \<Rightarrow> (string, unit, nat option) attempt_env" where
  "sample_attempt_env outcome = \<lparr>ae_before = cancellation_new, ae_start = cancellation_new, ae_now = 1, ae_race = ExchangeWins,
     ae_direct = (\<lambda>_. outcome), ae_nested = Inl TaskFailed, ae_after = 2\<rparr>"

text \<open>The first attempt fails and may be retried, every other one is answered.\<close>

definition sample_phase_env :: "(string, unit, nat option) phase_env" where
  "sample_phase_env = \<lparr>pv_now = 0,
     pv_attempts = (\<lambda>i. sample_attempt_env (if i = 0 then sample_failure True else OutcomeResponse sample_response)),
     pv_parallel = \<lparr>pl_spawn = (\<lambda>_. cancellation_new),
       pl_task = (\<lambda>i. sample_attempt_env (if i = 0 then sample_failure True else OutcomeResponse sample_response)),
       pl_failed = (\<lambda>_. False), pl_finish = [1, 0], pl_cancel = (\<lambda>_. None)\<rparr>\<rparr>"

lemma sample_phase_ok: "mode \<noteq> Sequential \<Longrightarrow> phase_ok (sample_phase mode)" "phase_env_ok (sample_phase mode) sample_phase_env"
  by (auto simp: phase_ok_def selector_ok_def group_ok_def sample_phase_def sample_group_def sample_members_def
      phase_env_ok_def parallel_env_ok_def sample_phase_env_def)

section \<open>Properties\<close>

text \<open>
  A phase can be built exactly when its handles are those of the selector's members: some handle,
  no zero timeout, member names that are connector ids, and the same distinct ids on both sides. The handles
  are then bound in the order of the members, whatever order they were given in.
\<close>

lemma phase_binds_members:
  "((\<exists>phase. phase_new_members selector members limit = Inr phase) \<longleftrightarrow>
     members \<noteq> [] \<and> limit \<noteq> Some 0 \<and> (\<forall>m \<in> set (gs_members selector). connector_id_new (id_str (member_name m)) \<noteq> None) \<and>
     distinct (member_ids selector) \<and> mset (map member_connector_id members) = mset (member_ids selector)) \<and>
   (\<forall>phase. phase_new_members selector members limit = Inr phase \<longrightarrow>
     map member_connector_id (ep_exchanges phase) = member_ids selector \<and> mset (ep_exchanges phase) = mset members)"
proof -
  have ids: "mset (map member_connector_id members) = mset (member_ids selector)"
    if "phase_new_members selector members limit = Inr phase" for phase
    using phase_new_members_Inr(3,4) [OF that] by (metis mset_map)
  have "(\<exists>phase. phase_new_members selector members limit = Inr phase) \<longleftrightarrow>
     members \<noteq> [] \<and> limit \<noteq> Some 0 \<and> (\<forall>m \<in> set (gs_members selector). connector_id_new (id_str (member_name m)) \<noteq> None) \<and>
     distinct (member_ids selector) \<and> mset (map member_connector_id members) = mset (member_ids selector)" (is "?built \<longleftrightarrow> ?fits")
  proof
    assume ?built
    then obtain phase where built: "phase_new_members selector members limit = Inr phase" ..
    show ?fits using phase_new_members_Inr(5-8) [OF built] ids [OF built] by simp
  next
    assume ?fits
    then show ?built using phase_new_members_total [of members limit selector] by (elim conjE)
  qed
  then show ?thesis using phase_new_members_Inr(3,4) by simp
qed

lemma phase_binds_members_witness:
  "\<exists>phase. phase_new_members (sample_group LoadBalance) [Nested (ConnectorId ''b''), Direct (ConnectorId ''a'')] (Some 5) = Inr phase \<and>
     map member_connector_id (ep_exchanges phase) = [ConnectorId ''a'', ConnectorId ''b'']"
proof -
  let ?ms = "[Nested (ConnectorId ''b''), Direct (ConnectorId ''a'')]"
  have ids: "member_ids (sample_group LoadBalance) = [ConnectorId ''a'', ConnectorId ''b'']"
    by (simp add: sample_group_def sample_members_def)
  have "connector_id_new (id_str (member_name m)) \<noteq> None" if "m \<in> set (gs_members (sample_group LoadBalance))" for m
  proof -
    have "list_all (\<lambda>m. connector_id_new (id_str (member_name m)) \<noteq> None) (gs_members (sample_group LoadBalance))" by code_simp
    then show ?thesis using that by (simp add: list_all_iff)
  qed
  then have "\<exists>phase. phase_new_members (sample_group LoadBalance) ?ms (Some 5) = Inr phase"
    using conjunct1 [OF phase_binds_members, of "sample_group LoadBalance" ?ms "Some 5"] unfolding ids by simp
  then show ?thesis
    using conjunct2 [OF phase_binds_members, of "sample_group LoadBalance" ?ms "Some 5"] unfolding ids by blast
qed



text \<open>
  Property C9: a group always answers. A well-formed executor never panics and never fails on its selector or
  its aggregation; only a task of a parallel phase that dies makes it fail, and it stays well formed. The
  fallback phase replaces the primary result only when the request is neither cancelled nor late and the
  primary result is SERVFAIL of the group itself, so no usable answer of a member is thrown away.
\<close>

theorem executor_answers:
  assumes "message_lib_ok lib" "canonical_query_ok lib query" "executor_ok ex"
    and "phase_env_ok (ex_primary ex) (ge_primary env)"
    and "\<And>fallback. ex_fallback ex = Some fallback \<Longrightarrow> phase_env_ok fallback (ge_fallback env)"
    and "execute_inner lib ex query deadline late_sink queries env = (answer, ex', late)"
  shows "executor_ok ex' \<and>
    (answer = Some (Inl TaskFailed) \<and>
       (task_fails (ex_primary ex) (ge_primary env) \<or> (\<exists>fallback. ex_fallback ex = Some fallback \<and> task_fails fallback (ge_fallback env))) \<or>
     (\<exists>primary. fst (execute_phase lib (ex_primary ex) query deadline queries late_sink (ge_primary env)) = Some (Inr primary) \<and>
        (answer = Some (Inr (pr_result primary)) \<or>
         (\<exists>fallback result. ex_fallback ex = Some fallback \<and> \<not> can_token (ge_cancellation env) \<and> \<not> is_expired deadline (ge_now env) \<and>
            own_servfail lib query (pr_result primary) \<and>
            fst (execute_phase lib fallback query deadline queries late_sink (ge_fallback env)) = Some (Inr result) \<and>
            answer = Some (Inr (pr_result result))))))"
proof -
  have ok: "phase_ok (ex_primary ex)" "\<And>fallback. ex_fallback ex = Some fallback \<Longrightarrow> phase_ok fallback"
    using assms(3) by (simp_all add: executor_ok_def)
  obtain phase' late' where phase': "phase_ok phase'" and primary:
    "execute_phase lib (ex_primary ex) query deadline queries late_sink (ge_primary env) = (Some (Inl TaskFailed), phase', late') \<and>
       task_fails (ex_primary ex) (ge_primary env) \<or>
     (\<exists>result. execute_phase lib (ex_primary ex) query deadline queries late_sink (ge_primary env) = (Some (Inr result), phase', late') \<and>
        (pr_enter_fallback result \<longrightarrow> own_servfail lib query (pr_result result)))"
    using execute_phase_result [OF assms(1,2) ok(1) assms(4)] by blast
  show ?thesis
  proof (cases "ex_fallback ex")
    case None
    then show ?thesis using primary phase' assms(6) by (auto simp: execute_inner_def executor_ok_def)
  next
    case (Some fallback)
    obtain phase'' late'' where phase'': "phase_ok phase''" and
      "execute_phase lib fallback query deadline queries late_sink (ge_fallback env) = (Some (Inl TaskFailed), phase'', late'') \<and>
         task_fails fallback (ge_fallback env) \<or>
       (\<exists>result. execute_phase lib fallback query deadline queries late_sink (ge_fallback env) = (Some (Inr result), phase'', late''))"
      using execute_phase_result [OF assms(1,2) ok(2) [OF Some] assms(5) [OF Some]] by blast
    with primary phase' Some ok(2) [OF Some] assms(6) show ?thesis
      by (auto simp: execute_inner_def executor_ok_def split: if_splits)
  qed
qed

text \<open>Both members of the primary group fail and may be retried; the fallback group answers.\<close>

definition sample_executor :: upstream_group_executor where
  "sample_executor = \<lparr>ex_primary = (sample_phase LoadBalance)\<lparr>ep_exchanges := [Nested (ConnectorId ''a''), Direct (ConnectorId ''b'')]\<rparr>,
     ex_fallback = Some (sample_phase RoundRobin)\<rparr>"

definition sample_group_env :: "(string, unit, nat option) group_env" where
  "sample_group_env = \<lparr>ge_primary = sample_phase_env\<lparr>pv_attempts := (\<lambda>_. (sample_attempt_env (sample_failure True))
       \<lparr>ae_nested := Inr \<lparr>gx_connector = None, gx_outcome = sample_failure True\<rparr>\<rparr>)\<rparr>,
     ge_cancellation = cancellation_new, ge_now = 3, ge_fallback = sample_phase_env\<rparr>"

theorem executor_answers_witness:
  "fst (execute_inner text_message_lib sample_executor sample_query 10 False None sample_group_env) =
     Some (Inr \<lparr>gx_connector = Some (ConnectorId ''b''), gx_outcome = OutcomeResponse sample_response\<rparr>) \<and>
   executor_ok (fst (snd (execute_inner text_message_lib sample_executor sample_query 10 False None sample_group_env)))"
proof -
  obtain answer ex' late where
    run: "execute_inner text_message_lib sample_executor sample_query 10 False None sample_group_env = (answer, ex', late)"
    by (metis surj_pair)
  have "executor_ok ex'"
    by (rule conjunct1 [OF executor_answers [OF text_message_lib_ok
            query_from_message_ok [OF text_message_lib_ok sample_query_parsed] _ _ _ run]])
      (auto simp: executor_ok_def sample_executor_def phase_env_ok_def sample_phase_def sample_group_def phase_ok_def
        selector_ok_def group_ok_def sample_members_def)
  moreover have "fst (execute_inner text_message_lib sample_executor sample_query 10 False None sample_group_env) =
      Some (Inr \<lparr>gx_connector = Some (ConnectorId ''b''), gx_outcome = OutcomeResponse sample_response\<rparr>)" by code_simp
  ultimately show ?thesis by (simp add: run)
qed



end
