(* ===== verification/Outbound_Stream.thy ===== *)
theory Outbound_Stream
  imports Request_Context "HOL-Library.Sublist"
begin

text \<open>
  The byte stream to a proxy: the port \<open>OutboundStream\<close> (\<open>backend/src/ports/effects.rs\<close>) as a locale of
  the two operations the handshake uses, and the adapter over a TCP socket
  (\<open>backend/src/upstream/tokio_outbound.rs\<close>) that implements it.

  A socket is the bytes the peer sends until it closes and the bytes that went out. What an await on it
  observes comes from the environment: the cancellation handle and the clock at its start, which branch of the
  \<open>select!\<close> wins, and how many bytes the operating system moved.
\<close>

section \<open>The port\<close>

datatype tcp_read_result = Complete "byte list" | CleanEof

record 's stream_ops =
  op_read_exact :: "nat \<Rightarrow> deadline \<Rightarrow> 's \<Rightarrow> (port_error + tcp_read_result) \<times> 's"
  op_write_all :: "byte list \<Rightarrow> deadline \<Rightarrow> 's \<Rightarrow> (port_error + unit) \<times> 's"

text \<open>What a client may rely on: a complete read takes exactly the next bytes of the peer, a write that
  succeeds sends the payload after all that was sent, and one that fails sent some beginning of it. While the
  stream is undisturbed, a read whose bytes will come is complete and a write succeeds.\<close>

locale outbound_stream =
  fixes ops :: "'s stream_ops" and incoming :: "'s \<Rightarrow> byte list" and sent :: "'s \<Rightarrow> byte list" and calm :: "deadline \<Rightarrow> 's \<Rightarrow> bool"
  assumes read_complete: "op_read_exact ops n deadline s = (Inr (Complete bs), s') \<Longrightarrow>
      length bs = n \<and> incoming s = bs @ incoming s'"
    and read_sends_nothing: "op_read_exact ops n deadline s = (result, s') \<Longrightarrow> sent s' = sent s"
    and write_done: "op_write_all ops payload deadline s = (Inr (), s') \<Longrightarrow> sent s' = sent s @ payload \<and> incoming s' = incoming s"
    and write_partial: "op_write_all ops payload deadline s = (Inl e, s') \<Longrightarrow>
      \<exists>part. prefix part payload \<and> sent s' = sent s @ part"
    and calm_read: "calm deadline s \<Longrightarrow> n \<le> length (incoming s) \<Longrightarrow>
      \<exists>s'. op_read_exact ops n deadline s = (Inr (Complete (take n (incoming s))), s') \<and> calm deadline s'"
    and calm_write: "calm deadline s \<Longrightarrow> \<exists>s'. op_write_all ops payload deadline s = (Inr (), s') \<and> calm deadline s'"

section \<open>The socket\<close>

record socket =
  so_incoming :: "byte list"
  so_sent :: "byte list"
  so_turn :: nat

datatype io_winner = IoDone | IoFailed | IoTimedOut | IoCancelled cancellation

record io_event =
  ev_cancellation :: cancellation
  ev_now :: instant
  ev_winner :: io_winner
  ev_moved :: nat

definition await_io :: "deadline \<Rightarrow> string \<Rightarrow> io_event \<Rightarrow> port_error + unit" where
  "await_io deadline operation ev =
     (if can_token (ev_cancellation ev) then Inl (port_error_new (PortCancelled (reason_or_upstream (ev_cancellation ev))) operation)
      else if is_expired deadline (ev_now ev) then Inl (port_error_new PortTimeout operation)
      else case ev_winner ev of
          IoDone \<Rightarrow> Inr ()
        | IoFailed \<Rightarrow> Inl (port_error_new PortUnavailable operation)
        | IoTimedOut \<Rightarrow> Inl (port_error_new PortTimeout operation)
        | IoCancelled c \<Rightarrow> Inl (port_error_new (PortCancelled (reason_or_upstream c)) operation))"

text \<open>A read into a buffer with room takes at least one byte unless the peer has closed. The loop is given
  what is left of the frame and the bytes it has.\<close>

definition read_count :: "io_event \<Rightarrow> nat \<Rightarrow> byte list \<Rightarrow> nat" where
  "read_count ev room bytes = min (max 1 (ev_moved ev)) (min room (length bytes))"

function read_loop ::
  "(nat \<Rightarrow> io_event) \<Rightarrow> deadline \<Rightarrow> nat \<Rightarrow> byte list \<Rightarrow> socket \<Rightarrow> (port_error + tcp_read_result) \<times> socket" where
  "read_loop events deadline remaining bytes sock =
     (if remaining = 0 then (Inr (Complete bytes), sock)
      else
        let ev = events (so_turn sock); sock = sock\<lparr>so_turn := Suc (so_turn sock)\<rparr> in
        case await_io deadline ''outbound.tcp_read'' ev of
          Inl e \<Rightarrow> (Inl e, sock)
        | Inr _ \<Rightarrow>
            let count = read_count ev remaining (so_incoming sock) in
            if count = 0 then (Inr CleanEof, sock)
            else read_loop events deadline (remaining - count) (bytes @ take count (so_incoming sock))
              (sock\<lparr>so_incoming := drop count (so_incoming sock)\<rparr>))"
  by pat_completeness auto
termination by (relation "measure (\<lambda>(_, _, remaining, _, _). remaining)") auto

declare read_loop.simps [simp del]

definition tokio_read_exact ::
  "(nat \<Rightarrow> io_event) \<Rightarrow> nat \<Rightarrow> deadline \<Rightarrow> socket \<Rightarrow> (port_error + tcp_read_result) \<times> socket" where
  "tokio_read_exact events n deadline sock =
     (if n = 0 then (Inr (Complete []), sock) else read_loop events deadline n [] sock)"

text \<open>A write that is cut off has sent some of its bytes; one that does not start has sent none.\<close>

definition tokio_write_all ::
  "(nat \<Rightarrow> io_event) \<Rightarrow> byte list \<Rightarrow> deadline \<Rightarrow> socket \<Rightarrow> (port_error + unit) \<times> socket" where
  "tokio_write_all events payload deadline sock =
     (let ev = events (so_turn sock);
          started = \<not> can_token (ev_cancellation ev) \<and> \<not> is_expired deadline (ev_now ev);
          sock = sock\<lparr>so_turn := Suc (so_turn sock)\<rparr> in
      case await_io deadline ''outbound.tcp_write'' ev of
        Inr _ \<Rightarrow> (Inr (), sock\<lparr>so_sent := so_sent sock @ payload\<rparr>)
      | Inl e \<Rightarrow> (Inl e, sock\<lparr>so_sent := so_sent sock @ (if started then take (ev_moved ev) payload else [])\<rparr>))"

definition tokio_stream :: "(nat \<Rightarrow> io_event) \<Rightarrow> socket stream_ops" where
  "tokio_stream events = \<lparr>op_read_exact = tokio_read_exact events, op_write_all = tokio_write_all events\<rparr>"

section \<open>The socket is such a stream\<close>

text \<open>From now on no await is cancelled, late or fails.\<close>

definition calm_socket :: "(nat \<Rightarrow> io_event) \<Rightarrow> deadline \<Rightarrow> socket \<Rightarrow> bool" where
  "calm_socket events deadline sock \<longleftrightarrow>
     (\<forall>i \<ge> so_turn sock. \<not> can_token (ev_cancellation (events i)) \<and> \<not> is_expired deadline (ev_now (events i)) \<and> ev_winner (events i) = IoDone)"

lemma read_loop_complete:
  "read_loop events deadline remaining bytes sock = (Inr (Complete result), sock') \<Longrightarrow>
     \<exists>rest. length rest = remaining \<and> result = bytes @ rest \<and> so_incoming sock = rest @ so_incoming sock'"
proof (induction events deadline remaining bytes sock rule: read_loop.induct)
  case (1 events deadline remaining bytes sock)
  show ?case
  proof (cases "remaining = 0")
    case True
    then show ?thesis using "1.prems" by (simp add: read_loop.simps)
  next
    case False
    let ?ev = "events (so_turn sock)" and ?sock = "sock\<lparr>so_turn := Suc (so_turn sock)\<rparr>"
    let ?count = "read_count ?ev remaining (so_incoming sock)"
    obtain u where await: "await_io deadline ''outbound.tcp_read'' ?ev = Inr u" and count: "?count \<noteq> 0"
      and run: "read_loop events deadline (remaining - ?count) (bytes @ take ?count (so_incoming sock))
        (?sock\<lparr>so_incoming := drop ?count (so_incoming sock)\<rparr>) = (Inr (Complete result), sock')"
      using False "1.prems" by (subst (asm) read_loop.simps) (auto simp: Let_def split: sum.splits if_splits)
    have bounds: "?count \<le> remaining" "?count \<le> length (so_incoming sock)" by (simp_all add: read_count_def)
    obtain rest where "length rest = remaining - ?count" "result = bytes @ take ?count (so_incoming sock) @ rest"
      "drop ?count (so_incoming sock) = rest @ so_incoming sock'"
      using "1.IH" [OF False refl refl await refl] count run by auto
    with bounds show ?thesis
      by (intro exI [of _ "take ?count (so_incoming sock) @ rest"]) (auto, metis append_take_drop_id)
  qed
qed

lemma read_loop_sent: "so_sent (snd (read_loop events deadline remaining bytes sock)) = so_sent sock"
proof (induction events deadline remaining bytes sock rule: read_loop.induct)
  case (1 events deadline remaining bytes sock)
  then show ?case by (subst read_loop.simps) (simp add: Let_def split: sum.split)
qed

lemma read_loop_calm:
  assumes "calm_socket events deadline sock" "remaining \<le> length (so_incoming sock)"
  shows "\<exists>sock'. read_loop events deadline remaining bytes sock = (Inr (Complete (bytes @ take remaining (so_incoming sock))), sock') \<and>
    calm_socket events deadline sock'"
  using assms
proof (induction events deadline remaining bytes sock rule: read_loop.induct)
  case (1 events deadline remaining bytes sock)
  show ?case
  proof (cases "remaining = 0")
    case True
    then show ?thesis using "1.prems"(1) by (subst read_loop.simps) simp
  next
    case False
    let ?ev = "events (so_turn sock)"
    let ?count = "read_count ?ev remaining (so_incoming sock)"
    let ?sock = "sock\<lparr>so_turn := Suc (so_turn sock), so_incoming := drop ?count (so_incoming sock)\<rparr>"
    have await: "await_io deadline ''outbound.tcp_read'' ?ev = Inr ()"
      using "1.prems"(1) by (simp add: calm_socket_def await_io_def)
    have count: "?count \<noteq> 0" "?count \<le> remaining" using False "1.prems"(2) by (auto simp: read_count_def)
    have calm: "calm_socket events deadline ?sock" using "1.prems"(1) by (simp add: calm_socket_def)
    have enough: "remaining - ?count \<le> length (so_incoming ?sock)" using "1.prems"(2) by simp
    have split: "take ?count (so_incoming sock) @ take (remaining - ?count) (drop ?count (so_incoming sock)) = take remaining (so_incoming sock)"
      using count(2) by (metis le_add_diff_inverse take_add)
    from "1.IH" [OF False refl refl await refl] count(1) calm enough obtain sock' where
      "read_loop events deadline (remaining - ?count) (bytes @ take ?count (so_incoming sock)) ?sock =
        (Inr (Complete ((bytes @ take ?count (so_incoming sock)) @ take (remaining - ?count) (so_incoming ?sock))), sock')"
      "calm_socket events deadline sock'" by auto
    then have "read_loop events deadline remaining bytes sock = (Inr (Complete (bytes @ take remaining (so_incoming sock))), sock')"
      using False count(1) by (subst read_loop.simps) (simp add: Let_def await split)
    with \<open>calm_socket events deadline sock'\<close> show ?thesis by blast
  qed
qed

interpretation tokio: outbound_stream "tokio_stream events" so_incoming so_sent "calm_socket events"
proof
  fix n deadline sock sock' bs
  assume "op_read_exact (tokio_stream events) n deadline sock = (Inr (Complete bs), sock')"
  then show "length bs = n \<and> so_incoming sock = bs @ so_incoming sock'"
    using read_loop_complete [of events deadline n "[]" sock bs sock']
    by (auto simp: tokio_stream_def tokio_read_exact_def split: if_splits)
next
  fix n deadline sock sock' result
  assume "op_read_exact (tokio_stream events) n deadline sock = (result, sock')"
  then show "so_sent sock' = so_sent sock"
    using read_loop_sent [of events deadline n "[]" sock] by (auto simp: tokio_stream_def tokio_read_exact_def split: if_splits)
next
  fix n deadline sock
  assume "calm_socket events deadline sock" "n \<le> length (so_incoming sock)"
  then show "\<exists>sock'. op_read_exact (tokio_stream events) n deadline sock = (Inr (Complete (take n (so_incoming sock))), sock') \<and>
      calm_socket events deadline sock'"
    using read_loop_calm [of events deadline sock n "[]"] by (auto simp: tokio_stream_def tokio_read_exact_def)
qed (auto simp: tokio_stream_def tokio_write_all_def await_io_def calm_socket_def Let_def take_is_prefix
    split: sum.splits if_splits io_winner.splits)

end
