(* ===== verification/Socks5.thy ===== *)
theory Socks5
  imports Outbound_Stream Net_Address Byte_Words Config_Types
begin

text \<open>
  The SOCKS5 client (\<open>backend/src/upstream/socks5.rs\<close>): the frames of the method negotiation, the password
  authentication and the CONNECT request, and the handshake over an outbound stream; and the outbound profile
  with its targets and the connector that uses the handshake (\<open>backend/src/upstream/outbound.rs\<close>). The fields of a
  parsed proxy URL and the dialer are parameters. A handshake gives its result and the stream it leaves.
\<close>

section \<open>Frames\<close>

definition SOCKS5_VERSION :: byte where "SOCKS5_VERSION = 0x05"
definition USERPASS_VERSION :: byte where "USERPASS_VERSION = 0x01"
definition NO_AUTHENTICATION :: byte where "NO_AUTHENTICATION = 0x00"
definition USERNAME_PASSWORD :: byte where "USERNAME_PASSWORD = 0x02"
definition NO_ACCEPTABLE_METHODS :: byte where "NO_ACCEPTABLE_METHODS = 0xff"
definition CONNECT_COMMAND :: byte where "CONNECT_COMMAND = 0x01"

datatype socks5_auth_method = NoAuthentication | UsernamePassword

datatype socks5_protocol_error =
    SocksTruncated
  | SocksTrailingBytes
  | SocksInvalidVersion byte byte
  | UnsupportedMethod
  | NoAcceptableMethods
  | AuthenticationRejected
  | InvalidCredentialLength
  | SocksInvalidPort
  | SocksInvalidDomain
  | InvalidReservedField
  | UnsupportedAddressType

definition encode_method_request :: "bool \<Rightarrow> byte list" where
  "encode_method_request has_credentials =
     (if has_credentials then [SOCKS5_VERSION, 2, NO_AUTHENTICATION, USERNAME_PASSWORD]
      else [SOCKS5_VERSION, 1, NO_AUTHENTICATION])"

definition parse_method_response :: "byte list \<Rightarrow> socks5_protocol_error + socks5_auth_method" where
  "parse_method_response frame =
     (if length frame < 2 then Inl SocksTruncated
      else if 2 < length frame then Inl SocksTrailingBytes
      else if frame ! 0 \<noteq> SOCKS5_VERSION then Inl (SocksInvalidVersion SOCKS5_VERSION (frame ! 0))
      else if frame ! 1 = NO_AUTHENTICATION then Inr NoAuthentication
      else if frame ! 1 = USERNAME_PASSWORD then Inr UsernamePassword
      else if frame ! 1 = NO_ACCEPTABLE_METHODS then Inl NoAcceptableMethods
      else Inl UnsupportedMethod)"

definition validate_credential :: "byte list \<Rightarrow> socks5_protocol_error + unit" where
  "validate_credential value = (if value = [] \<or> 255 < length value then Inl InvalidCredentialLength else Inr ())"

definition encode_userpass_request :: "byte list \<Rightarrow> byte list \<Rightarrow> socks5_protocol_error + byte list" where
  "encode_userpass_request username password =
     and_then (validate_credential username) (\<lambda>_.
     and_then (validate_credential password) (\<lambda>_.
     Inr ([USERPASS_VERSION, of_nat (length username)] @ username @ [of_nat (length password)] @ password)))"

definition parse_userpass_response :: "byte list \<Rightarrow> socks5_protocol_error + unit" where
  "parse_userpass_response frame =
     (if length frame < 2 then Inl SocksTruncated
      else if 2 < length frame then Inl SocksTrailingBytes
      else if frame ! 0 \<noteq> USERPASS_VERSION then Inl (SocksInvalidVersion USERPASS_VERSION (frame ! 0))
      else if frame ! 1 \<noteq> 0 then Inl AuthenticationRejected
      else Inr ())"

datatype socks5_address = SocksIp ip_addr | SocksDomain "byte list"

definition socks5_domain :: "byte list \<Rightarrow> socks5_protocol_error + socks5_address" where
  "socks5_domain bytes = (if bytes = [] \<or> 255 < length bytes then Inl SocksInvalidDomain else Inr (SocksDomain bytes))"

text \<open>The address part of the request, from its type byte on.\<close>

fun encode_address :: "socks5_address \<Rightarrow> socks5_protocol_error + byte list" where
  "encode_address (SocksIp (V4 a)) = Inr (0x01 # to_be_bytes a)"
| "encode_address (SocksIp (V6 a)) = Inr (0x04 # to_be_bytes a)"
| "encode_address (SocksDomain d) =
     (if d = [] \<or> 255 < length d then Inl SocksInvalidDomain else Inr (0x03 # of_nat (length d) # d))"

definition encode_connect_request :: "socks5_address \<Rightarrow> 16 word \<Rightarrow> socks5_protocol_error + byte list" where
  "encode_connect_request address port =
     (if port = 0 then Inl SocksInvalidPort
      else and_then (encode_address address) (\<lambda>bytes. Inr ([SOCKS5_VERSION, CONNECT_COMMAND, 0] @ bytes @ to_be_bytes port)))"

datatype socks5_reply =
    ReplySucceeded | ReplyGeneralFailure | ReplyConnectionNotAllowed | ReplyNetworkUnreachable | ReplyHostUnreachable
  | ReplyConnectionRefused | ReplyTtlExpired | ReplyCommandNotSupported | ReplyAddressTypeNotSupported | ReplyOther byte

definition reply_from_wire :: "byte \<Rightarrow> socks5_reply" where
  "reply_from_wire value =
     (if value = 0x00 then ReplySucceeded
      else if value = 0x01 then ReplyGeneralFailure
      else if value = 0x02 then ReplyConnectionNotAllowed
      else if value = 0x03 then ReplyNetworkUnreachable
      else if value = 0x04 then ReplyHostUnreachable
      else if value = 0x05 then ReplyConnectionRefused
      else if value = 0x06 then ReplyTtlExpired
      else if value = 0x07 then ReplyCommandNotSupported
      else if value = 0x08 then ReplyAddressTypeNotSupported
      else ReplyOther value)"

definition reply_is_success :: "socks5_reply \<Rightarrow> bool" where
  "reply_is_success reply \<longleftrightarrow> reply = ReplySucceeded"

record socks5_connect_response =
  cr_reply :: socks5_reply
  cr_bound_address :: socks5_address
  cr_bound_port :: "16 word"

text \<open>\<open>slice::get\<close> of a range.\<close>

definition get_range :: "'a list \<Rightarrow> nat \<Rightarrow> nat \<Rightarrow> 'a list option" where
  "get_range xs start stop = (if start \<le> stop \<and> stop \<le> length xs then Some (take (stop - start) (drop start xs)) else None)"

definition decode_address :: "byte list \<Rightarrow> nat \<Rightarrow> socks5_protocol_error + socks5_address \<times> nat" where
  "decode_address frame offset =
     and_then (ok_or SocksTruncated (nth_opt frame offset)) (\<lambda>address_type.
       if address_type = 0x01 then
         and_then (ok_or SocksTruncated (checked_add offset (1 + 4))) (\<lambda>stop.
         and_then (ok_or SocksTruncated (get_range frame (offset + 1) stop)) (\<lambda>bytes.
         Inr (SocksIp (V4 (from_be_bytes bytes)), stop)))
       else if address_type = 0x03 then
         and_then (ok_or SocksTruncated (checked_add offset 1)) (\<lambda>length_offset.
         and_then (ok_or SocksTruncated (nth_opt frame length_offset)) (\<lambda>len.
         and_then (ok_or SocksTruncated (checked_add length_offset 1)) (\<lambda>start.
         and_then (ok_or SocksTruncated (checked_add start (unat len))) (\<lambda>stop.
         and_then (ok_or SocksTruncated (get_range frame start stop)) (\<lambda>bytes.
         and_then (socks5_domain bytes) (\<lambda>address. Inr (address, stop)))))))
       else if address_type = 0x04 then
         and_then (ok_or SocksTruncated (checked_add offset (1 + 16))) (\<lambda>stop.
         and_then (ok_or SocksTruncated (get_range frame (offset + 1) stop)) (\<lambda>bytes.
         Inr (SocksIp (V6 (from_be_bytes bytes)), stop)))
       else Inl UnsupportedAddressType)"

definition parse_connect_response :: "byte list \<Rightarrow> socks5_protocol_error + socks5_connect_response" where
  "parse_connect_response frame =
     (if length frame < 4 then Inl SocksTruncated
      else if frame ! 0 \<noteq> SOCKS5_VERSION then Inl (SocksInvalidVersion SOCKS5_VERSION (frame ! 0))
      else if frame ! 2 \<noteq> 0 then Inl InvalidReservedField
      else and_then (decode_address frame 3) (\<lambda>(bound_address, address_end).
           and_then (ok_or SocksTruncated (checked_add address_end 2)) (\<lambda>port_end.
             if length frame < port_end then Inl SocksTruncated
             else if port_end < length frame then Inl SocksTrailingBytes
             else Inr \<lparr>cr_reply = reply_from_wire (frame ! 1), cr_bound_address = bound_address,
               cr_bound_port = from_be_bytes [frame ! address_end, frame ! (address_end + 1)]\<rparr>)))"

section \<open>The handshake\<close>

record socks5_credentials =
  cred_username :: "byte list"
  cred_password :: "byte list"

datatype socks5_handshake_error =
    HandshakeProtocol socks5_protocol_error
  | HandshakeTransport port_error
  | CredentialsRequired
  | ProxyRejected socks5_reply

definition write_frame ::
  "'s stream_ops \<Rightarrow> byte list \<Rightarrow> deadline \<Rightarrow> 's \<Rightarrow> (socks5_handshake_error + unit) \<times> 's" where
  "write_frame ops frame deadline s = (let (result, s) = op_write_all ops frame deadline s in (map_err HandshakeTransport result, s))"

definition read_frame ::
  "'s stream_ops \<Rightarrow> nat \<Rightarrow> deadline \<Rightarrow> string \<Rightarrow> 's \<Rightarrow> (socks5_handshake_error + byte list) \<times> 's" where
  "read_frame ops len deadline operation s =
     (case op_read_exact ops len deadline s of
        (Inl e, s) \<Rightarrow> (Inl (HandshakeTransport e), s)
      | (Inr (Complete frame), s) \<Rightarrow>
          (if length frame = len then Inr frame
           else Inl (HandshakeTransport (with_safe_context ''proxy returned an unexpected frame length''
             (port_error_new ProtocolViolation operation))), s)
      | (Inr CleanEof, s) \<Rightarrow>
          (Inl (HandshakeTransport (with_safe_context ''proxy closed the stream during handshake''
             (port_error_new ProtocolViolation operation))), s))"

text \<open>The \<open>?\<close> operator on a step that changes the stream.\<close>

definition after :: "('e + 'a) \<times> 's \<Rightarrow> ('a \<Rightarrow> 's \<Rightarrow> ('e + 'b) \<times> 's) \<Rightarrow> ('e + 'b) \<times> 's" where
  "after step next_step = (case step of (Inl e, s) \<Rightarrow> (Inl e, s) | (Inr x, s) \<Rightarrow> next_step x s)"

definition read_connect_response :: "'s stream_ops \<Rightarrow> deadline \<Rightarrow> 's \<Rightarrow> (socks5_handshake_error + byte list) \<times> 's" where
  "read_connect_response ops deadline s =
     after (read_frame ops 4 deadline ''socks5.connect'' s) (\<lambda>header s.
       let address_type = header ! 3 in
       after
         (if address_type = 0x01 then (Inr (header, 6), s)
          else if address_type = 0x04 then (Inr (header, 18), s)
          else if address_type = 0x03 then
            after (read_frame ops 1 deadline ''socks5.connect'' s) (\<lambda>length_frame s.
              let len = unat (length_frame ! 0) in
              if len = 0 then (Inl (HandshakeProtocol SocksInvalidDomain), s)
              else (Inr (header @ length_frame, len + 2), s))
          else (Inl (HandshakeProtocol UnsupportedAddressType), s))
         (\<lambda>(frame, remaining) s.
            after (read_frame ops remaining deadline ''socks5.connect'' s) (\<lambda>rest s. (Inr (frame @ rest), s))))"

text \<open>The authentication, which the proxy may choose not to ask for.\<close>

definition authenticate ::
  "'s stream_ops \<Rightarrow> socks5_auth_method \<Rightarrow> socks5_credentials option \<Rightarrow> deadline \<Rightarrow> 's \<Rightarrow> (socks5_handshake_error + unit) \<times> 's" where
  "authenticate ops method credentials deadline s =
     (if method = UsernamePassword then
        (case credentials of
           None \<Rightarrow> (Inl CredentialsRequired, s)
         | Some c \<Rightarrow>
             after (map_err HandshakeProtocol (encode_userpass_request (cred_username c) (cred_password c)), s) (\<lambda>frame s.
             after (write_frame ops frame deadline s) (\<lambda>_ s.
             after (read_frame ops 2 deadline ''socks5.userpass'' s) (\<lambda>frame s.
             (map_err HandshakeProtocol (parse_userpass_response frame), s)))))
      else (Inr (), s))"

definition request_connect ::
  "'s stream_ops \<Rightarrow> socks5_address \<Rightarrow> 16 word \<Rightarrow> deadline \<Rightarrow> 's \<Rightarrow> (socks5_handshake_error + unit) \<times> 's" where
  "request_connect ops address port deadline s =
     after (map_err HandshakeProtocol (encode_connect_request address port), s) (\<lambda>frame s.
     after (write_frame ops frame deadline s) (\<lambda>_ s.
     after (read_connect_response ops deadline s) (\<lambda>frame s.
     after (map_err HandshakeProtocol (parse_connect_response frame), s) (\<lambda>response s.
       if reply_is_success (cr_reply response) then (Inr (), s)
       else (Inl (ProxyRejected (cr_reply response)), s)))))"

definition perform_handshake ::
  "'s stream_ops \<Rightarrow> socks5_address \<Rightarrow> 16 word \<Rightarrow> socks5_credentials option \<Rightarrow> deadline \<Rightarrow> cancellation \<Rightarrow> 's \<Rightarrow>
     (socks5_handshake_error + unit) \<times> 's" where
  "perform_handshake ops address port credentials deadline cancellation s =
     (if can_token cancellation then
        (Inl (HandshakeTransport (port_error_new (PortCancelled (reason_or_upstream cancellation)) ''socks5.handshake'')), s)
      else
        after (write_frame ops (encode_method_request (credentials \<noteq> None)) deadline s) (\<lambda>_ s.
        after (read_frame ops 2 deadline ''socks5.method'' s) (\<lambda>frame s.
        after (map_err HandshakeProtocol (parse_method_response frame), s) (\<lambda>method s.
        after (authenticate ops method credentials deadline s) (\<lambda>_ s.
        request_connect ops address port deadline s)))))"

section \<open>Profiles and targets\<close>

datatype proxy_scheme = SchemeSocks5 | SchemeSocks5h

datatype name_resolution = ResolveLocal | ResolveRemote | ResolveBypass

record outbound_credentials =
  oc_username :: "byte list"
  oc_password :: "byte list"

text \<open>The fields of a profile that the connector reads.\<close>

record outbound_profile =
  op_scheme :: proxy_scheme
  op_proxy_host :: string
  op_proxy_port :: "16 word"
  op_credentials :: "outbound_credentials option"

record outbound_target =
  ot_host :: string
  ot_port :: "16 word"
  ot_connect_ip :: "ip_addr option"
  ot_bootstrap :: "config_id option"
  ot_name_resolution :: name_resolution

datatype outbound_target_error = TargetInvalidHost | TargetInvalidPort | BootstrapForbidden

datatype socks5_target_error = TargetInvalidDomain | ResolvedAddressRequired

datatype socks5_connect_error =
    ConnectTarget socks5_target_error
  | ConnectDial port_error
  | ConnectProxyResolve port_error
  | ConnectHandshake socks5_handshake_error

definition hex_value :: "byte \<Rightarrow> byte option" where
  "hex_value value =
     (if 0x30 \<le> value \<and> value \<le> 0x39 then Some (value - 0x30)
      else if 0x61 \<le> value \<and> value \<le> 0x66 then Some (value - 0x61 + 10)
      else if 0x41 \<le> value \<and> value \<le> 0x46 then Some (value - 0x41 + 10)
      else None)"

text \<open>The decoder of the user info of a URL; a per cent sign is 0x25.\<close>

fun percent_decode_userinfo :: "byte list \<Rightarrow> byte list option" where
  "percent_decode_userinfo [] = Some []"
| "percent_decode_userinfo (b # rest) =
     (if b = 0x25 then
        (case rest of
           high # low # rest' \<Rightarrow>
             (case (hex_value high, hex_value low) of
                (Some h, Some l) \<Rightarrow> map_option (Cons (push_bit 4 h OR l)) (percent_decode_userinfo rest')
              | _ \<Rightarrow> None)
         | _ \<Rightarrow> None)
      else map_option (Cons b) (percent_decode_userinfo rest))"

text \<open>\<open>None\<close> is the error, \<open>Some None\<close> a URL without credentials.\<close>

definition parse_credentials :: "byte list \<Rightarrow> byte list option \<Rightarrow> outbound_credentials option option" where
  "parse_credentials username password =
     (case password of
        None \<Rightarrow> if username = [] then Some None else None
      | Some password \<Rightarrow>
          Option.bind (percent_decode_userinfo username) (\<lambda>username.
          Option.bind (percent_decode_userinfo password) (\<lambda>password.
            if username = [] \<or> password = [] \<or> 255 < length username \<or> 255 < length password then None
            else Some (Some \<lparr>oc_username = username, oc_password = password\<rparr>))))"

definition profile_target ::
  "outbound_profile \<Rightarrow> string \<Rightarrow> 16 word \<Rightarrow> ip_addr option \<Rightarrow> config_id option \<Rightarrow> outbound_target_error + outbound_target" where
  "profile_target profile host port connect_ip bootstrap =
     (if host = [] \<or> list_ex (\<lambda>c. c = CHR 0x0D \<or> c = CHR 0x0A) host then Inl TargetInvalidHost
      else if port = 0 then Inl TargetInvalidPort
      else if op_scheme profile = SchemeSocks5h \<and> bootstrap \<noteq> None then Inl BootstrapForbidden
      else
        let resolution =
          (if connect_ip \<noteq> None then ResolveBypass else if op_scheme profile = SchemeSocks5h then ResolveRemote else ResolveLocal)
        in Inr \<lparr>ot_host = host, ot_port = port, ot_connect_ip = connect_ip, ot_bootstrap = bootstrap, ot_name_resolution = resolution\<rparr>)"

definition address_for_target :: "outbound_target \<Rightarrow> ip_addr option \<Rightarrow> socks5_target_error + socks5_address" where
  "address_for_target target resolved_ip =
     (if ot_name_resolution target = ResolveRemote then
        let bytes = as_bytes (ot_host target) in
        if bytes = [] \<or> 255 < length bytes then Inl TargetInvalidDomain else Inr (SocksDomain bytes)
      else ok_or ResolvedAddressRequired
        (map_option SocksIp (case ot_connect_ip target of Some ip \<Rightarrow> Some ip | None \<Rightarrow> resolved_ip)))"

section \<open>The connector\<close>

type_synonym socket_addr = "ip_addr \<times> 16 word"

definition socks5_connect ::
  "(socket_addr \<Rightarrow> deadline \<Rightarrow> port_error + 's) \<Rightarrow> 's stream_ops \<Rightarrow> socket_addr \<Rightarrow> outbound_target \<Rightarrow> ip_addr option \<Rightarrow>
     socks5_credentials option \<Rightarrow> deadline \<Rightarrow> cancellation \<Rightarrow> socks5_connect_error + 's" where
  "socks5_connect dial ops proxy_address target resolved_ip credentials deadline cancellation =
     and_then (map_err ConnectTarget (address_for_target target resolved_ip)) (\<lambda>address.
     and_then (map_err ConnectDial (dial proxy_address deadline)) (\<lambda>s.
       case perform_handshake ops address (ot_port target) credentials deadline cancellation s of
         (Inl e, _) \<Rightarrow> Inl (ConnectHandshake e)
       | (Inr _, s) \<Rightarrow> Inr s))"

definition connect_profile ::
  "(socket_addr \<Rightarrow> deadline \<Rightarrow> port_error + 's) \<Rightarrow> 's stream_ops \<Rightarrow> outbound_profile \<Rightarrow> socket_addr \<Rightarrow> outbound_target \<Rightarrow> ip_addr option \<Rightarrow>
     deadline \<Rightarrow> cancellation \<Rightarrow> socks5_connect_error + 's" where
  "connect_profile dial ops profile proxy_address target resolved_ip deadline cancellation =
     socks5_connect dial ops proxy_address target resolved_ip
       (map_option (\<lambda>c. \<lparr>cred_username = oc_username c, cred_password = oc_password c\<rparr>) (op_credentials profile)) deadline cancellation"

definition connect_profile_with_resolver ::
  "(socket_addr \<Rightarrow> deadline \<Rightarrow> port_error + 's) \<Rightarrow> 's stream_ops \<Rightarrow> (string \<Rightarrow> 16 word \<Rightarrow> port_error + socket_addr list) \<Rightarrow> outbound_profile \<Rightarrow>
     outbound_target \<Rightarrow> ip_addr option \<Rightarrow> deadline \<Rightarrow> cancellation \<Rightarrow> socks5_connect_error + 's" where
  "connect_profile_with_resolver dial ops resolve profile target resolved_ip deadline cancellation =
     and_then
       (case parse_ip_addr (op_proxy_host profile) of
          Some address \<Rightarrow> Inr (address, op_proxy_port profile)
        | None \<Rightarrow>
            and_then (map_err ConnectProxyResolve (resolve (op_proxy_host profile) (op_proxy_port profile))) (\<lambda>addresses.
              case addresses of
                [] \<Rightarrow> Inl (ConnectProxyResolve (port_error_new PortUnavailable ''outbound.proxy_resolve''))
              | a # _ \<Rightarrow> Inr a))
       (\<lambda>proxy_address. connect_profile dial ops profile proxy_address target resolved_ip deadline cancellation)"

end
