(* ===== verification/Socks5_Laws.thy ===== *)
theory Socks5_Laws
  imports Socks5
begin

text \<open>
  The laws of the SOCKS5 client: a handshake succeeds exactly on the frames of a proxy that accepts it and leaves
  the stream at the first byte behind them, the credentials go out only to a proxy that asks for them, and
  the address of a target is what the request carries. The lemmas on the handshake hold for every outbound
  stream; the properties are about the adapter over a socket.
\<close>

section \<open>Frames\<close>

lemma get_range_Some: "get_range xs start stop = Some ys \<longleftrightarrow> start \<le> stop \<and> stop \<le> length xs \<and> ys = take (stop - start) (drop start xs)"
  by (auto simp: get_range_def)

text \<open>An accepted CONNECT response has exactly the length its address type says.\<close>

lemma parse_connect_response_shape:
  assumes "parse_connect_response frame = Inr response"
  obtains "frame ! 3 = 0x01" "length frame = 10"
  | "frame ! 3 = 0x04" "length frame = 22"
  | "frame ! 3 = 0x03" "unat (frame ! 4) \<noteq> 0" "length frame = 7 + unat (frame ! 4)"
proof -
  obtain address stop where decode: "decode_address frame 3 = Inr (address, stop)" and len: "length frame = stop + 2"
    using assms by (auto simp: parse_connect_response_def split: if_splits)
  consider (v4) "frame ! 3 = 0x01" | (domain) "frame ! 3 = 0x03" | (v6) "frame ! 3 = 0x04"
    using decode by (auto simp: decode_address_def split: if_splits)
  then show thesis
  proof cases
    case v4
    with decode have "stop = 8" by (auto simp: decode_address_def)
    with v4 len show thesis by (intro that(1)) simp_all
  next
    case domain
    with decode have "stop = 5 + unat (frame ! 4)" "take (unat (frame ! 4)) (drop 5 frame) \<noteq> []"
      by (auto simp: decode_address_def get_range_Some socks5_domain_def split: if_splits)
    with domain len show thesis by (intro that(3)) auto
  next
    case v6
    with decode have "stop = 20" by (auto simp: decode_address_def)
    with v6 len show thesis by (intro that(2)) simp_all
  qed
qed

lemma encode_decode_address:
  assumes "encode_address address = Inr bytes" "length before = 3"
  shows "decode_address (before @ bytes @ rest) 3 = Inr (address, 3 + length bytes)"
proof (cases address)
  case (SocksIp ip)
  then show ?thesis
    using assms by (cases ip) (auto simp: decode_address_def nth_append get_range_def u64_max_def from_to_be_bytes)
next
  case (SocksDomain d)
  then have d: "d \<noteq> []" "length d \<le> 255" "bytes = 0x03 # of_nat (length d) # d" using assms(1) by (auto split: if_splits)
  then have "unat (of_nat (length d) :: byte) = length d" by (simp add: unat_of_nat)
  with d SocksDomain show ?thesis
    using assms(2) by (auto simp: decode_address_def nth_append get_range_def u64_max_def socks5_domain_def)
qed

lemma parse_method_response_Inr:
  "parse_method_response frame = Inr chosen \<longleftrightarrow>
     frame = [SOCKS5_VERSION, (case chosen of NoAuthentication \<Rightarrow> NO_AUTHENTICATION | UsernamePassword \<Rightarrow> USERNAME_PASSWORD)]"
proof -
  have "length frame = 2 \<longleftrightarrow> (\<exists>a b. frame = [a, b])" by (auto simp: numeral_2_eq_2 length_Suc_conv)
  then show ?thesis
    by (auto simp: parse_method_response_def NO_AUTHENTICATION_def USERNAME_PASSWORD_def split: socks5_auth_method.splits if_splits)
qed

text \<open>What the proxy sends when it accepts: the choice of a method, the answer to the credentials if it asks
  for them, and the response to the request; and what the client sends as credentials.\<close>

definition accepts :: "socks5_credentials option \<Rightarrow> byte list \<Rightarrow> byte list \<Rightarrow> byte list \<Rightarrow> byte list \<Rightarrow> bool" where
  "accepts credentials reply login verdict response \<longleftrightarrow>
     (\<exists>chosen. parse_method_response reply = Inr chosen \<and>
        (case chosen of
           NoAuthentication \<Rightarrow> login = [] \<and> verdict = []
         | UsernamePassword \<Rightarrow> \<exists>c. credentials = Some c \<and> encode_userpass_request (cred_username c) (cred_password c) = Inr login \<and>
             parse_userpass_response verdict = Inr ())) \<and>
     (\<exists>r. parse_connect_response response = Inr r \<and> cr_reply r = ReplySucceeded)"

section \<open>Steps on a stream\<close>

lemma after_Inr [simp]: "after step next_step = (Inr y, s') \<longleftrightarrow> (\<exists>x s. step = (Inr x, s) \<and> next_step x s = (Inr y, s'))"
  by (auto simp: after_def split: prod.splits sum.splits)

lemma after_simps [simp]: "after (Inr x, s) next_step = next_step x s" "after (Inl e, s) next_step = (Inl e, s)"
  by (simp_all add: after_def)

text \<open>What is known of the stream after a step that failed or succeeded.\<close>

lemma after_snd:
  assumes "\<And>e s. step = (Inl e, s) \<Longrightarrow> P s" "\<And>x s. step = (Inr x, s) \<Longrightarrow> P (snd (next_step x s))"
  shows "P (snd (after step next_step))"
  using assms by (cases step; cases "fst step") auto

context outbound_stream
begin

lemma read_frame_Inr:
  assumes "read_frame ops n deadline operation s = (Inr frame, s')"
  shows "length frame = n \<and> incoming s = frame @ incoming s' \<and> sent s' = sent s"
proof -
  have run: "op_read_exact ops n deadline s = (Inr (Complete frame), s')"
    using assms by (auto simp: read_frame_def split: prod.splits sum.splits tcp_read_result.splits if_splits)
  show ?thesis using read_complete [OF run] read_sends_nothing [OF run] by auto
qed

lemma read_frame_sent: "sent (snd (read_frame ops n deadline operation s)) = sent s"
  using read_sends_nothing [of n deadline s "fst (op_read_exact ops n deadline s)" "snd (op_read_exact ops n deadline s)"]
  by (auto simp: read_frame_def split: prod.splits sum.splits tcp_read_result.splits)

lemma read_frame_calm:
  assumes "calm deadline s" "incoming s = frame @ rest" "length frame = n"
  obtains s' where "read_frame ops n deadline operation s = (Inr frame, s')" "calm deadline s'" "incoming s' = rest"
proof -
  have "n \<le> length (incoming s)" "take n (incoming s) = frame" using assms(2,3) by simp_all
  with calm_read [OF assms(1)] obtain s' where run: "op_read_exact ops n deadline s = (Inr (Complete frame), s')" "calm deadline s'" by metis
  then have "incoming s' = rest" using read_complete [OF run(1)] assms(2) by simp
  with run assms(3) show thesis by (intro that) (simp_all add: read_frame_def)
qed

lemma write_frame_Inr: "write_frame ops frame deadline s = (Inr u, s') \<Longrightarrow> sent s' = sent s @ frame \<and> incoming s' = incoming s"
  using write_done [of frame deadline s s'] by (auto simp: write_frame_def Let_def split: prod.splits)

lemma write_frame_Inl: "write_frame ops frame deadline s = (Inl e, s') \<Longrightarrow> \<exists>part. prefix part frame \<and> sent s' = sent s @ part"
  using write_partial [of frame deadline s] by (auto simp: write_frame_def Let_def split: prod.splits)

lemma write_frame_calm:
  assumes "calm deadline s"
  obtains s' where "write_frame ops frame deadline s = (Inr (), s')" "calm deadline s'" "incoming s' = incoming s" "sent s' = sent s @ frame"
proof -
  obtain s' where run: "op_write_all ops frame deadline s = (Inr (), s')" "calm deadline s'" using calm_write [OF assms] by blast
  with write_done [OF run(1)] show thesis by (intro that [of s']) (simp_all add: write_frame_def)
qed

lemma read_connect_response_Inr:
  assumes "read_connect_response ops deadline s = (Inr frame, s')"
  shows "incoming s = frame @ incoming s'" "sent s' = sent s"
  using assms
  by (auto simp: read_connect_response_def Let_def dest!: read_frame_Inr split: if_splits)

lemma after_sent:
  assumes "sent (snd step) = sent s" "\<And>x t. step = (Inr x, t) \<Longrightarrow> sent (snd (next_step x t)) = sent t"
  shows "sent (snd (after step next_step)) = sent s"
  using assms by (intro after_snd [where P = "\<lambda>t. sent t = sent s"]) fastforce+

lemma read_connect_response_sent: "sent (snd (read_connect_response ops deadline s)) = sent s"
proof -
  have length_frame: "sent (snd (after (read_frame ops 1 deadline ''socks5.connect'' t) (\<lambda>length_frame s.
      if unat (length_frame ! 0) = 0 then (Inl (HandshakeProtocol SocksInvalidDomain), s)
      else (Inr (header @ length_frame, unat (length_frame ! 0) + 2), s)))) = sent t" for t header
    by (rule after_sent) (simp_all add: read_frame_sent)
  have rest: "sent (snd (after (read_frame ops n deadline ''socks5.connect'' t) (\<lambda>rest s. (Inr (front @ rest), s)))) = sent t"
    for t n and front :: "byte list" by (rule after_sent) (simp_all add: read_frame_sent)
  show ?thesis
    unfolding read_connect_response_def Let_def
    by (rule after_sent, simp add: read_frame_sent, rule after_sent) (auto simp: length_frame rest simp del: One_nat_def)
qed

text \<open>A response that would be accepted is read as a whole, and nothing behind it.\<close>

lemma read_connect_response_calm:
  assumes "calm deadline s" "incoming s = frame @ rest" "parse_connect_response frame = Inr response"
  obtains s' where "read_connect_response ops deadline s = (Inr frame, s')" "calm deadline s'" "incoming s' = rest"
proof -
  note result = that
  have len: "7 < length frame" using assms(3) by (cases rule: parse_connect_response_shape) auto
  then have header: "incoming s = take 4 frame @ (drop 4 frame @ rest)" "length (take 4 frame) = 4" using assms(2) by simp_all
  obtain s1 where s1: "read_frame ops 4 deadline ''socks5.connect'' s = (Inr (take 4 frame), s1)" "calm deadline s1"
    "incoming s1 = drop 4 frame @ rest" by (rule read_frame_calm [OF assms(1) header])
  have nth: "take 4 frame ! 3 = frame ! 3" by simp
  have finish: thesis
    if run: "read_connect_response ops deadline s =
        after (read_frame ops n deadline ''socks5.connect'' s2) (\<lambda>rest s. (Inr (front @ rest), s))"
      and read: "calm deadline s2" "incoming s2 = body @ rest" "length body = n" and frame: "frame = front @ body" for s2 n front body
  proof -
    obtain s' where "read_frame ops n deadline ''socks5.connect'' s2 = (Inr body, s')" "calm deadline s'" "incoming s' = rest"
      by (rule read_frame_calm [OF read])
    then show thesis using run frame by (intro result [of s']) simp_all
  qed
  show thesis
    using assms(3)
  proof (cases rule: parse_connect_response_shape)
    case 1
    show thesis
      by (rule finish [of 6 s1 "take 4 frame" "drop 4 frame"]) (use s1 1 nth in \<open>simp_all add: read_connect_response_def\<close>)
  next
    case 2
    show thesis
      by (rule finish [of 18 s1 "take 4 frame" "drop 4 frame"]) (use s1 2 nth in \<open>simp_all add: read_connect_response_def\<close>)
  next
    case 3
    have one: "incoming s1 = [frame ! 4] @ (drop 5 frame @ rest)" "length [frame ! 4] = 1"
      using s1(3) len by (simp_all add: Cons_nth_drop_Suc [symmetric])
    obtain s2 where s2: "read_frame ops 1 deadline ''socks5.connect'' s1 = (Inr [frame ! 4], s2)" "calm deadline s2"
      "incoming s2 = drop 5 frame @ rest" by (rule read_frame_calm [OF s1(2) one])
    have front: "frame = (take 4 frame @ [frame ! 4]) @ drop 5 frame"
      using len id_take_nth_drop [of 4 frame] by simp
    show thesis
      by (rule finish [of "unat (frame ! 4) + 2" s2 "take 4 frame @ [frame ! 4]" "drop 5 frame"])
        (use s1 s2 3 nth front in \<open>simp_all add: read_connect_response_def\<close>)
  qed
qed

lemma authenticate_Inr:
  assumes "authenticate ops chosen credentials deadline s = (Inr u, s')"
  shows "\<exists>login verdict. incoming s = verdict @ incoming s' \<and> sent s' = sent s @ login \<and>
    (case chosen of
       NoAuthentication \<Rightarrow> login = [] \<and> verdict = []
     | UsernamePassword \<Rightarrow> \<exists>c. credentials = Some c \<and> encode_userpass_request (cred_username c) (cred_password c) = Inr login \<and>
         parse_userpass_response verdict = Inr ())"
proof (cases chosen)
  case UsernamePassword
  with assms obtain c login s1 s2 verdict where "credentials = Some c"
    "encode_userpass_request (cred_username c) (cred_password c) = Inr login" "write_frame ops login deadline s = (Inr (), s1)"
    "read_frame ops 2 deadline ''socks5.userpass'' s1 = (Inr verdict, s')" "parse_userpass_response verdict = Inr ()"
    by (auto simp: authenticate_def split: option.splits)
  with UsernamePassword write_frame_Inr [of login deadline s "()" s1] read_frame_Inr [of 2 deadline "''socks5.userpass''" s1 verdict s']
  show ?thesis by (intro exI [of _ login] exI [of _ verdict]) simp
qed (use assms in \<open>auto simp: authenticate_def\<close>)

lemma request_connect_Inr:
  assumes "request_connect ops address port deadline s = (Inr u, s')"
  shows "\<exists>request response r. encode_connect_request address port = Inr request \<and> incoming s = response @ incoming s' \<and>
    sent s' = sent s @ request \<and> parse_connect_response response = Inr r \<and> cr_reply r = ReplySucceeded"
proof -
  from assms obtain request s1 response r where "encode_connect_request address port = Inr request"
    "write_frame ops request deadline s = (Inr (), s1)" "read_connect_response ops deadline s1 = (Inr response, s')"
    "parse_connect_response response = Inr r" "cr_reply r = ReplySucceeded"
    by (auto simp: request_connect_def reply_is_success_def split: if_splits)
  with write_frame_Inr [of request deadline s "()" s1] read_connect_response_Inr [of deadline s1 response s'] show ?thesis
    by (intro exI [of _ request] exI [of _ response] exI [of _ r]) simp
qed

text \<open>A handshake that succeeds has consumed exactly the frames of an accepting proxy.\<close>

lemma handshake_Inr:
  assumes "perform_handshake ops address port credentials deadline cancellation s = (Inr u, s')"
  shows "\<not> can_token cancellation \<and> (\<exists>reply login verdict response request.
    encode_connect_request address port = Inr request \<and> accepts credentials reply login verdict response \<and>
    incoming s = reply @ verdict @ response @ incoming s' \<and>
    sent s' = sent s @ encode_method_request (credentials \<noteq> None) @ login @ request)"
proof -
  from assms obtain s1 reply s2 chosen s3 where run: "\<not> can_token cancellation"
    "write_frame ops (encode_method_request (credentials \<noteq> None)) deadline s = (Inr (), s1)"
    "read_frame ops 2 deadline ''socks5.method'' s1 = (Inr reply, s2)" "parse_method_response reply = Inr chosen"
    "authenticate ops chosen credentials deadline s2 = (Inr (), s3)" "request_connect ops address port deadline s3 = (Inr u, s')"
    by (auto simp: perform_handshake_def split: if_splits)
  obtain login verdict where auth: "incoming s2 = verdict @ incoming s3" "sent s3 = sent s2 @ login" "case chosen of
       NoAuthentication \<Rightarrow> login = [] \<and> verdict = []
     | UsernamePassword \<Rightarrow> \<exists>c. credentials = Some c \<and> encode_userpass_request (cred_username c) (cred_password c) = Inr login \<and>
         parse_userpass_response verdict = Inr ()" using authenticate_Inr [OF run(5)] by blast
  obtain request response r where connect: "encode_connect_request address port = Inr request" "incoming s3 = response @ incoming s'"
    "sent s' = sent s3 @ request" "parse_connect_response response = Inr r" "cr_reply r = ReplySucceeded"
    using request_connect_Inr [OF run(6)] by blast
  have "incoming s = reply @ verdict @ response @ incoming s'" "sent s' = sent s @ encode_method_request (credentials \<noteq> None) @ login @ request"
    using write_frame_Inr [OF run(2)] read_frame_Inr [OF run(3)] auth(1,2) connect(2,3) by simp_all
  with run(1,4) auth(3) connect(1,4,5) show ?thesis unfolding accepts_def by blast
qed

lemma authenticate_calm:
  assumes "calm deadline s" "incoming s = verdict @ rest"
    and "case chosen of
       NoAuthentication \<Rightarrow> login = [] \<and> verdict = []
     | UsernamePassword \<Rightarrow> \<exists>c. credentials = Some c \<and> encode_userpass_request (cred_username c) (cred_password c) = Inr login \<and>
         parse_userpass_response verdict = Inr ()"
  obtains s' where "authenticate ops chosen credentials deadline s = (Inr (), s')" "calm deadline s'" "incoming s' = rest"
proof (cases chosen)
  case NoAuthentication
  then show thesis using assms by (intro that [of s]) (simp_all add: authenticate_def)
next
  case UsernamePassword
  with assms(3) obtain c where c: "credentials = Some c" "encode_userpass_request (cred_username c) (cred_password c) = Inr login"
    "parse_userpass_response verdict = Inr ()" by auto
  then have len: "length verdict = 2" by (auto simp: parse_userpass_response_def split: if_splits)
  obtain s1 where s1: "write_frame ops login deadline s = (Inr (), s1)" "calm deadline s1" "incoming s1 = incoming s"
    by (rule write_frame_calm [OF assms(1)])
  obtain s2 where "read_frame ops 2 deadline ''socks5.userpass'' s1 = (Inr verdict, s2)" "calm deadline s2" "incoming s2 = rest"
    by (rule read_frame_calm [OF s1(2) _ len]) (use s1(3) assms(2) in simp)
  with s1 c UsernamePassword show thesis by (intro that [of s2]) (simp_all add: authenticate_def)
qed

lemma handshake_calm:
  assumes "calm deadline s" "\<not> can_token cancellation" "encode_connect_request address port = Inr request"
    and "accepts credentials reply login verdict response" "incoming s = reply @ verdict @ response @ rest"
  obtains s' where "perform_handshake ops address port credentials deadline cancellation s = (Inr (), s')" "incoming s' = rest"
proof -
  obtain chosen r where chosen: "parse_method_response reply = Inr chosen" and auth: "case chosen of
       NoAuthentication \<Rightarrow> login = [] \<and> verdict = []
     | UsernamePassword \<Rightarrow> \<exists>c. credentials = Some c \<and> encode_userpass_request (cred_username c) (cred_password c) = Inr login \<and>
         parse_userpass_response verdict = Inr ()"
    and r: "parse_connect_response response = Inr r" "cr_reply r = ReplySucceeded"
    using assms(4) unfolding accepts_def by blast
  have len: "length reply = 2" using chosen by (auto simp: parse_method_response_Inr)
  obtain s1 where s1: "write_frame ops (encode_method_request (credentials \<noteq> None)) deadline s = (Inr (), s1)" "calm deadline s1"
    "incoming s1 = incoming s" by (rule write_frame_calm [OF assms(1)])
  obtain s2 where s2: "read_frame ops 2 deadline ''socks5.method'' s1 = (Inr reply, s2)" "calm deadline s2" "incoming s2 = verdict @ response @ rest"
    by (rule read_frame_calm [OF s1(2) _ len]) (use s1(3) assms(5) in simp)
  obtain s3 where s3: "authenticate ops chosen credentials deadline s2 = (Inr (), s3)" "calm deadline s3" "incoming s3 = response @ rest"
    by (rule authenticate_calm [OF s2(2,3) auth])
  obtain s4 where s4: "write_frame ops request deadline s3 = (Inr (), s4)" "calm deadline s4" "incoming s4 = incoming s3"
    by (rule write_frame_calm [OF s3(2)])
  obtain s5 where s5: "read_connect_response ops deadline s4 = (Inr response, s5)" "calm deadline s5" "incoming s5 = rest"
    by (rule read_connect_response_calm [OF s4(2) _ r(1)]) (use s4(3) s3(3) in simp)
  have "request_connect ops address port deadline s3 = (Inr (), s5)"
    using s4 s5 r assms(3) by (simp add: request_connect_def reply_is_success_def)
  then show thesis using assms(2) s1 s2 s3 s5 chosen by (intro that [of s5]) (simp_all add: perform_handshake_def)
qed

text \<open>Unless the proxy asks for them, nothing of the credentials goes out.\<close>

lemma write_after_private:
  assumes "sent s = before @ part" "prefix (part @ frame) allowed"
    and "\<And>t. sent t = before @ part @ frame \<Longrightarrow> incoming t = incoming s \<Longrightarrow> \<exists>q. prefix q allowed \<and> sent (snd (next_step t)) = before @ q"
  shows "\<exists>q. prefix q allowed \<and> sent (snd (after (write_frame ops frame deadline s) (\<lambda>_. next_step))) = before @ q"
proof (cases "fst (write_frame ops frame deadline s)")
  case (Inl e)
  then have run: "write_frame ops frame deadline s = (Inl e, snd (write_frame ops frame deadline s))" by (simp add: prod_eq_iff)
  obtain q where "prefix q frame" "sent (snd (write_frame ops frame deadline s)) = sent s @ q" using write_frame_Inl [OF run] by blast
  moreover from this(1) have "prefix (part @ q) allowed" using assms(2) by (metis prefix_order.trans same_prefix_prefix)
  ultimately show ?thesis using assms(1) by (subst run) (auto simp: append_assoc)
next
  case (Inr u)
  then have run: "write_frame ops frame deadline s = (Inr u, snd (write_frame ops frame deadline s))" by (simp add: prod_eq_iff)
  show ?thesis using assms(3) [of "snd (write_frame ops frame deadline s)"] write_frame_Inr [OF run] assms(1) by (subst run) simp
qed

lemma request_connect_private:
  assumes "sent s = before @ part"
  shows "\<exists>q. prefix q (part @ (case encode_connect_request address port of Inr f \<Rightarrow> f | Inl _ \<Rightarrow> [])) \<and>
    sent (snd (request_connect ops address port deadline s)) = before @ q"
proof (cases "encode_connect_request address port")
  case (Inl e)
  then show ?thesis using assms by (auto simp: request_connect_def)
next
  case (Inr frame)
  let ?rest = "\<lambda>t. after (read_connect_response ops deadline t) (\<lambda>frame s.
      after (map_err HandshakeProtocol (parse_connect_response frame), s) (\<lambda>response s.
        if reply_is_success (cr_reply response) then (Inr (), s) else (Inl (ProxyRejected (cr_reply response)), s)))"
  have quiet: "sent (snd (?rest t)) = sent t" for t
    by (rule after_sent [OF read_connect_response_sent], rule after_sent) auto
  have "\<exists>q. prefix q (part @ frame) \<and> sent (snd (after (write_frame ops frame deadline s) (\<lambda>_. ?rest))) = before @ q"
    by (rule write_after_private [OF assms]) (auto simp: quiet)
  then show ?thesis by (simp add: request_connect_def Inr)
qed

lemma handshake_private:
  assumes "take 2 (incoming s) \<noteq> [SOCKS5_VERSION, USERNAME_PASSWORD]"
  shows "\<exists>q. prefix q (encode_method_request (credentials \<noteq> None) @ (case encode_connect_request address port of Inr f \<Rightarrow> f | Inl _ \<Rightarrow> [])) \<and>
    sent (snd (perform_handshake ops address port credentials deadline cancellation s)) = sent s @ q"
proof (cases "can_token cancellation")
  case True
  then show ?thesis by (simp add: perform_handshake_def)
next
  case False
  let ?hello = "encode_method_request (credentials \<noteq> None)" and ?step = "\<lambda>t. after (read_frame ops 2 deadline ''socks5.method'' t) (\<lambda>frame s.
        after (map_err HandshakeProtocol (parse_method_response frame), s) (\<lambda>chosen s.
        after (authenticate ops chosen credentials deadline s) (\<lambda>_ s. request_connect ops address port deadline s)))"
  let ?allowed = "?hello @ (case encode_connect_request address port of Inr f \<Rightarrow> f | Inl _ \<Rightarrow> [])"
  have step: "\<exists>q. prefix q ?allowed \<and> sent (snd (?step t)) = sent s @ q" if t: "sent t = sent s @ ?hello" "incoming t = incoming s" for t
  proof (rule after_snd [where P = "\<lambda>t'. \<exists>q. prefix q ?allowed \<and> sent t' = sent s @ q"])
    fix e t' assume "read_frame ops 2 deadline ''socks5.method'' t = (Inl e, t')"
    then show "\<exists>q. prefix q ?allowed \<and> sent t' = sent s @ q" using read_frame_sent [of 2 deadline "''socks5.method''" t] t(1) by auto
  next
    fix frame t' assume "read_frame ops 2 deadline ''socks5.method'' t = (Inr frame, t')"
    from read_frame_Inr [OF this] have frame: "length frame = 2" "incoming s = frame @ incoming t'" "sent t' = sent s @ ?hello" using t by simp_all
    have other: "parse_method_response frame \<noteq> Inr UsernamePassword" using assms frame(1,2) by (auto simp: parse_method_response_Inr)
    show "\<exists>q. prefix q ?allowed \<and> sent (snd (after (map_err HandshakeProtocol (parse_method_response frame), t') (\<lambda>chosen s.
        after (authenticate ops chosen credentials deadline s) (\<lambda>_ s. request_connect ops address port deadline s)))) = sent s @ q"
    proof (cases "parse_method_response frame")
      case (Inl e)
      then show ?thesis using frame(3) by auto
    next
      case (Inr chosen)
      then have "chosen = NoAuthentication" using other by (cases chosen) auto
      then show ?thesis using Inr request_connect_private [OF frame(3), of address port deadline] by (simp add: authenticate_def)
    qed
  qed
  have "\<exists>q. prefix q ?allowed \<and> sent (snd (after (write_frame ops ?hello deadline s) (\<lambda>_. ?step))) = sent s @ q"
    by (rule write_after_private [of s "sent s" "[]"]) (use step in auto)
  then show ?thesis using False by (simp add: perform_handshake_def)
qed

end

section \<open>Properties\<close>

text \<open>
  Property C7: the handshake over a socket that nothing disturbs succeeds exactly when the proxy accepts, that is
  when its bytes are a choice of a method, the approval of the credentials if it asked for them, and a CONNECT response
  of success, however they are cut into packets; and it consumes these frames and no byte behind them. Whenever it
  succeeds, it has sent the greeting, the credentials if they were asked for, and the request for the address.
\<close>

theorem handshake_exact:
  assumes "calm_socket events deadline sock" "\<not> can_token cancellation"
  shows "((\<exists>sock'. perform_handshake (tokio_stream events) address port credentials deadline cancellation sock = (Inr (), sock') \<and>
       so_incoming sock' = rest) \<longleftrightarrow>
     (\<exists>request reply login verdict response. encode_connect_request address port = Inr request \<and>
       accepts credentials reply login verdict response \<and> so_incoming sock = reply @ verdict @ response @ rest)) \<and>
    (\<forall>sock'. perform_handshake (tokio_stream events) address port credentials deadline cancellation sock = (Inr (), sock') \<longrightarrow>
      (\<exists>request reply login verdict response. encode_connect_request address port = Inr request \<and>
        accepts credentials reply login verdict response \<and> so_incoming sock = reply @ verdict @ response @ so_incoming sock' \<and>
        so_sent sock' = so_sent sock @ encode_method_request (credentials \<noteq> None) @ login @ request))"
proof -
  let ?run = "\<lambda>sock'. perform_handshake (tokio_stream events) address port credentials deadline cancellation sock = (Inr (), sock')"
  have frames: "\<exists>request reply login verdict response. encode_connect_request address port = Inr request \<and>
      accepts credentials reply login verdict response \<and> so_incoming sock = reply @ verdict @ response @ so_incoming sock' \<and>
      so_sent sock' = so_sent sock @ encode_method_request (credentials \<noteq> None) @ login @ request" if "?run sock'" for sock'
  proof -
    from tokio.handshake_Inr [OF that] obtain reply login verdict response request where "encode_connect_request address port = Inr request"
      "accepts credentials reply login verdict response" "so_incoming sock = reply @ verdict @ response @ so_incoming sock'"
      "so_sent sock' = so_sent sock @ encode_method_request (credentials \<noteq> None) @ login @ request" by (elim conjE exE)
    then show ?thesis by (intro exI conjI)
  qed
  have run: "\<exists>sock'. ?run sock' \<and> so_incoming sock' = rest" if "encode_connect_request address port = Inr request"
    "accepts credentials reply login verdict response" "so_incoming sock = reply @ verdict @ response @ rest" for request reply login verdict response
    by (rule tokio.handshake_calm [OF assms that]) (intro exI conjI)
  show ?thesis
  proof (intro conjI allI impI iffI)
    assume "\<exists>sock'. ?run sock' \<and> so_incoming sock' = rest"
    then obtain sock' where sock': "?run sock'" "so_incoming sock' = rest" by (elim exE conjE)
    from frames [OF sock'(1)] show "\<exists>request reply login verdict response. encode_connect_request address port = Inr request \<and>
        accepts credentials reply login verdict response \<and> so_incoming sock = reply @ verdict @ response @ rest"
      unfolding sock'(2) by (elim exE conjE) (intro exI conjI)
  qed (elim exE conjE, rule run, assumption+, rule frames)
qed

text \<open>A proxy that asks for a password, and sends the first byte of the tunnel right behind its response. Reads
  give one byte at a time.\<close>

definition slow_events :: "nat \<Rightarrow> io_event" where
  "slow_events i = \<lparr>ev_cancellation = cancellation_new, ev_now = 0, ev_winner = IoDone, ev_moved = 1\<rparr>"

definition sample_proxy :: socket where
  "sample_proxy = \<lparr>so_incoming = [5, 2, 1, 0, 5, 0, 0, 1, 127, 0, 0, 1, 0, 80, 42], so_sent = [], so_turn = 0\<rparr>"

definition sample_login :: "socks5_credentials option" where
  "sample_login = Some \<lparr>cred_username = [117], cred_password = [112, 119]\<rparr>"

theorem handshake_exact_witness:
  "\<exists>sock'. perform_handshake (tokio_stream slow_events) (SocksDomain [97]) 853 sample_login 10 cancellation_new sample_proxy = (Inr (), sock') \<and>
     so_incoming sock' = [42]"
proof -
  have calm: "calm_socket slow_events 10 sample_proxy" by (simp add: calm_socket_def slow_events_def cancellation_new_def is_expired_def)
  have "accepts sample_login [5, 2] [1, 1, 117, 2, 112, 119] [1, 0] [5, 0, 0, 1, 127, 0, 0, 1, 0, 80]"
  proof -
    have "parse_method_response [5, 2] = Inr UsernamePassword" "encode_userpass_request [117] [112, 119] = Inr [1, 1, 117, 2, 112, 119]"
      "parse_userpass_response [1, 0] = Inr ()"
      "(case parse_connect_response [5, 0, 0, 1, 127, 0, 0, 1, 0, 80] of Inr r \<Rightarrow> cr_reply r = ReplySucceeded | Inl _ \<Rightarrow> False)" by code_simp+
    then show ?thesis by (auto simp: accepts_def sample_login_def split: sum.splits)
  qed
  moreover have "encode_connect_request (SocksDomain [97]) 853 = Inr [5, 1, 0, 3, 1, 97, 3, 85]" by code_simp
  moreover have "so_incoming sample_proxy = [5, 2] @ [1, 0] @ [5, 0, 0, 1, 127, 0, 0, 1, 0, 80] @ [42]" by (simp add: sample_proxy_def)
  ultimately have "\<exists>request reply login verdict response. encode_connect_request (SocksDomain [97]) 853 = Inr request \<and>
      accepts sample_login reply login verdict response \<and> so_incoming sample_proxy = reply @ verdict @ response @ [42]"
    by (intro exI conjI)
  moreover have token: "\<not> can_token cancellation_new" by (simp add: cancellation_new_def)
  ultimately show ?thesis by (intro iffD2 [OF conjunct1 [OF handshake_exact [OF calm token]]])
qed

text \<open>
  Property C13: the credentials stay private. Whatever happens on the socket, unless the proxy answers the
  greeting with the choice of the password method, all that was sent is a beginning of the greeting and the CONNECT request.
\<close>

theorem credentials_stay_private:
  assumes "take 2 (so_incoming sock) \<noteq> [SOCKS5_VERSION, USERNAME_PASSWORD]"
    and "perform_handshake (tokio_stream events) address port credentials deadline cancellation sock = (result, sock')"
  shows "\<exists>part. so_sent sock' = so_sent sock @ part \<and>
    prefix part (encode_method_request (credentials \<noteq> None) @
      (case encode_connect_request address port of Inr request \<Rightarrow> request | Inl _ \<Rightarrow> []))"
  using tokio.handshake_private [OF assms(1), of credentials address port events deadline cancellation] assms(2) by auto

theorem credentials_stay_private_witness:
  "\<exists>part. so_sent (snd (perform_handshake (tokio_stream slow_events) (SocksDomain [97]) 853 sample_login 10 cancellation_new
       (sample_proxy\<lparr>so_incoming := [5, 0, 5, 1]\<rparr>))) = part \<and> prefix part ([5, 2, 0, 2] @ [5, 1, 0, 3, 1, 97, 3, 85])"
proof -
  let ?sock = "sample_proxy\<lparr>so_incoming := [5, 0, 5, 1]\<rparr>"
  have "take 2 (so_incoming ?sock) \<noteq> [SOCKS5_VERSION, USERNAME_PASSWORD]" by (simp add: SOCKS5_VERSION_def USERNAME_PASSWORD_def)
  moreover have "encode_method_request (sample_login \<noteq> None) = [5, 2, 0, 2]" "encode_connect_request (SocksDomain [97]) 853 = Inr [5, 1, 0, 3, 1, 97, 3, 85]"
    "so_sent ?sock = []" by code_simp+
  ultimately show ?thesis
    using credentials_stay_private [of ?sock slow_events "SocksDomain [97]" 853 sample_login 10 cancellation_new, OF _ prod.collapse [symmetric]] by simp
qed

text \<open>
  The proxy is asked for the target of the profile. A target of a profile can be asked for in a CONNECT
  request, whose address decodes to the address of the target; a \<open>socks5h\<close> profile without a fixed address sends the
  host name and needs no address, every other target sends the fixed address or else the resolved one.
\<close>

lemma target_request_roundtrip:
  assumes "profile_target profile host port connect_ip bootstrap = Inr target" "length host \<le> 255"
    and "op_scheme profile = SchemeSocks5 \<longrightarrow> connect_ip = None \<longrightarrow> resolved_ip \<noteq> None"
  shows "\<exists>address request. address_for_target target resolved_ip = Inr address \<and>
    encode_connect_request address (ot_port target) = Inr request \<and>
    decode_address request 3 = Inr (address, length request - 2) \<and>
    from_be_bytes (drop (length request - 2) request) = port \<and>
    address = (case connect_ip of
        Some ip \<Rightarrow> SocksIp ip
      | None \<Rightarrow> if op_scheme profile = SchemeSocks5h then SocksDomain (as_bytes host) else SocksIp (the resolved_ip))"
proof -
  let ?address = "case connect_ip of
        Some ip \<Rightarrow> SocksIp ip
      | None \<Rightarrow> if op_scheme profile = SchemeSocks5h then SocksDomain (as_bytes host) else SocksIp (the resolved_ip)"
  have target: "host \<noteq> []" "port \<noteq> 0" "ot_port target = port" and address: "address_for_target target resolved_ip = Inr ?address"
    using assms by (cases "op_scheme profile"; auto simp: profile_target_def address_for_target_def as_bytes_def Let_def
        split: if_splits option.splits)+
  have "\<exists>bytes. encode_address ?address = Inr bytes"
  proof (cases ?address)
    case (SocksIp ip)
    then show ?thesis by (cases ip) (simp_all only: SocksIp, simp_all)
  next
    case (SocksDomain d)
    then have "d = as_bytes host" by (auto split: option.splits if_splits)
    then show ?thesis using target(1) assms(2) by (simp only: SocksDomain) (simp add: as_bytes_def)
  qed
  then obtain bytes where bytes: "encode_address ?address = Inr bytes" ..
  let ?request = "[SOCKS5_VERSION, CONNECT_COMMAND, 0] @ bytes @ to_be_bytes port"
  have request: "encode_connect_request ?address (ot_port target) = Inr ?request"
    using target bytes by (simp add: encode_connect_request_def)
  have len: "length ?request - 2 = 3 + length bytes" by simp
  have "decode_address ?request 3 = Inr (?address, 3 + length bytes)" by (rule encode_decode_address [OF bytes]) simp
  moreover have "from_be_bytes (drop (3 + length bytes) ?request) = port" by (simp add: numeral_3_eq_3 from_to_be_bytes)
  ultimately have "decode_address ?request 3 = Inr (?address, length ?request - 2)" "from_be_bytes (drop (length ?request - 2) ?request) = port"
    by (simp_all only: len)
  with address request show ?thesis by (intro exI conjI) (assumption | rule refl)+
qed

lemma target_request_roundtrip_witness:
  "\<exists>address. address_for_target (the (case profile_target \<lparr>op_scheme = SchemeSocks5h, op_proxy_host = ''p'', op_proxy_port = 1080,
       op_credentials = None\<rparr> ''dns.example'' 853 None None of Inr t \<Rightarrow> Some t | Inl _ \<Rightarrow> None)) None = Inr address \<and>
     address = SocksDomain (as_bytes ''dns.example'')"
proof -
  let ?profile = "\<lparr>op_scheme = SchemeSocks5h, op_proxy_host = ''p'', op_proxy_port = 1080, op_credentials = None\<rparr>"
  obtain target where target: "profile_target ?profile ''dns.example'' 853 None None = Inr target"
    by (simp add: profile_target_def)
  from target_request_roundtrip [OF target, where resolved_ip = None] show ?thesis by (auto simp: target)
qed

section \<open>Findings\<close>

text \<open>A host in brackets is never read as an address, so the connector asks the resolver for it.\<close>

lemma bracketed_host_goes_to_resolver:
  assumes "resolve (CHR ''['' # host) port = Inl e"
  shows "connect_profile_with_resolver dial ops resolve
      \<lparr>op_scheme = scheme, op_proxy_host = CHR ''['' # host, op_proxy_port = port, op_credentials = credentials\<rparr> target resolved_ip deadline cancellation =
    Inl (ConnectProxyResolve e)"
proof -
  have "to_digit 10 (CHR ''['') = None" "to_digit 16 (CHR ''['') = None" by code_simp+
  then have number: "read_number 10 3 False 255 (CHR ''['' # host) = None" "read_number 16 4 True 65535 (CHR ''['' # host) = None"
    by (simp_all add: read_number_def)
  have "read_octets (Suc 3) 0 (CHR ''['' # host) = None" by (simp only: read_octets.simps read_separator_def number) simp
  then have v4: "read_ipv4_addr (CHR ''['' # host) = None" by (simp add: read_ipv4_addr_def)
  have "read_groups (Suc 7) 0 (CHR ''['' # host) = ([], False, CHR ''['' # host)"
    by (simp only: read_groups.simps read_separator_def number v4) simp
  then have "read_groups 8 0 (CHR ''['' # host) = ([], False, CHR ''['' # host)" by simp
  with v4 have "parse_ip_addr (CHR ''['' # host) = None" by (simp add: parse_ip_addr_def read_ipv6_addr_def read_given_char_def)
  then show ?thesis using assms by (simp add: connect_profile_with_resolver_def)
qed

text \<open>A frame that ends in the middle is reported as a clean end of the stream.\<close>

lemma truncated_frame_is_clean_eof:
  "fst (tokio_read_exact slow_events 4 10 \<lparr>so_incoming = [5, 0], so_sent = [], so_turn = 0\<rparr>) = Inr CleanEof"
  by code_simp

end
