(* ===== verification/Session_Store.thy ===== *)
theory Session_Store
  imports Rust_Strings Cache_Types
begin

text \<open>
  The sessions of the management interface (\<open>backend/src/management/session.rs\<close>): a bounded store in
  memory of sessions (the cookie), access tokens (the bearer credential) and single-use tickets for web sockets.

  The clock readings of an operation are its arguments, the monotonic one in nanoseconds and the wall clock
  in nanoseconds since the epoch. So are the strings the random source and its text encoding give, \<open>None\<close> when the
  source fails, and the formatter of a time stamp, which can panic (\<open>None\<close>) or refuse it (\<open>Some None\<close>). The result
  \<open>None\<close> of an operation is a panic; it poisons the lock when the lock is held, and since the data behind a poisoned
  lock is never read again, the half-written record of a panicking refresh is not kept. A hash map is an association
  list in some order, which only decides between sessions created at the same instant.
\<close>

section \<open>Constants and types\<close>

definition seconds :: "nat \<Rightarrow> duration" where
  "seconds n = n * 1000000000"

definition SESSION_ABSOLUTE_TTL :: duration where
  "SESSION_ABSOLUTE_TTL = seconds (30 * 24 * 60 * 60)"

definition SESSION_IDLE_TTL :: duration where
  "SESSION_IDLE_TTL = seconds (24 * 60 * 60)"

definition SESSION_GLOBAL_CAPACITY :: nat where
  "SESSION_GLOBAL_CAPACITY = 4096"

definition SESSION_PER_USER_CAPACITY :: nat where
  "SESSION_PER_USER_CAPACITY = 16"

definition ACCESS_TOKEN_TTL :: duration where
  "ACCESS_TOKEN_TTL = seconds (60 * 60)"

definition ACCESS_RENEW_WINDOW :: duration where
  "ACCESS_RENEW_WINDOW = seconds (10 * 60)"

definition WS_TICKET_TTL :: duration where
  "WS_TICKET_TTL = seconds 30"

definition WS_TICKET_GLOBAL_CAPACITY :: nat where
  "WS_TICKET_GLOBAL_CAPACITY = 128"

definition WS_TICKET_PER_SESSION_CAPACITY :: nat where
  "WS_TICKET_PER_SESSION_CAPACITY = 4"

definition HTTPS_COOKIE_NAME :: string where
  "HTTPS_COOKIE_NAME = ''__Host-fluxdns_session''"

definition HTTP_COOKIE_NAME :: string where
  "HTTP_COOKIE_NAME = ''fluxdns_session''"

record session_view =
  sv_user :: string
  sv_expires_at :: string

record session_record =
  sr_username :: string
  sr_created_at :: instant
  sr_last_seen :: instant
  sr_expires_at :: instant
  sr_expires_at_utc :: int
  sr_access_token :: string
  sr_access_expires_at :: instant
  sr_access_expires_at_utc :: int

record auth_session =
  as_session :: session_view
  as_access_token :: string
  as_token_type :: string
  as_access_expires_at_ms :: nat

record issued_session =
  is_token :: string
  is_view :: auth_session

record access_record =
  ar_session_token :: string
  ar_expires_at :: instant

record websocket_ticket_record =
  wt_session_token :: string
  wt_expires_at :: instant

record websocket_ticket =
  tk_ticket :: string
  tk_expires_at_ms :: nat

record session_data =
  sd_sessions :: "(string \<times> session_record) list"
  sd_accesses :: "(string \<times> access_record) list"
  sd_tickets :: "(string \<times> websocket_ticket_record) list"

text \<open>The store: the data behind its lock, whether the lock is poisoned, the cookie mode and the counter that
  the watchers of changes see.\<close>

record session_store =
  ss_data :: session_data
  ss_poisoned :: bool
  ss_secure :: bool
  ss_changes :: nat

datatype session_error = RandomSource | SessionUnavailable | TimeFormat | SessionCapacity

type_synonym time_format = "int \<Rightarrow> string option option"

section \<open>Helpers\<close>

definition session_store_new :: "bool \<Rightarrow> session_store" where
  "session_store_new secure =
     \<lparr>ss_data = \<lparr>sd_sessions = [], sd_accesses = [], sd_tickets = []\<rparr>, ss_poisoned = False, ss_secure = secure, ss_changes = 0\<rparr>"

text \<open>Adding to a \<open>SystemTime\<close> fails beyond the same bound as for an \<open>Instant\<close>.\<close>

definition system_time_add :: "int \<Rightarrow> duration \<Rightarrow> int option" where
  "system_time_add at d = instant_checked_add at d"

definition random_token :: "string option \<Rightarrow> session_error + string" where
  "random_token source = ok_or RandomSource source"

definition session_view_of :: "time_format \<Rightarrow> string \<Rightarrow> int \<Rightarrow> (session_error + session_view) option" where
  "session_view_of fmt username expires_at =
     map_option (\<lambda>formatted. and_then (ok_or TimeFormat formatted) (\<lambda>shown. Inr \<lparr>sv_user = username, sv_expires_at = shown\<rparr>))
       (fmt expires_at)"

definition auth_session_of :: "time_format \<Rightarrow> session_record \<Rightarrow> (session_error + auth_session) option" where
  "auth_session_of fmt r =
     (if sr_access_expires_at_utc r < 0 then Some (Inl TimeFormat)
      else
        let millis = nat (sr_access_expires_at_utc r) div 1000000 in
        if 9007199254740991 < millis then Some (Inl TimeFormat)
        else map_option (\<lambda>view. and_then view (\<lambda>view.
               Inr \<lparr>as_session = view, as_access_token = sr_access_token r, as_token_type = ''Bearer'', as_access_expires_at_ms = millis\<rparr>))
             (session_view_of fmt (sr_username r) (sr_expires_at_utc r)))"

definition remove_session :: "string \<Rightarrow> session_data \<Rightarrow> session_data" where
  "remove_session token data =
     \<lparr>sd_sessions = AList.delete token (sd_sessions data),
      sd_accesses = filter (\<lambda>(_, access). ar_session_token access \<noteq> token) (sd_accesses data),
      sd_tickets = filter (\<lambda>(_, ticket). wt_session_token ticket \<noteq> token) (sd_tickets data)\<rparr>"

text \<open>\<open>duration_since\<close> of a later instant is zero.\<close>

definition session_live :: "instant \<Rightarrow> session_record \<Rightarrow> bool" where
  "session_live now r \<longleftrightarrow> now < sr_expires_at r \<and> saturating_duration_since now (sr_last_seen r) < SESSION_IDLE_TTL"

definition purge_expired :: "instant \<Rightarrow> session_data \<Rightarrow> session_data" where
  "purge_expired now data =
     (let sessions = filter (\<lambda>(_, r). session_live now r) (sd_sessions data) in
      \<lparr>sd_sessions = sessions,
       sd_accesses = filter (\<lambda>(_, access). now < ar_expires_at access \<and> map_of sessions (ar_session_token access) \<noteq> None) (sd_accesses data),
       sd_tickets = filter (\<lambda>(_, ticket). now < wt_expires_at ticket \<and> map_of sessions (wt_session_token ticket) \<noteq> None) (sd_tickets data)\<rparr>)"

definition user_sessions :: "string \<Rightarrow> session_data \<Rightarrow> (string \<times> session_record) list" where
  "user_sessions username data = filter (\<lambda>(_, r). sr_username r = username) (sd_sessions data)"

definition over_capacity :: "string \<Rightarrow> session_data \<Rightarrow> bool" where
  "over_capacity username data \<longleftrightarrow>
     SESSION_GLOBAL_CAPACITY \<le> length (sd_sessions data) \<or> SESSION_PER_USER_CAPACITY \<le> length (user_sessions username data)"

text \<open>The first of the oldest sessions that may be dropped.\<close>

definition eviction_candidate :: "string \<Rightarrow> session_data \<Rightarrow> string option" where
  "eviction_candidate username data =
     (case filter (\<lambda>(_, r). SESSION_GLOBAL_CAPACITY \<le> length (sd_sessions data) \<or> sr_username r = username) (sd_sessions data) of
        [] \<Rightarrow> None
      | s # ss \<Rightarrow> Some (fst (arg_min_list (\<lambda>(_, r). sr_created_at r) (s # ss))))"

lemma eviction_candidate_Some:
  assumes "eviction_candidate username data = Some token"
  obtains r where "(token, r) \<in> set (sd_sessions data)"
    "SESSION_GLOBAL_CAPACITY \<le> length (sd_sessions data) \<or> sr_username r = username"
proof -
  let ?c = "filter (\<lambda>(_, r). SESSION_GLOBAL_CAPACITY \<le> length (sd_sessions data) \<or> sr_username r = username) (sd_sessions data)"
  have "?c \<noteq> []" "token = fst (arg_min_list (\<lambda>(_, r). sr_created_at r) ?c)"
    using assms by (auto simp: eviction_candidate_def split: list.splits)
  moreover obtain t r where "arg_min_list (\<lambda>(_, r). sr_created_at r) ?c = (t, r)" by fastforce
  ultimately have "(token, r) \<in> set ?c" using arg_min_list_in [of ?c "\<lambda>(_, r). sr_created_at r"] by simp
  then show thesis by (intro that) auto
qed

function enforce_session_capacity :: "string \<Rightarrow> session_data \<Rightarrow> session_data" where
  "enforce_session_capacity username data =
     (if over_capacity username data then
        (case eviction_candidate username data of
           None \<Rightarrow> data
         | Some token \<Rightarrow> enforce_session_capacity username (remove_session token data))
      else data)"
  by pat_completeness auto
termination
proof (relation "measure (\<lambda>(_, data). length (sd_sessions data))")
  fix username data token
  assume "eviction_candidate username data = Some token"
  then obtain r where "(token, r) \<in> set (sd_sessions data)" by (rule eviction_candidate_Some)
  then show "((username, remove_session token data), username, data) \<in> measure (\<lambda>(_, data). length (sd_sessions data))"
    by (auto simp: remove_session_def AList.delete_eq intro!: length_filter_less)
qed simp

declare enforce_session_capacity.simps [simp del]

section \<open>Operations\<close>

definition with_data :: "session_data \<Rightarrow> session_store \<Rightarrow> session_store" where
  "with_data data store = store\<lparr>ss_data := data\<rparr>"

definition poison :: "session_store \<Rightarrow> session_store" where
  "poison store = store\<lparr>ss_poisoned := True\<rparr>"

definition touch :: "string \<Rightarrow> instant \<Rightarrow> session_data \<Rightarrow> session_data" where
  "touch token now data = data\<lparr>sd_sessions := AList.map_entry token (\<lambda>r. r\<lparr>sr_last_seen := now\<rparr>) (sd_sessions data)\<rparr>"

definition session_issue ::
  "time_format \<Rightarrow> string \<Rightarrow> instant \<Rightarrow> int \<Rightarrow> string option \<Rightarrow> string option \<Rightarrow> session_store \<Rightarrow>
     (session_error + issued_session) option \<times> session_store" where
  "session_issue fmt username now now_utc source access_source store =
     (case (instant_checked_add now SESSION_ABSOLUTE_TTL, system_time_add now_utc SESSION_ABSOLUTE_TTL) of
        (Some expires_at, Some expires_at_utc) \<Rightarrow>
          (case (random_token source, random_token access_source) of
             (Inl e, _) \<Rightarrow> (Some (Inl e), store)
           | (_, Inl e) \<Rightarrow> (Some (Inl e), store)
           | (Inr token, Inr access_token) \<Rightarrow>
               if ss_poisoned store then (Some (Inl SessionUnavailable), store)
               else
                 let data = ss_data store in
                 if token = access_token \<or> map_of (sd_sessions data) token \<noteq> None \<or> map_of (sd_accesses data) access_token \<noteq> None \<or>
                    map_of (sd_sessions data) access_token \<noteq> None \<or> map_of (sd_accesses data) token \<noteq> None
                 then (Some (Inl RandomSource), store)
                 else case (instant_checked_add now ACCESS_TOKEN_TTL, system_time_add now_utc ACCESS_TOKEN_TTL) of
                     (Some access_expires_at, Some access_expires_at_utc) \<Rightarrow>
                       let r = \<lparr>sr_username = username, sr_created_at = now, sr_last_seen = now, sr_expires_at = expires_at,
                             sr_expires_at_utc = expires_at_utc, sr_access_token = access_token,
                             sr_access_expires_at = access_expires_at, sr_access_expires_at_utc = access_expires_at_utc\<rparr> in
                       (case auth_session_of fmt r of
                          None \<Rightarrow> (None, poison store)
                        | Some (Inl e) \<Rightarrow> (Some (Inl e), store)
                        | Some (Inr view) \<Rightarrow>
                            let data = enforce_session_capacity username (purge_expired now data);
                                data = data\<lparr>sd_accesses := AList.update access_token
                                  \<lparr>ar_session_token = token, ar_expires_at = access_expires_at\<rparr> (sd_accesses data)\<rparr>;
                                data = data\<lparr>sd_sessions := AList.update token r (sd_sessions data)\<rparr>
                            in (Some (Inr \<lparr>is_token = token, is_view = view\<rparr>), with_data data store))
                   | _ \<Rightarrow> (None, poison store))
      | _ \<Rightarrow> (None, store))"

definition session_lookup ::
  "time_format \<Rightarrow> string \<Rightarrow> instant \<Rightarrow> session_store \<Rightarrow> (session_error + session_view option) option \<times> session_store" where
  "session_lookup fmt token now store =
     (if ss_poisoned store then (Some (Inl SessionUnavailable), store)
      else
        let data = purge_expired now (ss_data store) in
        case map_of (sd_accesses data) token of
          None \<Rightarrow> (Some (Inr None), with_data data store)
        | Some access \<Rightarrow>
            (case map_of (sd_sessions data) (ar_session_token access) of
               None \<Rightarrow> (Some (Inr None), with_data data store)
             | Some r \<Rightarrow>
                 let store = with_data (touch (ar_session_token access) now data) store in
                 case session_view_of fmt (sr_username r) (sr_expires_at_utc r) of
                   None \<Rightarrow> (None, poison store)
                 | Some view \<Rightarrow> (Some (and_then view (\<lambda>v. Inr (Some v))), store)))"

definition refresh_at ::
  "time_format \<Rightarrow> string \<Rightarrow> instant \<Rightarrow> int \<Rightarrow> string option \<Rightarrow> session_store \<Rightarrow>
     (session_error + auth_session option) option \<times> session_store" where
  "refresh_at fmt token now now_utc source store =
     (if ss_poisoned store then (Some (Inl SessionUnavailable), store)
      else
        let data = purge_expired now (ss_data store); store = with_data data store in
        case map_of (sd_sessions data) token of
          None \<Rightarrow> (Some (Inr None), store)
        | Some r \<Rightarrow>
            let renew = sr_access_expires_at r < sr_expires_at r \<and>
                  saturating_duration_since (sr_access_expires_at r) now \<le> ACCESS_RENEW_WINDOW in
            case (if renew then and_then (random_token source) (\<lambda>t. Inr (Some t)) else Inr None) of
              Inl e \<Rightarrow> (Some (Inl e), store)
            | Inr replacement \<Rightarrow>
                if (case replacement of
                      Some t \<Rightarrow> map_of (sd_accesses data) t \<noteq> None \<or> map_of (sd_sessions data) t \<noteq> None
                    | None \<Rightarrow> False)
                then (Some (Inl RandomSource), store)
                else
                  let ttl = min ACCESS_TOKEN_TTL (saturating_duration_since (sr_expires_at r) now);
                      renewed = (case replacement of
                          None \<Rightarrow> Some r
                        | Some t \<Rightarrow>
                            (case (instant_checked_add now ttl, system_time_add now_utc ttl) of
                               (Some at, Some at_utc) \<Rightarrow>
                                 Some (r\<lparr>sr_access_token := t, sr_access_expires_at := at, sr_access_expires_at_utc := at_utc\<rparr>)
                             | _ \<Rightarrow> None)) in
                  case renewed of
                    None \<Rightarrow> (None, poison store)
                  | Some r \<Rightarrow>
                      let kept = with_data (data\<lparr>sd_sessions := AList.update token r (sd_sessions data)\<rparr>) store in
                      case auth_session_of fmt r of
                        None \<Rightarrow> (None, poison kept)
                      | Some (Inl e) \<Rightarrow> (Some (Inl e), kept)
                      | Some (Inr view) \<Rightarrow>
                          (Some (Inr (Some view)),
                           with_data (data\<lparr>sd_sessions := AList.update token (r\<lparr>sr_last_seen := now\<rparr>) (sd_sessions data),
                             sd_accesses := AList.update (as_access_token view)
                               \<lparr>ar_session_token = token, ar_expires_at = sr_access_expires_at r\<rparr> (sd_accesses data)\<rparr>) store))"

definition notify_change :: "session_store \<Rightarrow> session_store" where
  "notify_change store = store\<lparr>ss_changes := saturating_add (ss_changes store) 1\<rparr>"

definition session_revoke :: "string \<Rightarrow> instant \<Rightarrow> session_store \<Rightarrow> session_store" where
  "session_revoke token now store =
     (if ss_poisoned store then store
      else
        let data = purge_expired now (ss_data store) in
        case map_of (sd_accesses data) token of
          Some access \<Rightarrow> notify_change (with_data (remove_session (ar_session_token access) data) store)
        | None \<Rightarrow> with_data data store)"

definition session_revoke_all :: "session_store \<Rightarrow> session_store" where
  "session_revoke_all store =
     (if ss_poisoned store then store
      else
        let changed = sd_sessions (ss_data store) \<noteq> [] \<or> sd_tickets (ss_data store) \<noteq> [];
            store = with_data \<lparr>sd_sessions = [], sd_accesses = [], sd_tickets = []\<rparr> store
        in if changed then notify_change store else store)"

definition tickets_of :: "string \<Rightarrow> session_data \<Rightarrow> (string \<times> websocket_ticket_record) list" where
  "tickets_of token data = filter (\<lambda>(_, ticket). wt_session_token ticket = token) (sd_tickets data)"

text \<open>The wall clock may not reach the expiry, the expiry may precede the epoch, and its milliseconds may not fit.\<close>

definition issue_websocket_ticket ::
  "string \<Rightarrow> instant \<Rightarrow> int \<Rightarrow> string option \<Rightarrow> session_store \<Rightarrow>
     (session_error + websocket_ticket option) option \<times> session_store" where
  "issue_websocket_ticket access_token now now_utc source store =
     (if ss_poisoned store then (Some (Inl SessionUnavailable), store)
      else
        let data = purge_expired now (ss_data store) in
        case map_of (sd_accesses data) access_token of
          None \<Rightarrow> (Some (Inr None), with_data data store)
        | Some access \<Rightarrow>
            let session_token = ar_session_token access in
            (case map_of (sd_sessions data) session_token of
               None \<Rightarrow> (Some (Inr None), with_data data store)
             | Some _ \<Rightarrow>
                 let data = touch session_token now data; store = with_data data store in
                 if WS_TICKET_GLOBAL_CAPACITY \<le> length (sd_tickets data) \<or>
                    WS_TICKET_PER_SESSION_CAPACITY \<le> length (tickets_of session_token data)
                 then (Some (Inl SessionCapacity), store)
                 else case random_token source of
                     Inl e \<Rightarrow> (Some (Inl e), store)
                   | Inr ticket \<Rightarrow>
                       if map_of (sd_sessions data) ticket \<noteq> None \<or> map_of (sd_accesses data) ticket \<noteq> None \<or>
                          map_of (sd_tickets data) ticket \<noteq> None
                       then (Some (Inl RandomSource), store)
                       else case Option.bind (system_time_add now_utc WS_TICKET_TTL) (\<lambda>at.
                            if at < 0 \<or> u64_max < nat at div 1000000 then None else Some (nat at div 1000000)) of
                           None \<Rightarrow> (Some (Inl TimeFormat), store)
                         | Some expires_at_ms \<Rightarrow>
                             (case instant_checked_add now WS_TICKET_TTL of
                                None \<Rightarrow> (None, poison store)
                              | Some expires_at \<Rightarrow>
                                  (Some (Inr (Some \<lparr>tk_ticket = ticket, tk_expires_at_ms = expires_at_ms\<rparr>)),
                                   with_data (data\<lparr>sd_tickets := AList.update ticket
                                     \<lparr>wt_session_token = session_token, wt_expires_at = expires_at\<rparr> (sd_tickets data)\<rparr>) store))))"

definition consume_websocket_ticket ::
  "string \<Rightarrow> instant \<Rightarrow> session_store \<Rightarrow> (session_error + string option) \<times> session_store" where
  "consume_websocket_ticket ticket now store =
     (if ss_poisoned store then (Inl SessionUnavailable, store)
      else
        let data = purge_expired now (ss_data store) in
        case map_of (sd_tickets data) ticket of
          None \<Rightarrow> (Inr None, with_data data store)
        | Some t \<Rightarrow>
            let data = data\<lparr>sd_tickets := AList.delete ticket (sd_tickets data)\<rparr> in
            (case map_of (sd_sessions data) (wt_session_token t) of
               None \<Rightarrow> (Inr None, with_data data store)
             | Some _ \<Rightarrow> (Inr (Some (wt_session_token t)), with_data (touch (wt_session_token t) now data) store)))"

definition validate_websocket_session :: "string \<Rightarrow> instant \<Rightarrow> session_store \<Rightarrow> (session_error + bool) \<times> session_store" where
  "validate_websocket_session session now store =
     (if ss_poisoned store then (Inl SessionUnavailable, store)
      else
        let data = purge_expired now (ss_data store) in
        case map_of (sd_sessions data) session of
          None \<Rightarrow> (Inr False, with_data data store)
        | Some _ \<Rightarrow> (Inr True, with_data (touch session now data) store))"

definition cookie_name :: "session_store \<Rightarrow> string" where
  "cookie_name store = (if ss_secure store then HTTPS_COOKIE_NAME else HTTP_COOKIE_NAME)"

definition clear_cookie :: "session_store \<Rightarrow> string" where
  "clear_cookie store =
     cookie_name store @ ''=; Path=/; HttpOnly; SameSite=Strict; Max-Age=0'' @ (if ss_secure store then ''; Secure'' else [])"

definition valid_token :: "string \<Rightarrow> bool" where
  "valid_token token \<longleftrightarrow> length token = 43 \<and>
     list_all (\<lambda>c. is_ascii_alphanumeric c \<or> c = CHR ''-'' \<or> c = CHR ''_'') token"

text \<open>The cookies of a header, names and values, as the cookie library parses them without those it refuses.\<close>

definition token_from_header :: "(string \<Rightarrow> (string \<times> string) list) \<Rightarrow> string \<Rightarrow> session_store \<Rightarrow> string option" where
  "token_from_header split_parse header store =
     (case filter (\<lambda>(name, _). name = cookie_name store) (split_parse header) of
        [(_, token)] \<Rightarrow> if valid_token token then Some token else None
      | _ \<Rightarrow> None)"

end
