(* ===== verification/Session_Laws.thy ===== *)
theory Session_Laws
  imports Session_Store
begin

text \<open>
  The laws of the session store: its bounds and the agreement of its three maps in every run, what a session
  that was issued can do and for how long, and that a revoked session is gone.
\<close>

section \<open>Association lists\<close>

lemma update_filter_le:
  "\<not> P (k, v) \<Longrightarrow> length (filter P (AList.update k v al)) \<le> length (filter P al) \<and>
     set (filter P (AList.update k v al)) \<subseteq> set (filter P al)"
  by (induction al) auto

lemma update_filter_same:
  "map_of al k = Some v \<Longrightarrow> P (k, v') = P (k, v) \<Longrightarrow> length (filter P (AList.update k v' al)) = length (filter P al)"
  by (induction al) (auto split: if_splits)

lemma map_entry_update: "map_of al k = Some v \<Longrightarrow> AList.map_entry k f al = AList.update k (f v) al"
  by (induction al) (auto split: if_splits)

lemma update_new: "map_of al k = None \<Longrightarrow> AList.update k v al = al @ [(k, v)]"
  by (induction al) (auto split: if_splits)

lemma set_update: "distinct (map fst al) \<Longrightarrow> set (AList.update k v al) = insert (k, v) {p \<in> set al. fst p \<noteq> k}"
  by (induction al) force+

lemma single_key:
  "distinct (map fst al) \<Longrightarrow> \<forall>p \<in> set al. fst p = k \<Longrightarrow> length al \<le> 1"
  by (cases al; cases "tl al") auto

lemma distinct_keys_filter: "distinct (map fst al) \<Longrightarrow> distinct (map fst (filter P al))"
  by (simp add: distinct_map_filter)

lemma map_of_filter:
  "distinct (map fst al) \<Longrightarrow> map_of (filter P al) k = (case map_of al k of Some v \<Rightarrow> if P (k, v) then Some v else None | None \<Rightarrow> None)"
  by (induction al) (auto simp: map_of_eq_None_iff split: option.splits intro: rev_image_eqI)

lemma filter_bound: "length xs \<le> n \<Longrightarrow> length (filter P xs) \<le> n"
  by (rule order_trans [OF length_filter_le])

section \<open>Well-formed data\<close>

definition old_accesses :: "string \<Rightarrow> session_record \<Rightarrow> (string \<times> access_record) list \<Rightarrow> (string \<times> access_record) list" where
  "old_accesses token r accesses = filter (\<lambda>(k, a). ar_session_token a = token \<and> k \<noteq> sr_access_token r) accesses"

text \<open>Beside its current access token a session has at most one, and as long as the current one can still be
  renewed, the older one ends a whole renewal period before it.\<close>

definition accesses_ok :: "string \<Rightarrow> session_record \<Rightarrow> (string \<times> access_record) list \<Rightarrow> bool" where
  "accesses_ok token r accesses \<longleftrightarrow>
     sr_access_expires_at r \<le> sr_expires_at r \<and>
     (\<forall>a. (sr_access_token r, a) \<in> set accesses \<longrightarrow> ar_session_token a = token \<longrightarrow> ar_expires_at a = sr_access_expires_at r) \<and>
     length (old_accesses token r accesses) \<le> 1 \<and>
     (sr_access_expires_at r < sr_expires_at r \<longrightarrow>
       (\<forall>(k, a) \<in> set (old_accesses token r accesses).
          ar_expires_at a + int ACCESS_TOKEN_TTL - int ACCESS_RENEW_WINDOW \<le> sr_access_expires_at r))"

definition data_ok :: "session_data \<Rightarrow> bool" where
  "data_ok data \<longleftrightarrow>
     distinct (map fst (sd_sessions data)) \<and> distinct (map fst (sd_accesses data)) \<and> distinct (map fst (sd_tickets data)) \<and>
     (\<forall>(k, a) \<in> set (sd_accesses data). ar_session_token a \<in> fst ` set (sd_sessions data)) \<and>
     (\<forall>(k, t) \<in> set (sd_tickets data). wt_session_token t \<in> fst ` set (sd_sessions data)) \<and>
     length (sd_sessions data) \<le> SESSION_GLOBAL_CAPACITY \<and>
     (\<forall>username. length (user_sessions username data) \<le> SESSION_PER_USER_CAPACITY) \<and>
     length (sd_tickets data) \<le> WS_TICKET_GLOBAL_CAPACITY \<and>
     (\<forall>token. length (tickets_of token data) \<le> WS_TICKET_PER_SESSION_CAPACITY) \<and>
     (\<forall>(token, r) \<in> set (sd_sessions data). accesses_ok token r (sd_accesses data))"

lemma data_okI:
  assumes "distinct (map fst (sd_sessions data))" "distinct (map fst (sd_accesses data))" "distinct (map fst (sd_tickets data))"
    and "\<And>k a. (k, a) \<in> set (sd_accesses data) \<Longrightarrow> ar_session_token a \<in> fst ` set (sd_sessions data)"
    and "\<And>k t. (k, t) \<in> set (sd_tickets data) \<Longrightarrow> wt_session_token t \<in> fst ` set (sd_sessions data)"
    and "length (sd_sessions data) \<le> SESSION_GLOBAL_CAPACITY"
    and "\<And>username. length (user_sessions username data) \<le> SESSION_PER_USER_CAPACITY"
    and "length (sd_tickets data) \<le> WS_TICKET_GLOBAL_CAPACITY"
    and "\<And>token. length (tickets_of token data) \<le> WS_TICKET_PER_SESSION_CAPACITY"
    and "\<And>token r. (token, r) \<in> set (sd_sessions data) \<Longrightarrow> accesses_ok token r (sd_accesses data)"
  shows "data_ok data"
  using assms unfolding data_ok_def by blast

lemma data_okD:
  assumes "data_ok data"
  shows "distinct (map fst (sd_sessions data))" "distinct (map fst (sd_accesses data))" "distinct (map fst (sd_tickets data))"
    and "\<And>k a. (k, a) \<in> set (sd_accesses data) \<Longrightarrow> ar_session_token a \<in> fst ` set (sd_sessions data)"
    and "\<And>k t. (k, t) \<in> set (sd_tickets data) \<Longrightarrow> wt_session_token t \<in> fst ` set (sd_sessions data)"
    and "length (sd_sessions data) \<le> SESSION_GLOBAL_CAPACITY"
    and "\<And>username. length (user_sessions username data) \<le> SESSION_PER_USER_CAPACITY"
    and "length (sd_tickets data) \<le> WS_TICKET_GLOBAL_CAPACITY"
    and "\<And>token. length (tickets_of token data) \<le> WS_TICKET_PER_SESSION_CAPACITY"
    and "\<And>token r. (token, r) \<in> set (sd_sessions data) \<Longrightarrow> accesses_ok token r (sd_accesses data)"
  using assms unfolding data_ok_def by blast+

lemma accesses_ok_filter:
  assumes "accesses_ok token r accesses"
  shows "accesses_ok token r (filter P accesses)"
proof -
  have "old_accesses token r (filter P accesses) = filter P (old_accesses token r accesses)"
    by (simp add: old_accesses_def conj_commute)
  then show ?thesis using assms by (auto simp: accesses_ok_def intro: filter_bound)
qed

text \<open>Dropping entries, and with a session all that belongs to it, keeps the data well formed.\<close>

lemma data_ok_shrink:
  assumes "data_ok data"
    and "\<And>k a. (k, a) \<in> set (sd_accesses data) \<Longrightarrow> Q (k, a) \<Longrightarrow> ar_session_token a \<in> fst ` set (filter P (sd_sessions data))"
    and "\<And>k t. (k, t) \<in> set (sd_tickets data) \<Longrightarrow> R (k, t) \<Longrightarrow> wt_session_token t \<in> fst ` set (filter P (sd_sessions data))"
  shows "data_ok \<lparr>sd_sessions = filter P (sd_sessions data), sd_accesses = filter Q (sd_accesses data), sd_tickets = filter R (sd_tickets data)\<rparr>"
    (is "data_ok ?data")
proof (rule data_okI)
  note ok = data_okD [OF assms(1)]
  have "user_sessions username ?data = filter P (user_sessions username data)" for username
    by (simp add: user_sessions_def conj_commute)
  then show "length (user_sessions username ?data) \<le> SESSION_PER_USER_CAPACITY" for username using filter_bound [OF ok(7)] by simp
  have "tickets_of token ?data = filter R (tickets_of token data)" for token by (simp add: tickets_of_def conj_commute)
  then show "length (tickets_of token ?data) \<le> WS_TICKET_PER_SESSION_CAPACITY" for token using filter_bound [OF ok(9)] by simp
  show "accesses_ok token r (sd_accesses ?data)" if "(token, r) \<in> set (sd_sessions ?data)" for token r
    using that accesses_ok_filter [OF ok(10)] by simp
  show "ar_session_token a \<in> fst ` set (sd_sessions ?data)" if "(k, a) \<in> set (sd_accesses ?data)" for k a
    using assms(2) [of k a] that by simp
  show "wt_session_token t \<in> fst ` set (sd_sessions ?data)" if "(k, t) \<in> set (sd_tickets ?data)" for k t
    using assms(3) [of k t] that by simp
qed (use data_okD [OF assms(1)] in \<open>simp_all add: distinct_keys_filter filter_bound\<close>)

lemma purge_expired_ok:
  assumes "data_ok data"
  shows "data_ok (purge_expired now data)"
proof -
  have kept: "t \<in> fst ` set kvs" if "map_of kvs t \<noteq> None" for t and kvs :: "(string \<times> session_record) list"
    using that by (metis map_of_eq_None_iff)
  show ?thesis unfolding purge_expired_def Let_def by (rule data_ok_shrink [OF assms]; rule kept) simp_all
qed

lemma remove_session_ok:
  assumes "data_ok data"
  shows "data_ok (remove_session token data)"
proof -
  have other: "t \<in> fst ` set (filter (\<lambda>(k, _). token \<noteq> k) kvs)" if "t \<in> fst ` set kvs" "t \<noteq> token"
    for t and kvs :: "(string \<times> session_record) list" using that by force
  show ?thesis
    unfolding remove_session_def AList.delete_eq
    by (rule data_ok_shrink [OF assms]; rule other) (use data_okD(4,5) [OF assms] in auto)
qed

lemma consumed_ticket_ok:
  assumes "data_ok data"
  shows "data_ok (data\<lparr>sd_tickets := AList.delete ticket (sd_tickets data)\<rparr>)"
proof -
  have "data_ok \<lparr>sd_sessions = filter (\<lambda>_. True) (sd_sessions data), sd_accesses = filter (\<lambda>_. True) (sd_accesses data),
      sd_tickets = filter (\<lambda>(k, _). ticket \<noteq> k) (sd_tickets data)\<rparr>"
    by (rule data_ok_shrink [OF assms]) (use data_okD(4,5) [OF assms] in simp_all)
  then show ?thesis by (cases data) (simp add: AList.delete_eq)
qed

lemma enforce_session_capacity_ok: "data_ok data \<Longrightarrow> data_ok (enforce_session_capacity username data)"
proof (induction username data rule: enforce_session_capacity.induct)
  case (1 username data)
  then show ?case by (subst enforce_session_capacity.simps) (simp add: remove_session_ok split: option.split)
qed

lemma eviction_candidate_exists:
  assumes "over_capacity username data"
  shows "\<exists>token. eviction_candidate username data = Some token"
proof -
  have "filter (\<lambda>(_, r). SESSION_GLOBAL_CAPACITY \<le> length (sd_sessions data) \<or> sr_username r = username) (sd_sessions data) \<noteq> []"
  proof (cases "SESSION_GLOBAL_CAPACITY \<le> length (sd_sessions data)")
    case True
    then show ?thesis by (auto simp: SESSION_GLOBAL_CAPACITY_def)
  next
    case False
    then have "user_sessions username data \<noteq> []" using assms by (auto simp: over_capacity_def SESSION_PER_USER_CAPACITY_def)
    then show ?thesis using False by (simp add: user_sessions_def)
  qed
  then show ?thesis by (auto simp: eviction_candidate_def split: list.split)
qed

text \<open>The loop ends below both bounds.\<close>

lemma enforce_session_capacity_below: "\<not> over_capacity username (enforce_session_capacity username data)"
proof (induction username data rule: enforce_session_capacity.induct)
  case (1 username data)
  show ?case
  proof (cases "over_capacity username data")
    case True
    then obtain token where "eviction_candidate username data = Some token" using eviction_candidate_exists by blast
    with True 1 show ?thesis by (subst enforce_session_capacity.simps) simp
  qed (subst enforce_session_capacity.simps, simp)
qed

lemma enforce_session_capacity_shrinks:
  "set (sd_sessions (enforce_session_capacity username data)) \<subseteq> set (sd_sessions data) \<and>
   set (sd_accesses (enforce_session_capacity username data)) \<subseteq> set (sd_accesses data)"
proof (induction username data rule: enforce_session_capacity.induct)
  case (1 username data)
  have "set (sd_sessions (remove_session token data)) \<subseteq> set (sd_sessions data)"
    "set (sd_accesses (remove_session token data)) \<subseteq> set (sd_accesses data)" for token
    by (auto simp: remove_session_def AList.delete_eq)
  with 1 show ?case by (subst (1 2) enforce_session_capacity.simps) (simp split: option.split, blast)
qed

section \<open>Operations keep the data well formed\<close>

lemma accesses_ok_update_other:
  assumes "accesses_ok t r accesses" "distinct (map fst accesses)" "ar_session_token a \<noteq> t"
  shows "accesses_ok t r (AList.update k a accesses)"
proof -
  let ?old = "\<lambda>(k, a). ar_session_token a = t \<and> k \<noteq> sr_access_token r"
  have "length (old_accesses t r (AList.update k a accesses)) \<le> length (old_accesses t r accesses)"
    "set (old_accesses t r (AList.update k a accesses)) \<subseteq> set (old_accesses t r accesses)"
    using update_filter_le [of ?old k a accesses] assms(3) by (simp_all add: old_accesses_def)
  then show ?thesis using assms by (auto simp: accesses_ok_def set_update)
qed

lemma accesses_ok_update_mine:
  assumes "accesses_ok token r accesses" "distinct (map fst accesses)"
  shows "accesses_ok token r (AList.update (sr_access_token r) \<lparr>ar_session_token = token, ar_expires_at = sr_access_expires_at r\<rparr> accesses)"
    (is "accesses_ok token r ?accesses")
proof -
  let ?old = "\<lambda>(k, a). ar_session_token a = token \<and> k \<noteq> sr_access_token r"
  have "length (old_accesses token r ?accesses) \<le> length (old_accesses token r accesses)"
    "set (old_accesses token r ?accesses) \<subseteq> set (old_accesses token r accesses)"
    using update_filter_le [of ?old "sr_access_token r" _ accesses] by (simp_all add: old_accesses_def)
  then show ?thesis using assms by (auto simp: accesses_ok_def set_update)
qed

lemma data_ok_replace:
  assumes "data_ok data" "map_of (sd_sessions data) token = Some r" "sr_username r' = sr_username r"
    and "distinct (map fst accesses)"
    and "\<And>k a. (k, a) \<in> set accesses \<Longrightarrow> ar_session_token a \<in> fst ` set (sd_sessions data)"
    and "accesses_ok token r' accesses"
    and "\<And>t r. (t, r) \<in> set (sd_sessions data) \<Longrightarrow> t \<noteq> token \<Longrightarrow> accesses_ok t r accesses"
  shows "data_ok (data\<lparr>sd_sessions := AList.update token r' (sd_sessions data), sd_accesses := accesses\<rparr>)" (is "data_ok ?data")
proof (rule data_okI)
  note ok = data_okD [OF assms(1)]
  have keys: "fst ` set (AList.update token r' (sd_sessions data)) = fst ` set (sd_sessions data)"
    using map_of_SomeD [OF assms(2)] by (force simp: set_update [OF ok(1)])
  show "ar_session_token a \<in> fst ` set (sd_sessions ?data)" if "(k, a) \<in> set (sd_accesses ?data)" for k a
    using assms(5) [of k a] that by (simp add: keys)
  show "wt_session_token t \<in> fst ` set (sd_sessions ?data)" if "(k, t) \<in> set (sd_tickets ?data)" for k t
    using ok(5) [of k t] that by (simp add: keys)
  have "length (filter P (AList.update token r' (sd_sessions data))) = length (filter P (sd_sessions data))"
    if "P (token, r') = P (token, r)" for P by (rule update_filter_same [OF assms(2) that])
  from this [of "\<lambda>_. True"] this [of "\<lambda>(_, r). sr_username r = u" for u] assms(3) ok(6,7)
  show "length (sd_sessions ?data) \<le> SESSION_GLOBAL_CAPACITY" "length (user_sessions u ?data) \<le> SESSION_PER_USER_CAPACITY" for u
    by (simp_all add: user_sessions_def)
  show "accesses_ok t s (sd_accesses ?data)" if "(t, s) \<in> set (sd_sessions ?data)" for t s
    using that assms(6,7) by (auto simp: set_update [OF ok(1)])
  show "length (tickets_of t ?data) \<le> WS_TICKET_PER_SESSION_CAPACITY" for t using ok(9) [of t] by (simp add: tickets_of_def)
qed (use data_okD [OF assms(1)] assms(4) in \<open>simp_all add: distinct_update\<close>)

lemma accesses_ok_seen [simp]: "accesses_ok token (r\<lparr>sr_last_seen := now\<rparr>) accesses = accesses_ok token r accesses"
  by (simp add: accesses_ok_def old_accesses_def)

lemma touch_ok:
  assumes "data_ok data" "map_of (sd_sessions data) token = Some r"
  shows "data_ok (touch token now data)"
proof -
  note ok = data_okD [OF assms(1)]
  have "accesses_ok token (r\<lparr>sr_last_seen := now\<rparr>) (sd_accesses data)" using ok(10) [OF map_of_SomeD [OF assms(2)]] by simp
  from data_ok_replace [OF assms _ ok(2) ok(4) this ok(10)]
  have "data_ok (data\<lparr>sd_sessions := AList.update token (r\<lparr>sr_last_seen := now\<rparr>) (sd_sessions data), sd_accesses := sd_accesses data\<rparr>)"
    by simp
  then show ?thesis unfolding touch_def map_entry_update [OF assms(2)] by simp
qed

text \<open>A renewal: at the time of a renewal all older access tokens of the session have expired.\<close>

lemma renewal_ok:
  assumes "data_ok data" "map_of (sd_sessions data) token = Some r" "\<And>k a. (k, a) \<in> set (sd_accesses data) \<Longrightarrow> now < ar_expires_at a"
    and "now < sr_expires_at r" "sr_access_expires_at r < sr_expires_at r"
    and "saturating_duration_since (sr_access_expires_at r) now \<le> ACCESS_RENEW_WINDOW"
    and "map_of (sd_accesses data) t = None"
    and "at = now + int (min ACCESS_TOKEN_TTL (saturating_duration_since (sr_expires_at r) now))"
  shows "accesses_ok token (r\<lparr>sr_access_token := t, sr_access_expires_at := at, sr_access_expires_at_utc := utc\<rparr>) (sd_accesses data)"
    (is "accesses_ok token ?r _")
proof -
  note ok = data_okD [OF assms(1)]
  have mine: "accesses_ok token r (sd_accesses data)" by (rule ok(10) [OF map_of_SomeD [OF assms(2)]])
  have soon: "sr_access_expires_at r \<le> now + int ACCESS_RENEW_WINDOW" using assms(6) by (simp add: saturating_duration_since_def)
  have current: "k = sr_access_token r" "ar_expires_at a = sr_access_expires_at r"
    if "(k, a) \<in> set (sd_accesses data)" "ar_session_token a = token" for k a
  proof -
    show "k = sr_access_token r"
    proof (rule ccontr)
      assume "k \<noteq> sr_access_token r"
      then have "(k, a) \<in> set (old_accesses token r (sd_accesses data))" using that by (simp add: old_accesses_def)
      then have "ar_expires_at a + int ACCESS_TOKEN_TTL - int ACCESS_RENEW_WINDOW \<le> sr_access_expires_at r"
        using mine assms(5) by (auto simp: accesses_ok_def)
      with soon assms(3) [OF that(1)] show False by (simp add: ACCESS_TOKEN_TTL_def ACCESS_RENEW_WINDOW_def seconds_def)
    qed
    with that mine show "ar_expires_at a = sr_access_expires_at r" by (auto simp: accesses_ok_def)
  qed
  have unused: "t \<noteq> k" if "(k, a) \<in> set (sd_accesses data)" for k a using assms(7) that by (force simp: map_of_eq_None_iff)
  have "\<forall>p \<in> set (old_accesses token ?r (sd_accesses data)). fst p = sr_access_token r" using current(1) by (auto simp: old_accesses_def)
  moreover have "distinct (map fst (old_accesses token ?r (sd_accesses data)))" using ok(2) by (simp add: old_accesses_def distinct_keys_filter)
  ultimately have "length (old_accesses token ?r (sd_accesses data)) \<le> 1" by (rule single_key [rotated])
  moreover have "at \<le> sr_expires_at r" using assms(4,8) by (simp add: saturating_duration_since_def)
  moreover have "ar_expires_at a + int ACCESS_TOKEN_TTL - int ACCESS_RENEW_WINDOW \<le> at"
    if "at < sr_expires_at r" "(k, a) \<in> set (old_accesses token ?r (sd_accesses data))" for k a
  proof -
    have "at = now + int ACCESS_TOKEN_TTL" using that(1) assms(4,8) by (auto simp: saturating_duration_since_def min_def split: if_splits)
    moreover have "ar_expires_at a = sr_access_expires_at r" using that(2) current(2) by (auto simp: old_accesses_def)
    ultimately show ?thesis using soon by simp
  qed
  ultimately show ?thesis using unused by (auto simp: accesses_ok_def)
qed

lemma purge_expired_live:
  "map_of (sd_sessions (purge_expired now data)) token = Some r \<Longrightarrow> session_live now r"
  "(k, a) \<in> set (sd_accesses (purge_expired now data)) \<Longrightarrow> now < ar_expires_at a"
  by (auto simp: purge_expired_def Let_def dest: map_of_SomeD)

lemma data_with_data [simp]:
  "ss_data (with_data data store) = data" "ss_data (poison store) = ss_data store" "ss_data (notify_change store) = ss_data store"
  "ss_poisoned (with_data data store) = ss_poisoned store" "ss_poisoned (notify_change store) = ss_poisoned store"
  "with_data data (with_data data' store) = with_data data store"
  by (simp_all add: with_data_def poison_def notify_change_def)

lemma refresh_at_ok:
  assumes "data_ok (ss_data store)"
  shows "data_ok (ss_data (snd (refresh_at fmt token now now_utc source store)))"
proof (cases "ss_poisoned store \<or> map_of (sd_sessions (purge_expired now (ss_data store))) token = None")
  case True
  then show ?thesis using assms by (auto simp: refresh_at_def Let_def purge_expired_ok)
next
  case False
  let ?data = "purge_expired now (ss_data store)"
  obtain r where r: "map_of (sd_sessions ?data) token = Some r" using False by auto
  have data: "data_ok ?data" by (rule purge_expired_ok [OF assms])
  note ok = data_okD [OF data]
  have live: "now < sr_expires_at r" using purge_expired_live(1) [OF r] by (simp add: session_live_def)
  have mine: "accesses_ok token r (sd_accesses ?data)" by (rule ok(10) [OF map_of_SomeD [OF r]])
  have kept: "data_ok (?data\<lparr>sd_sessions := AList.update token r' (sd_sessions ?data)\<rparr>)"
    if "sr_username r' = sr_username r" "accesses_ok token r' (sd_accesses ?data)" for r'
    using data_ok_replace [OF data r that(1) ok(2,4) that(2) ok(10)] by simp
  have stored: "data_ok (?data\<lparr>sd_sessions := AList.update token (r'\<lparr>sr_last_seen := now\<rparr>) (sd_sessions ?data),
      sd_accesses := AList.update (sr_access_token r') \<lparr>ar_session_token = token, ar_expires_at = sr_access_expires_at r'\<rparr> (sd_accesses ?data)\<rparr>)"
    if "sr_username r' = sr_username r" "accesses_ok token r' (sd_accesses ?data)" for r'
  proof (rule data_ok_replace [OF data r])
    show "ar_session_token a \<in> fst ` set (sd_sessions ?data)"
      if "(k, a) \<in> set (AList.update (sr_access_token r') \<lparr>ar_session_token = token, ar_expires_at = sr_access_expires_at r'\<rparr> (sd_accesses ?data))"
      for k a using that ok(4) map_of_SomeD [OF r] by (force simp: set_update [OF ok(2)])
  qed (use that ok in \<open>simp_all add: distinct_update accesses_ok_update_mine accesses_ok_update_other\<close>)
  have renewed: "accesses_ok token (r\<lparr>sr_access_token := t, sr_access_expires_at := at, sr_access_expires_at_utc := utc\<rparr>) (sd_accesses ?data)"
    if "sr_access_expires_at r < sr_expires_at r" "saturating_duration_since (sr_access_expires_at r) now \<le> ACCESS_RENEW_WINDOW"
      "map_of (sd_accesses ?data) t = None"
      "instant_checked_add now (min ACCESS_TOKEN_TTL (saturating_duration_since (sr_expires_at r) now)) = Some at" for t at utc
    using that by (intro renewal_ok [OF data r purge_expired_live(2) live]) (auto simp: instant_checked_add_def split: if_splits)
  have stored_renewed: "data_ok (?data\<lparr>sd_sessions := AList.update token
        (r\<lparr>sr_access_token := t, sr_access_expires_at := at, sr_access_expires_at_utc := utc, sr_last_seen := now\<rparr>) (sd_sessions ?data),
      sd_accesses := AList.update t \<lparr>ar_session_token = token, ar_expires_at = at\<rparr> (sd_accesses ?data)\<rparr>)"
    if "sr_access_expires_at r < sr_expires_at r" "saturating_duration_since (sr_access_expires_at r) now \<le> ACCESS_RENEW_WINDOW"
      "map_of (sd_accesses ?data) t = None"
      "instant_checked_add now (min ACCESS_TOKEN_TTL (saturating_duration_since (sr_expires_at r) now)) = Some at" for t at utc
    using stored [OF _ renewed [OF that]] by simp
  have view: "as_access_token view = sr_access_token r'" if "auth_session_of fmt r' = Some (Inr view)" for view r'
    using that by (auto simp: auth_session_of_def Let_def split: if_splits)
  from False data kept stored stored_renewed renewed mine show ?thesis
    by (auto simp: refresh_at_def Let_def r random_token_def dest!: view split: if_splits sum.split option.split prod.split)
qed

lemma session_added_ok:
  assumes "data_ok data" "\<not> over_capacity (sr_username r) data"
    and "map_of (sd_sessions data) token = None" "map_of (sd_accesses data) (sr_access_token r) = None"
    and "sr_access_expires_at r \<le> sr_expires_at r"
  shows "data_ok (data\<lparr>
    sd_accesses := AList.update (sr_access_token r) \<lparr>ar_session_token = token, ar_expires_at = sr_access_expires_at r\<rparr> (sd_accesses data),
    sd_sessions := AList.update token r (sd_sessions data)\<rparr>)" (is "data_ok ?data")
proof (rule data_okI)
  note ok = data_okD [OF assms(1)]
  let ?a = "\<lparr>ar_session_token = token, ar_expires_at = sr_access_expires_at r\<rparr>"
  have sessions: "sd_sessions ?data = sd_sessions data @ [(token, r)]" and accesses: "sd_accesses ?data = AList.update (sr_access_token r) ?a (sd_accesses data)"
    and tickets: "sd_tickets ?data = sd_tickets data" using assms(3) by (simp_all add: update_new)
  have fresh: "token \<notin> fst ` set (sd_sessions data)" using assms(3) by (simp add: map_of_eq_None_iff)
  show "distinct (map fst (sd_sessions ?data))" "distinct (map fst (sd_accesses ?data))" "distinct (map fst (sd_tickets ?data))"
    using ok(1-3) fresh unfolding sessions accesses tickets by (simp_all add: distinct_update)
  show "ar_session_token a \<in> fst ` set (sd_sessions ?data)" if "(k, a) \<in> set (sd_accesses ?data)" for k a
    using that ok(4) unfolding sessions accesses by (auto simp: set_update [OF ok(2)])
  show "wt_session_token t \<in> fst ` set (sd_sessions ?data)" if "(k, t) \<in> set (sd_tickets ?data)" for k t
    using that ok(5) unfolding sessions tickets by auto
  show "length (sd_sessions ?data) \<le> SESSION_GLOBAL_CAPACITY" "length (user_sessions u ?data) \<le> SESSION_PER_USER_CAPACITY" for u
    using assms(2) ok(7) [of u] unfolding user_sessions_def sessions by (auto simp: over_capacity_def user_sessions_def)
  show "length (sd_tickets ?data) \<le> WS_TICKET_GLOBAL_CAPACITY" "length (tickets_of t ?data) \<le> WS_TICKET_PER_SESSION_CAPACITY" for t
    using ok(8) ok(9) [of t] unfolding tickets_of_def tickets .
  have none: "old_accesses token r (sd_accesses data) = []" "\<forall>a. (sr_access_token r, a) \<notin> set (sd_accesses data)"
    using ok(4) fresh assms(4) by (force simp: old_accesses_def filter_empty_conv map_of_eq_None_iff)+
  show "accesses_ok t s (sd_accesses ?data)" if "(t, s) \<in> set (sd_sessions ?data)" for t s
  proof (cases "t = token")
    case True
    then have "s = r" using that fresh unfolding sessions by force
    moreover have "accesses_ok token r (sd_accesses data)" using none assms(5) by (simp add: accesses_ok_def)
    ultimately show ?thesis using True accesses_ok_update_mine [OF _ ok(2)] unfolding accesses by blast
  next
    case False
    then have "accesses_ok t s (sd_accesses data)" using that ok(10) unfolding sessions by auto
    then show ?thesis unfolding accesses using False by (intro accesses_ok_update_other [OF _ ok(2)]) simp_all
  qed
qed

lemma session_issue_ok:
  assumes "data_ok (ss_data store)"
  shows "data_ok (ss_data (snd (session_issue fmt username now now_utc source access_source store)))"
proof -
  let ?data = "enforce_session_capacity username (purge_expired now (ss_data store))"
  have data: "data_ok ?data" by (intro enforce_session_capacity_ok purge_expired_ok assms)
  have subset: "set (sd_sessions ?data) \<subseteq> set (sd_sessions (ss_data store))" "set (sd_accesses ?data) \<subseteq> set (sd_accesses (ss_data store))"
    using enforce_session_capacity_shrinks [of username "purge_expired now (ss_data store)"] by (auto simp: purge_expired_def Let_def)
  have fresh: "map_of (sd_sessions ?data) token = None" if "map_of (sd_sessions (ss_data store)) token = None" for token
    using that subset(1) unfolding map_of_eq_None_iff by auto
  have unused: "map_of (sd_accesses ?data) token = None" if "map_of (sd_accesses (ss_data store)) token = None" for token
    using that subset(2) unfolding map_of_eq_None_iff by auto
  have "data_ok (?data\<lparr>
      sd_accesses := AList.update t \<lparr>ar_session_token = token, ar_expires_at = a\<rparr> (sd_accesses ?data),
      sd_sessions := AList.update token \<lparr>sr_username = username, sr_created_at = now, sr_last_seen = now, sr_expires_at = e,
        sr_expires_at_utc = e_utc, sr_access_token = t, sr_access_expires_at = a, sr_access_expires_at_utc = a_utc\<rparr> (sd_sessions ?data)\<rparr>)"
    if "map_of (sd_sessions (ss_data store)) token = None" "map_of (sd_accesses (ss_data store)) t = None"
      "instant_checked_add now ACCESS_TOKEN_TTL = Some a" "instant_checked_add now SESSION_ABSOLUTE_TTL = Some e" for token t a e e_utc a_utc
    using session_added_ok [OF data, of "\<lparr>sr_username = username, sr_created_at = now, sr_last_seen = now, sr_expires_at = e,
        sr_expires_at_utc = e_utc, sr_access_token = t, sr_access_expires_at = a, sr_access_expires_at_utc = a_utc\<rparr>" token]
      fresh [OF that(1)] unused [OF that(2)] that(3,4) enforce_session_capacity_below
    by (auto simp: instant_checked_add_def ACCESS_TOKEN_TTL_def SESSION_ABSOLUTE_TTL_def seconds_def split: if_splits)
  with assms show ?thesis
    by (auto simp: session_issue_def Let_def split: option.split sum.split prod.split)
qed

lemma issue_websocket_ticket_ok:
  assumes "data_ok (ss_data store)"
  shows "data_ok (ss_data (snd (issue_websocket_ticket access_token now now_utc source store)))"
proof -
  let ?data = "purge_expired now (ss_data store)"
  have data: "data_ok ?data" by (rule purge_expired_ok [OF assms])
  have seen: "data_ok (touch token now ?data)" if "map_of (sd_sessions ?data) token = Some r" for token r by (rule touch_ok [OF data that])
  have "data_ok (d\<lparr>sd_tickets := AList.update ticket \<lparr>wt_session_token = token, wt_expires_at = e\<rparr> (sd_tickets d)\<rparr>)" (is "data_ok ?d")
    if d: "data_ok d" and session: "token \<in> fst ` set (sd_sessions d)" and new: "map_of (sd_tickets d) ticket = None"
      and room: "length (sd_tickets d) < WS_TICKET_GLOBAL_CAPACITY" "length (tickets_of token d) < WS_TICKET_PER_SESSION_CAPACITY"
    for d token ticket e
  proof (rule data_okI)
    note ok = data_okD [OF d]
    have tickets: "sd_tickets ?d = sd_tickets d @ [(ticket, \<lparr>wt_session_token = token, wt_expires_at = e\<rparr>)]" using new by (simp add: update_new)
    show "distinct (map fst (sd_tickets ?d))" using ok(3) by (simp add: distinct_update)
    show "wt_session_token t \<in> fst ` set (sd_sessions ?d)" if "(k, t) \<in> set (sd_tickets ?d)" for k t
      using that ok(5) [of k t] session unfolding tickets by (cases "(k, t) \<in> set (sd_tickets d)") simp_all
    show "length (sd_tickets ?d) \<le> WS_TICKET_GLOBAL_CAPACITY" "length (tickets_of t ?d) \<le> WS_TICKET_PER_SESSION_CAPACITY" for t
      using room ok(9) [of t] unfolding tickets_of_def tickets by (auto simp: tickets_of_def)
    show "length (user_sessions u ?d) \<le> SESSION_PER_USER_CAPACITY" for u using ok(7) [of u] by (simp add: user_sessions_def)
  qed (use data_okD [OF d] in simp_all)
  moreover have "token \<in> fst ` set (sd_sessions (touch token now ?data))" if "map_of (sd_sessions ?data) token = Some r" for token r
    using that map_of_SomeD [OF that] data_okD(1) [OF data] by (simp add: touch_def map_entry_update [OF that] set_update)
  ultimately show ?thesis
    using assms data seen by (auto simp: issue_websocket_ticket_def Let_def not_le split: option.split sum.split)
qed

section \<open>Runs\<close>

text \<open>A step of the store with any arguments, as long as the random source gives none of the strings in \<open>used\<close>.\<close>

inductive session_step :: "time_format \<Rightarrow> string set \<Rightarrow> session_store \<Rightarrow> session_store \<Rightarrow> bool" for fmt used where
  issue: "set_option source \<inter> used = {} \<Longrightarrow> set_option access_source \<inter> used = {} \<Longrightarrow>
    session_step fmt used st (snd (session_issue fmt username now now_utc source access_source st))"
| lookup: "session_step fmt used st (snd (session_lookup fmt token now st))"
| refresh: "set_option source \<inter> used = {} \<Longrightarrow> session_step fmt used st (snd (refresh_at fmt token now now_utc source st))"
| revoke: "session_step fmt used st (session_revoke token now st)"
| revoke_all: "session_step fmt used st (session_revoke_all st)"
| ticket: "set_option source \<inter> used = {} \<Longrightarrow> session_step fmt used st (snd (issue_websocket_ticket token now now_utc source st))"
| consume: "session_step fmt used st (snd (consume_websocket_ticket ticket now st))"
| validate: "session_step fmt used st (snd (validate_websocket_session session now st))"

lemma data_ok_empty: "data_ok \<lparr>sd_sessions = [], sd_accesses = [], sd_tickets = []\<rparr>"
  by (rule data_okI) (simp_all add: user_sessions_def tickets_of_def)

lemma session_step_ok: "session_step fmt used st st' \<Longrightarrow> data_ok (ss_data st) \<Longrightarrow> data_ok (ss_data st')"
proof (induction rule: session_step.induct)
  case (lookup st token now)
  have "data_ok (purge_expired now (ss_data st))" by (rule purge_expired_ok [OF lookup])
  with lookup touch_ok [OF this] show ?case by (auto simp: session_lookup_def Let_def split: option.split)
next
  case (consume st ticket now)
  have data: "data_ok (purge_expired now (ss_data st))" by (rule purge_expired_ok [OF consume])
  from consume data touch_ok [OF consumed_ticket_ok [OF data]] show ?case
    by (auto simp: consume_websocket_ticket_def Let_def consumed_ticket_ok split: option.split)
next
  case (validate st session now)
  have "data_ok (purge_expired now (ss_data st))" by (rule purge_expired_ok [OF validate])
  with validate touch_ok [OF this] show ?case by (auto simp: validate_websocket_session_def Let_def split: option.split)
qed (auto simp: session_issue_ok refresh_at_ok issue_websocket_ticket_ok session_revoke_def session_revoke_all_def Let_def
    purge_expired_ok remove_session_ok data_ok_empty split: option.split)

lemma session_run_ok: "(session_step fmt used)\<^sup>*\<^sup>* st st' \<Longrightarrow> data_ok (ss_data st) \<Longrightarrow> data_ok (ss_data st')"
  by (induction rule: rtranclp_induct) (auto dest: session_step_ok)

lemma session_reachable_ok: "(session_step fmt used)\<^sup>*\<^sup>* (session_store_new secure) st \<Longrightarrow> data_ok (ss_data st)"
  by (drule session_run_ok) (simp_all add: session_store_new_def data_ok_empty)

definition accesses_of :: "string \<Rightarrow> session_data \<Rightarrow> (string \<times> access_record) list" where
  "accesses_of token data = filter (\<lambda>(_, a). ar_session_token a = token) (sd_accesses data)"

lemma at_most_two_accesses:
  assumes "data_ok data"
  shows "length (accesses_of token data) \<le> 2"
proof (cases "map_of (sd_sessions data) token")
  case None
  then have "accesses_of token data = []"
    using data_okD(4) [OF assms] by (force simp: accesses_of_def filter_empty_conv map_of_eq_None_iff)
  then show ?thesis by simp
next
  case (Some r)
  note ok = data_okD [OF assms]
  let ?mine = "filter (\<lambda>(k, _). k = sr_access_token r) (accesses_of token data)"
  have "length ?mine \<le> 1"
    by (rule single_key [of _ "sr_access_token r"]) (use ok(2) in \<open>auto simp: accesses_of_def distinct_keys_filter\<close>)
  moreover have "filter (\<lambda>p. \<not> (case p of (k, _) \<Rightarrow> k = sr_access_token r)) (accesses_of token data) = old_accesses token r (sd_accesses data)"
    by (simp add: accesses_of_def old_accesses_def case_prod_unfold conj_commute)
  moreover have "length (old_accesses token r (sd_accesses data)) \<le> 1" using ok(10) [OF map_of_SomeD [OF Some]] by (simp add: accesses_ok_def)
  ultimately show ?thesis
    using sum_length_filter_compl [of "\<lambda>(k, _). k = sr_access_token r" "accesses_of token data"] by simp
qed

text \<open>A session that is gone stays gone unless its token is drawn again.\<close>

abbreviation session_keys :: "session_data \<Rightarrow> string set" where
  "session_keys data \<equiv> fst ` set (sd_sessions data)"

lemma session_keys_shrink:
  "session_keys (touch token now data) = session_keys data" "session_keys (purge_expired now data) \<subseteq> session_keys data"
  "session_keys (remove_session token data) \<subseteq> session_keys data" "session_keys (enforce_session_capacity username data) \<subseteq> session_keys data"
  using enforce_session_capacity_shrinks [of username data]
  by (auto simp: touch_def dom_map_entry purge_expired_def Let_def remove_session_def AList.delete_eq)

lemma refresh_at_keys: "session_keys (ss_data (snd (refresh_at fmt token now now_utc source st))) \<subseteq> session_keys (ss_data st)"
proof (cases "ss_poisoned st \<or> map_of (sd_sessions (purge_expired now (ss_data st))) token = None")
  case True
  then show ?thesis by (cases "ss_poisoned st") (simp_all add: refresh_at_def Let_def session_keys_shrink(2))
next
  case False
  let ?data = "purge_expired now (ss_data st)"
  obtain r where r: "map_of (sd_sessions ?data) token = Some r" using False by auto
  have "insert token (session_keys ?data) = session_keys ?data" using map_of_SomeD [OF r] by force
  then have "session_keys (ss_data (snd (refresh_at fmt token now now_utc source st))) = session_keys ?data"
    using False by (simp add: refresh_at_def Let_def r dom_update split: option.split sum.split)
  then show ?thesis using session_keys_shrink(2) by simp
qed

lemma session_issue_keys:
  "session_keys (ss_data (snd (session_issue fmt username now now_utc source access_source st))) \<subseteq> set_option source \<union> session_keys (ss_data st)"
proof -
  have "session_keys (enforce_session_capacity username (purge_expired now (ss_data st))) \<subseteq> session_keys (ss_data st)"
    using session_keys_shrink(2) [of now "ss_data st"] session_keys_shrink(4) [of username "purge_expired now (ss_data st)"] by blast
  then have "session_keys (enforce_session_capacity username (purge_expired now (ss_data st))) \<subseteq> insert t (session_keys (ss_data st))" for t by blast
  then show ?thesis
    by (cases source; cases access_source)
      (simp_all add: session_issue_def random_token_def Let_def dom_update subset_insertI split: option.split sum.split)
qed

lemma session_step_gone:
  assumes "session_step fmt used st st'" "token \<in> used" "token \<notin> session_keys (ss_data st)"
  shows "token \<notin> session_keys (ss_data st')"
proof -
  have purged: "token \<notin> session_keys (purge_expired now (ss_data st))" if "token \<notin> session_keys (ss_data st)" for st now
    using that session_keys_shrink(2) by blast
  show ?thesis using assms
  proof (induction rule: session_step.induct)
    case (issue source access_source st username now now_utc)
    then show ?case using session_issue_keys [of fmt username now now_utc source access_source st] by blast
  next
    case (refresh source st t now now_utc)
    then show ?case using refresh_at_keys [of fmt t now now_utc source st] by blast
  next
    case (lookup st t now)
    then show ?case using purged [of st now]
      by (simp add: session_lookup_def Let_def session_keys_shrink(1) split: option.split)
  next
    case (revoke st t now)
    then have "token \<notin> session_keys (remove_session s (purge_expired now (ss_data st)))" for s
      using purged [of st now] session_keys_shrink(3) [of s "purge_expired now (ss_data st)"] by blast
    with revoke purged [of st now] show ?case by (simp add: session_revoke_def Let_def split: option.split)
  next
    case (ticket source st t now now_utc)
    then show ?case using purged [of st now]
      by (simp add: issue_websocket_ticket_def Let_def session_keys_shrink(1) split: option.split sum.split)
  next
    case (consume st ticket now)
    then show ?case using purged [of st now]
      by (simp add: consume_websocket_ticket_def touch_def dom_map_entry Let_def split: option.split)
  next
    case (validate st session now)
    then show ?case using purged [of st now]
      by (simp add: validate_websocket_session_def Let_def session_keys_shrink(1) split: option.split)
  qed (simp add: session_revoke_all_def Let_def)
qed

lemma session_run_gone:
  "(session_step fmt used)\<^sup>*\<^sup>* st st' \<Longrightarrow> token \<in> used \<Longrightarrow> token \<notin> session_keys (ss_data st) \<Longrightarrow> token \<notin> session_keys (ss_data st')"
  by (induction rule: rtranclp_induct) (auto dest: session_step_gone)

section \<open>What a credential is worth\<close>

lemma purge_expired_maps:
  assumes "data_ok data"
  shows "map_of (sd_sessions (purge_expired now data)) token =
      (case map_of (sd_sessions data) token of Some r \<Rightarrow> if session_live now r then Some r else None | None \<Rightarrow> None)"
    and "map_of (sd_accesses (purge_expired now data)) k =
      (case map_of (sd_accesses data) k of
         Some a \<Rightarrow> if now < ar_expires_at a \<and> map_of (sd_sessions (purge_expired now data)) (ar_session_token a) \<noteq> None then Some a else None
       | None \<Rightarrow> None)"
  using data_okD(1,2) [OF assms] by (simp_all add: purge_expired_def Let_def map_of_filter split: option.split)

lemma session_lookup_accepts:
  assumes "data_ok (ss_data st)" "\<not> ss_poisoned st" "map_of (sd_accesses (ss_data st)) k = Some a"
    and "map_of (sd_sessions (ss_data st)) (ar_session_token a) = Some r"
    and "now < ar_expires_at a" "session_live now r" "session_view_of fmt (sr_username r) (sr_expires_at_utc r) = Some (Inr view)"
  shows "fst (session_lookup fmt k now st) = Some (Inr (Some view))"
  using assms(2-) by (simp add: session_lookup_def Let_def purge_expired_maps [OF assms(1)])

lemma session_lookup_refuses:
  assumes "data_ok (ss_data st)" "\<not> ss_poisoned st"
    and "\<And>a. map_of (sd_accesses (ss_data st)) k = Some a \<Longrightarrow> ar_expires_at a \<le> now"
  shows "fst (session_lookup fmt k now st) = Some (Inr None)"
  using assms(2,3) by (auto simp: session_lookup_def Let_def purge_expired_maps [OF assms(1)] split: option.split)

lemma session_issue_Inr:
  assumes "session_issue fmt username now now_utc (Some token) (Some access) st = (Some (Inr issued), st')"
  obtains data r where "\<not> ss_poisoned st" "token \<noteq> access" "st' = with_data data st"
    "data = (enforce_session_capacity username (purge_expired now (ss_data st)))\<lparr>
      sd_accesses := AList.update access \<lparr>ar_session_token = token, ar_expires_at = sr_access_expires_at r\<rparr>
        (sd_accesses (enforce_session_capacity username (purge_expired now (ss_data st)))),
      sd_sessions := AList.update token r (sd_sessions (enforce_session_capacity username (purge_expired now (ss_data st))))\<rparr>"
    "map_of (sd_sessions (ss_data st)) access = None" "map_of (sd_accesses (ss_data st)) token = None"
    "auth_session_of fmt r = Some (Inr (is_view issued))" "is_token issued = token" "sr_username r = username" "sr_last_seen r = now"
    "sr_expires_at r = now + int SESSION_ABSOLUTE_TTL" "sr_access_token r = access" "sr_access_expires_at r = now + int ACCESS_TOKEN_TTL"
proof -
  let ?r = "\<lambda>e u. \<lparr>sr_username = username, sr_created_at = now, sr_last_seen = now, sr_expires_at = now + int SESSION_ABSOLUTE_TTL,
    sr_expires_at_utc = e, sr_access_token = access, sr_access_expires_at = now + int ACCESS_TOKEN_TTL, sr_access_expires_at_utc = u\<rparr>"
  obtain e u where "\<not> ss_poisoned st" "token \<noteq> access" "map_of (sd_sessions (ss_data st)) access = None" "map_of (sd_accesses (ss_data st)) token = None"
    "auth_session_of fmt (?r e u) = Some (Inr (is_view issued))" "is_token issued = token"
    "st' = with_data ((enforce_session_capacity username (purge_expired now (ss_data st)))\<lparr>
      sd_accesses := AList.update access \<lparr>ar_session_token = token, ar_expires_at = now + int ACCESS_TOKEN_TTL\<rparr>
        (sd_accesses (enforce_session_capacity username (purge_expired now (ss_data st)))),
      sd_sessions := AList.update token (?r e u) (sd_sessions (enforce_session_capacity username (purge_expired now (ss_data st))))\<rparr>) st"
    using assms by (auto simp: session_issue_def random_token_def Let_def instant_checked_add_def system_time_add_def
        split: option.splits sum.splits if_splits)
  then show thesis by (intro that [of _ "?r e u"]) simp_all
qed

lemma auth_session_of_Inr:
  assumes "auth_session_of fmt r = Some (Inr view)"
  shows "as_access_token view = sr_access_token r" "session_view_of fmt (sr_username r) (sr_expires_at_utc r) = Some (Inr (as_session view))"
  using assms by (auto simp: auth_session_of_def Let_def split: if_splits)

text \<open>The record of the session after a refresh.\<close>

lemma refresh_at_Inr:
  assumes "refresh_at fmt token now now_utc source st = (Some (Inr (Some view)), st')"
    and "map_of (sd_sessions (purge_expired now (ss_data st))) token = Some r"
  obtains r' where "\<not> ss_poisoned st" "auth_session_of fmt r' = Some (Inr view)"
    "st' = with_data ((purge_expired now (ss_data st))\<lparr>
      sd_sessions := AList.update token (r'\<lparr>sr_last_seen := now\<rparr>) (sd_sessions (purge_expired now (ss_data st))),
      sd_accesses := AList.update (sr_access_token r') \<lparr>ar_session_token = token, ar_expires_at = sr_access_expires_at r'\<rparr>
        (sd_accesses (purge_expired now (ss_data st)))\<rparr>) st"
    "sr_username r' = sr_username r" "sr_expires_at r' = sr_expires_at r" "sr_expires_at_utc r' = sr_expires_at_utc r"
    "if sr_access_expires_at r < sr_expires_at r \<and> saturating_duration_since (sr_access_expires_at r) now \<le> ACCESS_RENEW_WINDOW
     then source = Some (sr_access_token r') \<and> map_of (sd_accesses (purge_expired now (ss_data st))) (sr_access_token r') = None
     else r' = r"
proof (cases "sr_access_expires_at r < sr_expires_at r \<and> saturating_duration_since (sr_access_expires_at r) now \<le> ACCESS_RENEW_WINDOW")
  case True
  let ?data = "purge_expired now (ss_data st)"
  let ?r = "\<lambda>t at utc. r\<lparr>sr_access_token := t, sr_access_expires_at := at, sr_access_expires_at_utc := utc\<rparr>"
  from assms True obtain t at utc where run: "source = Some t" "\<not> ss_poisoned st" "map_of (sd_accesses ?data) t = None"
    "auth_session_of fmt (?r t at utc) = Some (Inr view)"
    "st' = with_data (?data\<lparr>sd_sessions := AList.update token ((?r t at utc)\<lparr>sr_last_seen := now\<rparr>) (sd_sessions ?data),
      sd_accesses := AList.update (as_access_token view) \<lparr>ar_session_token = token, ar_expires_at = at\<rparr> (sd_accesses ?data)\<rparr>) st"
    by (cases source) (auto simp: refresh_at_def random_token_def Let_def split: option.splits sum.splits if_splits)
  with auth_session_of_Inr(1) [OF run(4)] True show thesis
    by (intro that [of "?r t at utc"]) (simp_all add: with_data_def)
next
  case False
  with assms have run: "\<not> ss_poisoned st" "auth_session_of fmt r = Some (Inr view)"
    "st' = with_data ((purge_expired now (ss_data st))\<lparr>sd_sessions := AList.update token (r\<lparr>sr_last_seen := now\<rparr>) (sd_sessions (purge_expired now (ss_data st))),
      sd_accesses := AList.update (as_access_token view) \<lparr>ar_session_token = token, ar_expires_at = sr_access_expires_at r\<rparr>
        (sd_accesses (purge_expired now (ss_data st)))\<rparr>) st"
    by (auto simp: refresh_at_def Let_def split: option.splits sum.splits if_splits)
  with auth_session_of_Inr(1) [OF run(2)] False show thesis by (intro that [of r]) auto
qed

section \<open>Concrete sessions\<close>

definition plain_format :: time_format where
  "plain_format at = Some (Some ''later'')"

definition sample_issue :: "(session_error + issued_session) option \<times> session_store" where
  "sample_issue = session_issue plain_format ''admin'' 0 0 (Some ''cookie'') (Some ''bearer'') (session_store_new True)"

lemma sample_issue_reachable: "(session_step plain_format {})\<^sup>*\<^sup>* (session_store_new True) (snd sample_issue)"
  unfolding sample_issue_def by (rule r_into_rtranclp, rule session_step.issue) simp_all

lemma sample_issued: "\<exists>issued. session_issue plain_format ''admin'' 0 0 (Some ''cookie'') (Some ''bearer'') (session_store_new True) =
    (Some (Inr issued), snd sample_issue)"
proof -
  have "(case fst sample_issue of Some (Inr _) \<Rightarrow> True | _ \<Rightarrow> False)" by code_simp
  then obtain issued where "fst sample_issue = Some (Inr issued)" by (auto split: option.splits sum.splits)
  then have "sample_issue = (Some (Inr issued), snd sample_issue)" by (simp add: prod_eq_iff)
  then show ?thesis by (intro exI [of _ issued]) (simp flip: sample_issue_def)
qed

section \<open>Properties\<close>

text \<open>
  Property C10: the session store stays within its bounds in every run, whatever the clocks and the random
  source give: at most 4096 sessions, 16 of one user, 128 tickets, 4 of one session, and two access
  tokens of one session. No access token and no ticket outlives its session.
\<close>

theorem session_store_bounded:
  assumes "(session_step fmt used)\<^sup>*\<^sup>* (session_store_new secure) st"
  defines "data \<equiv> ss_data st"
  shows "length (sd_sessions data) \<le> SESSION_GLOBAL_CAPACITY \<and> length (user_sessions username data) \<le> SESSION_PER_USER_CAPACITY \<and>
    length (sd_tickets data) \<le> WS_TICKET_GLOBAL_CAPACITY \<and> length (tickets_of token data) \<le> WS_TICKET_PER_SESSION_CAPACITY \<and>
    length (accesses_of token data) \<le> 2 \<and>
    (map_of (sd_sessions data) token = None \<longrightarrow> accesses_of token data = [] \<and> tickets_of token data = [])"
proof -
  have ok: "data_ok data" unfolding data_def by (rule session_reachable_ok [OF assms(1)])
  note facts = data_okD [OF ok]
  have "accesses_of token data = []" "tickets_of token data = []" if "map_of (sd_sessions data) token = None"
    using that facts(4,5) by (force simp: accesses_of_def tickets_of_def filter_empty_conv map_of_eq_None_iff)+
  then show ?thesis using facts(6,8) facts(7) [of username] facts(9) [of token] at_most_two_accesses [OF ok, of token] by blast
qed

theorem session_store_bounded_witness:
  "length (sd_sessions (ss_data (snd sample_issue))) = 1 \<and> length (accesses_of ''cookie'' (ss_data (snd sample_issue))) \<le> 2"
proof -
  have "length (sd_sessions (ss_data (snd sample_issue))) = 1" by code_simp
  then show ?thesis using session_store_bounded [OF sample_issue_reachable] by blast
qed

text \<open>
  Property C11: revoking a session is final. The revocation of a live access token tells the watchers, and
  refuses at once every access token and ticket of the session; as long as its random string is not drawn again,
  no access token or ticket ever leads to the session, it cannot be refreshed and no web socket of it is valid.
\<close>

theorem revoked_session_is_gone:
  assumes "(session_step fmt {})\<^sup>*\<^sup>* (session_store_new secure) st" "\<not> ss_poisoned st"
    and "map_of (sd_accesses (purge_expired now (ss_data st))) k = Some a"
    and "st' = session_revoke k now st" "(session_step fmt {ar_session_token a})\<^sup>*\<^sup>* st' later"
  shows "ss_changes st' = saturating_add (ss_changes st) 1 \<and>
    (\<forall>k' a'. map_of (sd_accesses (ss_data st)) k' = Some a' \<longrightarrow> ar_session_token a' = ar_session_token a \<longrightarrow>
       fst (session_lookup fmt k' at st') = Some (Inr None)) \<and>
    (\<forall>k' t. map_of (sd_tickets (ss_data st)) k' = Some t \<longrightarrow> wt_session_token t = ar_session_token a \<longrightarrow>
       fst (consume_websocket_ticket k' at st') = Inr None) \<and>
    accesses_of (ar_session_token a) (ss_data later) = [] \<and> tickets_of (ar_session_token a) (ss_data later) = [] \<and>
    fst (refresh_at fmt (ar_session_token a) at at_utc source later) \<in> {Some (Inr None), Some (Inl SessionUnavailable)} \<and>
    fst (validate_websocket_session (ar_session_token a) at later) \<in> {Inr False, Inl SessionUnavailable}"
proof -
  let ?t = "ar_session_token a" and ?data = "purge_expired now (ss_data st)"
  have data: "data_ok ?data" by (rule purge_expired_ok [OF session_reachable_ok [OF assms(1)]])
  have st': "st' = notify_change (with_data (remove_session ?t ?data) st)"
    using assms(2-4) by (simp add: session_revoke_def Let_def)
  have ok': "data_ok (ss_data st')" unfolding st' by (simp add: remove_session_ok [OF data])
  have open': "\<not> ss_poisoned st'" using assms(2) by (simp add: st')
  have "?t \<notin> session_keys (ss_data st')" by (auto simp: st' remove_session_def AList.delete_eq)
  then have gone: "?t \<notin> session_keys (ss_data later)" by (rule session_run_gone [OF assms(5), rotated]) simp
  have later: "data_ok (ss_data later)" by (rule session_run_ok [OF assms(5) ok'])
  have none: "map_of (sd_sessions (purge_expired at (ss_data later))) ?t = None"
    using gone session_keys_shrink(2) [of at "ss_data later"] unfolding map_of_eq_None_iff by blast
  have "accesses_of ?t (ss_data later) = []" "tickets_of ?t (ss_data later) = []"
    using data_okD(4,5) [OF later] gone by (force simp: accesses_of_def tickets_of_def filter_empty_conv)+
  moreover have "fst (session_lookup fmt k' at st') = Some (Inr None)"
    if "map_of (sd_accesses (ss_data st)) k' = Some a'" "ar_session_token a' = ?t" for k' a'
  proof (rule session_lookup_refuses [OF ok' open'])
    have "map_of (sd_accesses ?data) k' = None \<or> map_of (sd_accesses ?data) k' = Some a'"
      using that(1) by (simp add: purge_expired_maps [OF session_reachable_ok [OF assms(1)]] split: option.split)
    then have "map_of (sd_accesses (ss_data st')) k' = None"
      using that(2) data_okD(2) [OF data] by (auto simp: st' remove_session_def map_of_filter)
    then show "ar_expires_at x \<le> at" if "map_of (sd_accesses (ss_data st')) k' = Some x" for x using that by simp
  qed
  moreover have "fst (consume_websocket_ticket k' at st') = Inr None"
    if "map_of (sd_tickets (ss_data st)) k' = Some t" "wt_session_token t = ?t" for k' t
  proof -
    have "map_of (sd_tickets ?data) k' = None \<or> map_of (sd_tickets ?data) k' = Some t"
      using that(1) data_okD(3) [OF session_reachable_ok [OF assms(1)]]
      by (simp add: purge_expired_def Let_def map_of_filter split: option.split)
    then have "map_of (sd_tickets (ss_data st')) k' = None"
      using that(2) data_okD(3) [OF data] by (auto simp: st' remove_session_def map_of_filter)
    then have "map_of (sd_tickets (purge_expired at (ss_data st'))) k' = None"
      using data_okD(3) [OF ok'] by (simp add: purge_expired_def Let_def map_of_filter)
    then show ?thesis using open' by (simp add: consume_websocket_ticket_def Let_def)
  qed
  moreover have "fst (refresh_at fmt ?t at at_utc source later) \<in> {Some (Inr None), Some (Inl SessionUnavailable)}"
    "fst (validate_websocket_session ?t at later) \<in> {Inr False, Inl SessionUnavailable}"
    using none by (simp_all add: refresh_at_def validate_websocket_session_def Let_def)
  moreover have "ss_changes st' = saturating_add (ss_changes st) 1" by (simp add: st' notify_change_def with_data_def)
  ultimately show ?thesis by blast
qed

theorem revoked_session_is_gone_witness:
  "fst (session_lookup plain_format ''bearer'' 2 (session_revoke ''bearer'' 1 (snd sample_issue))) = Some (Inr None) \<and>
   fst (validate_websocket_session ''cookie'' 2 (session_revoke ''bearer'' 1 (snd sample_issue))) = Inr False"
proof -
  let ?st' = "session_revoke ''bearer'' 1 (snd sample_issue)" and ?a = "\<lparr>ar_session_token = ''cookie'', ar_expires_at = int ACCESS_TOKEN_TTL\<rparr>"
  have "map_of (sd_accesses (purge_expired 1 (ss_data (snd sample_issue)))) ''bearer'' = Some ?a"
    "map_of (sd_accesses (ss_data (snd sample_issue))) ''bearer'' = Some ?a" "\<not> ss_poisoned (snd sample_issue)"
    "fst (validate_websocket_session ''cookie'' 2 ?st') \<noteq> Inl SessionUnavailable" by code_simp+
  with revoked_session_is_gone [OF sample_issue_reachable, where now = 1 and k = "''bearer''" and a = ?a and st' = ?st' and later = ?st'
      and at = 2 and at_utc = 0 and source = None]
  show ?thesis by simp
qed

text \<open>
  Property C15: what a new session is worth. Its access token is accepted for the user for exactly one hour; its
  cookie is no access token and its access token is no cookie. A refresh with the cookie returns the same access
  token during the first 50 minutes.
\<close>

theorem issued_session_works:
  assumes "(session_step fmt used)\<^sup>*\<^sup>* (session_store_new secure) st"
    and "session_issue fmt username now now_utc (Some token) (Some access) st = (Some (Inr issued), st')" "now \<le> at"
  shows "is_token issued = token \<and> as_access_token (is_view issued) = access \<and> sv_user (as_session (is_view issued)) = username \<and>
    fst (session_lookup fmt access at st') =
      Some (Inr (if at < now + int ACCESS_TOKEN_TTL then Some (as_session (is_view issued)) else None)) \<and>
    fst (session_lookup fmt token at st') = Some (Inr None) \<and> fst (refresh_at fmt access at at_utc source st') = Some (Inr None) \<and>
    (at < now + int ACCESS_TOKEN_TTL - int ACCESS_RENEW_WINDOW \<longrightarrow>
      fst (refresh_at fmt token at at_utc source st') = Some (Inr (Some (is_view issued))))"
proof -
  obtain data r where run: "\<not> ss_poisoned st" "token \<noteq> access" "st' = with_data data st"
    and data: "data = (enforce_session_capacity username (purge_expired now (ss_data st)))\<lparr>
      sd_accesses := AList.update access \<lparr>ar_session_token = token, ar_expires_at = sr_access_expires_at r\<rparr>
        (sd_accesses (enforce_session_capacity username (purge_expired now (ss_data st)))),
      sd_sessions := AList.update token r (sd_sessions (enforce_session_capacity username (purge_expired now (ss_data st))))\<rparr>"
    and unused: "map_of (sd_sessions (ss_data st)) access = None" "map_of (sd_accesses (ss_data st)) token = None"
    and view: "auth_session_of fmt r = Some (Inr (is_view issued))" "is_token issued = token"
    and r: "sr_username r = username" "sr_last_seen r = now"
      "sr_expires_at r = now + int SESSION_ABSOLUTE_TTL" "sr_access_token r = access" "sr_access_expires_at r = now + int ACCESS_TOKEN_TTL"
    by (rule session_issue_Inr [OF assms(2)])
  have ok: "data_ok data"
    using session_issue_ok [OF session_reachable_ok [OF assms(1)], of fmt username now now_utc "Some token" "Some access"] assms(2) run(3) by simp
  have maps: "map_of (sd_sessions data) token = Some r"
    "map_of (sd_accesses data) access = Some \<lparr>ar_session_token = token, ar_expires_at = now + int ACCESS_TOKEN_TTL\<rparr>"
    by (simp_all add: data r(5) update_conv')
  have subset: "set (sd_sessions (enforce_session_capacity username (purge_expired now (ss_data st)))) \<subseteq> set (sd_sessions (ss_data st))"
    "set (sd_accesses (enforce_session_capacity username (purge_expired now (ss_data st)))) \<subseteq> set (sd_accesses (ss_data st))"
    using enforce_session_capacity_shrinks [of username "purge_expired now (ss_data st)"] by (auto simp: purge_expired_def Let_def)
  have none: "map_of (sd_sessions data) access = None" "map_of (sd_accesses data) token = None"
    using subset unused run(2) unfolding map_of_eq_None_iff by (auto simp: data dom_update)
  have purged: "map_of (sd_sessions (purge_expired at data)) access = None"
    using none(1) by (simp add: purge_expired_maps [OF ok])
  have live: "session_live at r" if "at < now + int ACCESS_TOKEN_TTL"
    using that assms(3) r by (simp add: session_live_def saturating_duration_since_def SESSION_IDLE_TTL_def SESSION_ABSOLUTE_TTL_def
        ACCESS_TOKEN_TTL_def seconds_def)
  have st': "ss_data st' = data" "\<not> ss_poisoned st'" using run by simp_all
  note shown = auth_session_of_Inr [OF view(1)]
  have user: "sv_user (as_session (is_view issued)) = username" using shown(2) r(1) by (auto simp: session_view_of_def) (metis session_view.select_convs(1))
  have "fst (session_lookup fmt access at st') = Some (Inr (Some (as_session (is_view issued))))" if "at < now + int ACCESS_TOKEN_TTL"
    using session_lookup_accepts [of st' access _ r at] ok st' maps live [OF that] that shown(2) by simp
  moreover have "fst (session_lookup fmt access at st') = Some (Inr None)" if "\<not> at < now + int ACCESS_TOKEN_TTL"
    using session_lookup_refuses [of st' access at fmt] ok st' maps(2) that by simp
  moreover have "fst (session_lookup fmt token at st') = Some (Inr None)"
    using session_lookup_refuses [of st' token at fmt] ok st' none(2) by simp
  moreover have "fst (refresh_at fmt access at at_utc source st') = Some (Inr None)"
    using purged st' by (simp add: refresh_at_def Let_def)
  moreover have "fst (refresh_at fmt token at at_utc source st') = Some (Inr (Some (is_view issued)))"
    if "at < now + int ACCESS_TOKEN_TTL - int ACCESS_RENEW_WINDOW"
  proof -
    have "map_of (sd_sessions (purge_expired at data)) token = Some r" using live that maps(1) by (simp add: purge_expired_maps [OF ok])
    moreover have "\<not> saturating_duration_since (sr_access_expires_at r) at \<le> ACCESS_RENEW_WINDOW"
      using that r(5) by (simp add: saturating_duration_since_def)
    ultimately show ?thesis using st' view(1) by (simp add: refresh_at_def Let_def)
  qed
  ultimately show ?thesis using view(2) user shown(1) r(4) by simp
qed

theorem issued_session_works_witness:
  "\<exists>view. fst (session_lookup plain_format ''bearer'' 5 (snd sample_issue)) = Some (Inr (Some view)) \<and> sv_user view = ''admin''"
proof -
  obtain issued where "session_issue plain_format ''admin'' 0 0 (Some ''cookie'') (Some ''bearer'') (session_store_new True) =
    (Some (Inr issued), snd sample_issue)" using sample_issued by blast
  from issued_session_works [OF rtranclp.rtrancl_refl this, where at = 5] show ?thesis
    by (auto simp: ACCESS_TOKEN_TTL_def seconds_def)
qed

text \<open>
  Property C14: a refresh rotates without cutting off requests. The returned access token is a new one exactly when the
  current one is about to expire before the session, otherwise the current one. It is accepted from then on, and every
  access token of the session that was good before the refresh stays good until its own expiry, while the session lives.
\<close>

theorem refresh_keeps_tokens:
  assumes "(session_step fmt used)\<^sup>*\<^sup>* (session_store_new secure) st"
    and "refresh_at fmt token now now_utc source st = (Some (Inr (Some view)), st')"
    and "map_of (sd_sessions (purge_expired now (ss_data st))) token = Some r"
    and "now \<le> at" "at < now + int SESSION_IDLE_TTL" "at < sr_expires_at r"
  shows "Some (as_access_token view) = (if sr_access_expires_at r < sr_expires_at r \<and>
        saturating_duration_since (sr_access_expires_at r) now \<le> ACCESS_RENEW_WINDOW then source else Some (sr_access_token r)) \<and>
    (\<exists>until. map_of (sd_accesses (ss_data st')) (as_access_token view) = Some \<lparr>ar_session_token = token, ar_expires_at = until\<rparr> \<and>
      (at < until \<longrightarrow> fst (session_lookup fmt (as_access_token view) at st') = Some (Inr (Some (as_session view))))) \<and>
    (\<forall>k a. map_of (sd_accesses (purge_expired now (ss_data st))) k = Some a \<longrightarrow> ar_session_token a = token \<longrightarrow> at < ar_expires_at a \<longrightarrow>
      fst (session_lookup fmt k at st') = Some (Inr (Some (as_session view))))"
proof -
  let ?data = "purge_expired now (ss_data st)"
  have ok: "data_ok ?data" by (rule purge_expired_ok [OF session_reachable_ok [OF assms(1)]])
  obtain r' where r': "\<not> ss_poisoned st" "auth_session_of fmt r' = Some (Inr view)"
    and st': "st' = with_data (?data\<lparr>sd_sessions := AList.update token (r'\<lparr>sr_last_seen := now\<rparr>) (sd_sessions ?data),
      sd_accesses := AList.update (sr_access_token r') \<lparr>ar_session_token = token, ar_expires_at = sr_access_expires_at r'\<rparr> (sd_accesses ?data)\<rparr>) st"
    and same: "sr_username r' = sr_username r" "sr_expires_at r' = sr_expires_at r" "sr_expires_at_utc r' = sr_expires_at_utc r"
    and new: "if sr_access_expires_at r < sr_expires_at r \<and> saturating_duration_since (sr_access_expires_at r) now \<le> ACCESS_RENEW_WINDOW
      then source = Some (sr_access_token r') \<and> map_of (sd_accesses ?data) (sr_access_token r') = None else r' = r"
    by (rule refresh_at_Inr [OF assms(2,3)])
  note view = auth_session_of_Inr [OF r'(2)]
  have ok': "data_ok (ss_data st')"
    using refresh_at_ok [OF session_reachable_ok [OF assms(1)], of fmt token now now_utc source] assms(2) by simp
  have live: "session_live at (r'\<lparr>sr_last_seen := now\<rparr>)"
    using assms(4-6) same(2) by (simp add: session_live_def saturating_duration_since_def)
  have accepted: "fst (session_lookup fmt k at st') = Some (Inr (Some (as_session view)))"
    if "map_of (sd_accesses (ss_data st')) k = Some a" "ar_session_token a = token" "at < ar_expires_at a" for k a
    using that live r'(1) view(2) by (intro session_lookup_accepts [OF ok', of _ _ "r'\<lparr>sr_last_seen := now\<rparr>"]) (simp_all add: st' update_conv')
  have kept: "map_of (sd_accesses (ss_data st')) k = Some a"
    if old: "map_of (sd_accesses ?data) k = Some a" "ar_session_token a = token" for k a
  proof (cases "k = sr_access_token r'")
    case True
    then have "r' = r" using new old(1) by (auto split: if_splits)
    then have "ar_expires_at a = sr_access_expires_at r'"
      using data_okD(10) [OF ok map_of_SomeD [OF assms(3)]] old True map_of_SomeD [OF old(1)] by (auto simp: accesses_ok_def)
    then have "a = \<lparr>ar_session_token = token, ar_expires_at = sr_access_expires_at r'\<rparr>" using old(2) by (cases a) simp
    then show ?thesis using True by (simp add: st' update_conv')
  qed (use old in \<open>simp add: st' update_conv'\<close>)
  have current: "map_of (sd_accesses (ss_data st')) (as_access_token view) =
      Some \<lparr>ar_session_token = token, ar_expires_at = sr_access_expires_at r'\<rparr>" by (simp add: st' update_conv' view(1))
  show ?thesis
  proof (intro conjI exI allI impI)
    show "Some (as_access_token view) = (if sr_access_expires_at r < sr_expires_at r \<and>
        saturating_duration_since (sr_access_expires_at r) now \<le> ACCESS_RENEW_WINDOW then source else Some (sr_access_token r))"
      using new view(1) by (auto split: if_splits)
    show "map_of (sd_accesses (ss_data st')) (as_access_token view) =
      Some \<lparr>ar_session_token = token, ar_expires_at = sr_access_expires_at r'\<rparr>" by (rule current)
    show "fst (session_lookup fmt (as_access_token view) at st') = Some (Inr (Some (as_session view)))" if "at < sr_access_expires_at r'"
      using accepted [OF current] that by simp
    show "fst (session_lookup fmt k at st') = Some (Inr (Some (as_session view)))"
      if "map_of (sd_accesses ?data) k = Some a" "ar_session_token a = token" "at < ar_expires_at a" for k a
      using accepted [OF kept] that by blast
  qed
qed

text \<open>The session of the example, refreshed five minutes before its access token expires.\<close>

definition sample_refresh :: "(session_error + auth_session option) option \<times> session_store" where
  "sample_refresh = refresh_at plain_format ''cookie'' (int (seconds 3300)) 0 (Some ''fresh'') (snd sample_issue)"

theorem refresh_keeps_tokens_witness:
  "\<exists>view. fst (session_lookup plain_format ''bearer'' (int (seconds 3500)) (snd sample_refresh)) = Some (Inr (Some view)) \<and>
     fst sample_refresh = Some (Inr (Some \<lparr>as_session = view, as_access_token = ''fresh'', as_token_type = ''Bearer'',
       as_access_expires_at_ms = 3600000\<rparr>))"
proof -
  let ?view = "\<lparr>as_session = \<lparr>sv_user = ''admin'', sv_expires_at = ''later''\<rparr>, as_access_token = ''fresh'', as_token_type = ''Bearer'',
    as_access_expires_at_ms = 3600000\<rparr>"
  let ?a = "\<lparr>ar_session_token = ''cookie'', ar_expires_at = int ACCESS_TOKEN_TTL\<rparr>"
  let ?data = "purge_expired (int (seconds 3300)) (ss_data (snd sample_issue))"
  have view: "fst sample_refresh = Some (Inr (Some ?view))" by code_simp
  then have run: "refresh_at plain_format ''cookie'' (int (seconds 3300)) 0 (Some ''fresh'') (snd sample_issue) =
      (Some (Inr (Some ?view)), snd sample_refresh)" by (simp add: prod_eq_iff flip: sample_refresh_def)
  have old: "map_of (sd_accesses ?data) ''bearer'' = Some ?a" by code_simp
  have "map_option sr_expires_at (map_of (sd_sessions ?data) ''cookie'') = Some (int SESSION_ABSOLUTE_TTL)" by code_simp
  then obtain r where r: "map_of (sd_sessions ?data) ''cookie'' = Some r" "sr_expires_at r = int SESSION_ABSOLUTE_TTL" by auto
  from refresh_keeps_tokens [OF sample_issue_reachable run r(1), where at = "int (seconds 3500)"] r(2) old
  have "fst (session_lookup plain_format ''bearer'' (int (seconds 3500)) (snd sample_refresh)) = Some (Inr (Some (as_session ?view)))"
    by (auto simp: seconds_def SESSION_IDLE_TTL_def SESSION_ABSOLUTE_TTL_def ACCESS_TOKEN_TTL_def)
  with view show ?thesis by simp
qed

end
