(* ===== verification/Spec2Isabelle.thy ===== *)
theory Spec2Isabelle
  imports Plan_Laws Cache_Facade_Laws Cache_Finalizer Upstream_Executor Socks5_Laws Session_Laws
begin

text \<open>
  FluxDNS: a verification of the policy, cache and upstream core of the DNS forwarder and of the sessions of its
  management interface (paths are relative to \<open>src/backend/src\<close>).

  \<^bold>\<open>The program.\<close> A request reaches a listener or DoH route, which selects a strategy. The client is
  identified by an id or address. The rules of the strategy are tried over hosts files and rule sets and
  give an answer or an upstream, and the request is assigned a cache pool. The canonical query and the pool
  form a cache key. The cache facade answers from the store or makes one caller the leader of a load; the
  leader's answer is admitted, committed and handed to the followers. An upstream may be a
  group, whose members are selected, asked in turn or in parallel with an optional fallback group, and whose attempts
  are aggregated; it may be reached through a SOCKS5 proxy. Snapshots keep records over restarts. Apart from the
  requests, the management interface keeps sessions with rotating access tokens and single-use tickets.

  \<^bold>\<open>Theories and sources.\<close>
  \<^item> \<open>Flux_Prelude\<close>, \<open>Rust_Strings\<close>, \<open>Byte_Words\<close>, \<open>Byte_Codecs\<close>: results, checked and saturating arithmetic,
    strings, big-endian words, and the locales \<open>unique_index\<close> and \<open>self_delimiting\<close>.
  \<^item> \<open>Rule_Regex\<close>, \<open>Rule_Types\<close>, \<open>Dat_Reader\<close>, \<open>Rule_Index\<close>, \<open>Rule_Parse\<close>: \<open>resource/rules.rs\<close>, that is the regex
    compiler and matcher, the limits, the protobuf reader, the rule index and the three parsers.
  \<^item> \<open>Net_Address\<close>, \<open>Domain_Names\<close>, \<open>Hosts\<close>: \<open>resource/hosts.rs\<close>.
  \<^item> \<open>Resource_Loader\<close>: \<open>resource/loader.rs\<close> and \<open>config/hash.rs\<close>, over a history of
    file system states, one at each system call.
  \<^item> \<open>Config_Types\<close>, \<open>Client_Index\<close>, \<open>Doh_Route\<close>, \<open>Routes\<close>: the resolved configuration (\<open>config/resolve.rs\<close>,
    \<open>config/model.rs\<close>), \<open>policy/client.rs\<close>, \<open>config/doh_route.rs\<close>, \<open>policy/strategy.rs\<close> and \<open>policy/route.rs\<close>.
  \<^item> \<open>Plan\<close>, \<open>Plan_Laws\<close>: \<open>policy/plan.rs\<close>, from index construction to the evaluation of a request.
  \<^item> \<open>Dns_Message\<close>: \<open>dns/message.rs\<close>.
  \<^item> \<open>Cache_Namespace\<close>, \<open>Cache_Types\<close>: the types of \<open>ports/cache.rs\<close>, with the deadline of \<open>dns/context.rs\<close> and
    the error classes of \<open>ports/mod.rs\<close>.
  \<^item> \<open>Cache_Key\<close>, \<open>Cache_Admission\<close>, \<open>Cache_Codec\<close> with \<open>Cache_Codec_Laws\<close>: \<open>cache/key.rs\<close>, \<open>cache/admission.rs\<close>
    and \<open>cache/codec.rs\<close>; the locale \<open>field_codec\<close> carries the round trips.
  \<^item> \<open>Cache_Memory\<close>, \<open>Cache_Memory_Laws\<close>: every operation of \<open>cache/memory.rs\<close>, its invariant, and its refinement
    of an abstract versioned map (\<open>spec_step\<close>).
  \<^item> \<open>Cache_Flight\<close>: the single flight of loads as the step relation \<open>flight_step\<close> over the store, the live
    leases and waiters and the parked tasks.
  \<^item> \<open>Cache_Port\<close>: the trait \<open>CacheStore\<close> as a record of operations, and its contract, the locale
    \<open>lawful_store\<close>, interpreted on the in-memory store.
  \<^item> \<open>Cache_Facade\<close>, \<open>Cache_Facade_Laws\<close>: \<open>cache/service.rs\<close> (lookup, write, commit, refresh admission) and
    \<open>fresh_cache_response\<close> of \<open>dns/policy.rs\<close>; the client lemmas are proved in \<open>lawful_store\<close>.
  \<^item> \<open>Cache_Finalizer\<close>: \<open>LateCacheFinalizer\<close> of \<open>cache/service.rs\<close> as a step relation.
  \<^item> \<open>Upstream_Outcome\<close>, \<open>Upstream_Group\<close>: \<open>upstream/outcome.rs\<close> and \<open>upstream/group.rs\<close>, the aggregation of the
    attempts of a group and the selection of its members.
  \<^item> \<open>Request_Context\<close>, \<open>Upstream_Executor\<close>: the cancellation handle of \<open>dns/context.rs\<close> and \<open>upstream/executor.rs\<close>, the
    binding of connectors, the ordered and the parallel phase, late results and the fallback.
  \<^item> \<open>Outbound_Stream\<close>: the port \<open>OutboundStream\<close> of \<open>ports/effects.rs\<close> as the locale \<open>outbound_stream\<close>, interpreted on the
    TCP adapter of \<open>upstream/tokio_outbound.rs\<close>.
  \<^item> \<open>Socks5\<close>, \<open>Socks5_Laws\<close>: \<open>upstream/socks5.rs\<close> and the profiles, targets and connector of
    \<open>upstream/outbound.rs\<close>; the lemmas on the handshake are proved in \<open>outbound_stream\<close>.
  \<^item> \<open>Session_Store\<close>, \<open>Session_Laws\<close>: \<open>management/session.rs\<close>, every operation on the session table and its runs as the step
    relation \<open>session_step\<close>.

  \<^bold>\<open>Conventions.\<close> A \<open>Result\<close> is a sum, the error on the left. Maps whose order may show are association lists.
  A duration is a number of nanoseconds, an instant an integer; a reading of a clock is an argument, in the
  order in which the code reads it. Versions, generations, TTLs and checksums are words of their width and
  wrap as in the code. A poisoned mutex is a flag of the store; a waker is a number. What asynchronous code
  observes (the cancellation handle where it is read, the winner of a \<open>select!\<close>, the order in which tasks finish, the bytes
  a read moves) is data of an environment, and the properties hold for every environment their hypotheses admit.

  \<^bold>\<open>Parameters.\<close> The DNS library (names, wire form, EDNS) is \<open>message_lib\<close> with the laws \<open>message_lib_ok\<close>; IP
  networks, SHA-256 and the YAML and JSON decoders are arguments too, and so are the connectors, the dialer and resolver,
  the random source, the time formatter and the cookie parser. Each assumption on them is a
  hypothesis of the property that uses it and is met by a concrete instance in its witness.

  \<^bold>\<open>What is shown.\<close> For the rules: the matcher decides the language of its pattern, the parsers establish the
  limits, the priority of matches. For the policy: selection follows the configuration, references never
  dangle, pools keep clients apart. For messages and keys: canonical forms are fixed points, keys are
  injective. For the cache: admitted entries are well formed, the store refines its specification, eviction
  ends, writes lose no update, records survive the codec, each key has one leader, each follower is served,
  a commit always ends its load, lookups serve only what is valid, refreshes and late tasks are bounded and
  a shutdown leaves no task behind. For the upstreams: the order in which attempts finish does not matter, which
  attempt wins, the round robin is fair, load balancing picks the least loaded member even while
  leases are dropped, an executor always answers and
  throws no usable answer away, an ordered group returns what its last attempt gave, and a parallel one the first
  positive response. For the proxy: the handshake succeeds exactly with an accepting proxy and reads no byte behind
  its frames, and the credentials are sent only when asked for. For the sessions: the table stays within its
  bounds, a revocation is final, access tokens live one hour and a refresh cuts no request off. Two properties
  state flaws: a strategy name the configuration accepts can make the requests fail that would use its cache
  (\<open>long_strategy_name_refused\<close>), and a restored record is answered with TTLs that
  ignore the time the process was down (\<open>restored_ttl_ignores_downtime\<close>). Two lemmas of \<open>Socks5_Laws\<close> state smaller ones:
  a frame that breaks off is reported as a clean end (\<open>truncated_frame_is_clean_eof\<close>), and a proxy host in brackets is
  always given to the resolver (\<open>bracketed_host_goes_to_resolver\<close>).

  \<^bold>\<open>Bounds and termination.\<close> No definition uses fuel. Loops are structural or have a measure: the text left for
  the scan of the matcher, the bytes left for the readers, the records or sessions left for eviction, the rest of a frame for a read, the
  limit left for the read of a file. Concurrent
  code is a step relation, and its properties hold for runs of any length and any number of threads.
  A count of followers is assumed to fit 64 bits.

  \<^bold>\<open>Not modelled.\<close> Sockets, HTTP, TLS and timers (\<open>transport\<close>, most of \<open>upstream\<close>, \<open>runtime\<close>, \<open>app.rs\<close>,
  \<open>service.rs\<close>), SQL (\<open>storage\<close>), the HTTP handlers of the management API and the frontend, logging and metrics: effects on the
  outside with little logic of their own. The moka store delegates to a third-party cache. The snapshot
  files are I/O around the modelled codec. Of \<open>shutdown_until\<close> the deadline and the summary are left out, of
  \<open>commit\<close> the activity observation, of the outbound profile its construction from a URL, of the stream chunked reads and
  the shutdown, of the sessions the cookie the library builds. A nested group is an answer of the environment of its
  executor. Logic that is not covered yet: the request pipeline of \<open>dns/policy.rs\<close> and the rules of \<open>config/validate.rs\<close>.
\<close>

end
